(* ===== verification/Prelude.thy ===== *)
theory Prelude
  imports Main "HOL-Library.Word" "HOL-Library.AList" "HOL-Library.Multiset"
begin

text \<open>
  What every component of the model shares: the fragment of the Go language and runtime that
  pontifex uses.
  \<^item> errors as values (\<open>go_error\<close>) and \<open>errors.Join\<close>;
  \<^item> maps as association lists with distinct keys, behind the interface \<open>go_map\<close>;
  \<^item> iteration over a map: Go leaves the order open, so every loop over a map takes the
    order as a list of choices (\<open>shuffle\<close>), and every theorem holds for all of them;
  \<^item> the loop \<open>for x in xs: skip, or act and collect the error\<close> (\<open>go_for\<close>), of which all
    reconcilers are built.
\<close>

named_theorems go_defs "definitions of the Go runtime fragment, unfolded in component proofs"

type_synonym u32 = "32 word"

section \<open>Errors\<close>

text \<open>
  \<open>Errs\<close> is \<open>errors.New\<close> / \<open>fmt.Errorf\<close> without a wrapped error, \<open>Wrap\<close> is
  \<open>fmt.Errorf("msg: %w", err)\<close> with the text before the colon, \<open>Joined\<close> is the
  result of \<open>errors.Join\<close>, \<open>NotFound\<close> the API error \<open>client.IgnoreNotFound\<close> tests for.
\<close>

datatype go_error =
    Errs string
  | Wrap string go_error
  | Joined "go_error list"
  | NotFound string

text \<open>\<open>fmt.Errorf("text %s", arg)\<close>: the text of a message and the string it ends in.\<close>

definition fmt_s :: "string \<Rightarrow> string \<Rightarrow> string" where
  "fmt_s text arg = text @ arg"

text \<open>
  \<open>fmt.Errorf("text %q", arg)\<close>: the argument in double quotes, with quotes, backslashes and control
  characters escaped (of the printable characters only ASCII ones are kept as they are).
\<close>

definition hex_digit :: "nat \<Rightarrow> char" where
  "hex_digit n = ''0123456789abcdef'' ! n"

definition quote_char :: "char \<Rightarrow> string" where
  "quote_char c =
     (let n = of_char c :: nat
      in if c = CHR 0x22 \<or> c = CHR 0x5C then [CHR 0x5C, c]
         else if 32 \<le> n \<and> n < 127 then [c]
         else if 7 \<le> n \<and> n < 14 then [CHR 0x5C, ''abtnvfr'' ! (n - 7)]
         else [CHR 0x5C, CHR ''x'', hex_digit (n div 16), hex_digit (n mod 16)])"

definition fmt_q :: "string \<Rightarrow> string \<Rightarrow> string" where
  "fmt_q text arg = text @ [CHR 0x22] @ concat (map quote_char arg) @ [CHR 0x22]"

text \<open>\<open>errors.Join(errs...)\<close>: nil when there is no error.\<close>

definition join_errs :: "go_error list \<Rightarrow> go_error option" where
  "join_errs es = (if es = [] then None else Some (Joined es))"

lemma join_errs_None [simp]: "join_errs es = None \<longleftrightarrow> es = []"
  by (simp add: join_errs_def)

lemma join_errs_Nil [simp]: "join_errs [] = None"
  by simp

lemma pair_fst: "fst p = a \<Longrightarrow> p = (a, snd p)"
  by (cases p) simp

section \<open>The iteration order of Go maps\<close>

text \<open>
  \<open>shuffle ns xs\<close> visits the entries of \<open>xs\<close> in the order picked by the choices \<open>ns\<close>: each
  number selects one of the entries that are left. Every shuffle is a permutation, and every
  permutation is a shuffle, so quantifying over \<open>ns\<close> is quantifying over iteration orders.
\<close>

fun shuffle :: "nat list \<Rightarrow> 'a list \<Rightarrow> 'a list" where
  "shuffle ns [] = []"
| "shuffle [] (x # xs) = x # xs"
| "shuffle (n # ns) (x # xs) =
     (let i = n mod length (x # xs)
      in (x # xs) ! i # shuffle ns (take i (x # xs) @ drop (Suc i) (x # xs)))"

lemma mset_pick: "i < length xs \<Longrightarrow> add_mset (xs ! i) (mset (take i xs @ drop (Suc i) xs)) = mset xs"
proof -
  assume "i < length xs"
  then have "xs = take i xs @ xs ! i # drop (Suc i) xs" by (simp add: id_take_nth_drop)
  then have "mset xs = mset (take i xs @ xs ! i # drop (Suc i) xs)" by simp
  then show ?thesis by simp
qed

lemma mset_shuffle [simp]: "mset (shuffle ns xs) = mset xs"
proof (induction ns xs rule: shuffle.induct)
  case (3 n ns x xs)
  let ?l = "x # xs" and ?i = "n mod length (x # xs)"
  have "mset (shuffle (n # ns) ?l) = add_mset (?l ! ?i) (mset (take ?i ?l @ drop (Suc ?i) ?l))"
    using "3.IH" [OF refl] by (simp add: Let_def)
  also have "\<dots> = mset ?l" by (rule mset_pick) simp
  finally show ?case .
qed simp_all

lemma set_shuffle [simp]: "set (shuffle ns xs) = set xs"
  by (metis mset_shuffle set_mset_mset)

lemma length_shuffle [simp]: "length (shuffle ns xs) = length xs"
  by (metis mset_shuffle size_mset)

lemma distinct_shuffle [simp]: "distinct (shuffle ns xs) \<longleftrightarrow> distinct xs"
  by (metis mset_shuffle mset_eq_imp_distinct_iff)

lemma shuffle_eq_Nil [simp]: "shuffle ns xs = [] \<longleftrightarrow> xs = []"
  by (metis length_0_conv length_shuffle)

lemma mset_map_shuffle [simp]: "mset (map f (shuffle ns xs)) = mset (map f xs)"
  by simp

lemma distinct_map_shuffle [simp]: "distinct (map f (shuffle ns xs)) \<longleftrightarrow> distinct (map f xs)"
  by (metis mset_map_shuffle mset_eq_imp_distinct_iff)

lemma shuffle_map: "shuffle ns (map f xs) = map f (shuffle ns xs)"
proof (induction ns xs rule: shuffle.induct)
  case (3 n ns x xs)
  have "n mod Suc (length xs) < length (x # xs)" by simp
  then have "map f (x # xs) ! (n mod Suc (length xs)) = f ((x # xs) ! (n mod Suc (length xs)))"
    by (rule nth_map)
  then show ?case
    using 3 take_map [of "n mod Suc (length xs)" f "x # xs"] by (simp add: Let_def drop_map)
qed simp_all

text \<open>No iteration order is left out.\<close>

lemma shuffle_complete: "mset ys = mset xs \<Longrightarrow> \<exists>ns. shuffle ns xs = ys"
proof (induction ys arbitrary: xs)
  case Nil
  then show ?case by (intro exI [of _ "[]"]) simp
next
  case (Cons y ys)
  then have "y \<in> set xs" by (metis list.set_intros(1) set_mset_mset)
  then obtain i where i: "i < length xs" "xs ! i = y" by (auto simp: in_set_conv_nth)
  let ?r = "take i xs @ drop (Suc i) xs"
  have "add_mset y (mset ?r) = add_mset y (mset ys)"
    using mset_pick [OF i(1)] i(2) Cons.prems by simp
  then have "mset ys = mset ?r" by simp
  then obtain ns where ns: "shuffle ns ?r = ys" using Cons.IH by blast
  obtain z zs where "xs = z # zs" using i(1) by (cases xs) auto
  then have "shuffle (i # ns) xs = y # ys" using i ns by (simp add: Let_def)
  then show ?case by blast
qed

section \<open>Maps\<close>

text \<open>
  A Go map is an association list; the list order carries no meaning, since every loop over it
  goes through \<open>gm_range\<close>.
\<close>

type_synonym ('k, 'v) gomap = "('k \<times> 'v) list"

definition gm_empty :: "('k, 'v) gomap" where
  "gm_empty = []"

definition gm_get :: "('k, 'v) gomap \<Rightarrow> 'k \<Rightarrow> 'v option" where
  "gm_get m = map_of m"

definition gm_has :: "('k, 'v) gomap \<Rightarrow> 'k \<Rightarrow> bool" where
  "gm_has m k = (gm_get m k \<noteq> None)"

definition gm_put :: "'k \<Rightarrow> 'v \<Rightarrow> ('k, 'v) gomap \<Rightarrow> ('k, 'v) gomap" where
  "gm_put k v m = AList.update k v m"

definition gm_del :: "'k \<Rightarrow> ('k, 'v) gomap \<Rightarrow> ('k, 'v) gomap" where
  "gm_del k m = AList.delete k m"

definition gm_range :: "nat list \<Rightarrow> ('k, 'v) gomap \<Rightarrow> ('k \<times> 'v) list" where
  "gm_range ns m = shuffle ns m"

definition gm_wf :: "('k, 'v) gomap \<Rightarrow> bool" where
  "gm_wf m = distinct (map fst m)"

text \<open>
  The interface the builders rely on: a lookup after each operation, the well-formedness that
  every operation keeps, and that a loop over the map visits exactly its bindings.
\<close>

locale go_map =
  fixes empty :: "'m"
    and put :: "'k \<Rightarrow> 'v \<Rightarrow> 'm \<Rightarrow> 'm"
    and del :: "'k \<Rightarrow> 'm \<Rightarrow> 'm"
    and get :: "'m \<Rightarrow> 'k \<Rightarrow> 'v option"
    and range_of :: "nat list \<Rightarrow> 'm \<Rightarrow> ('k \<times> 'v) list"
    and wf :: "'m \<Rightarrow> bool"
  assumes get_empty: "get empty k = None"
    and get_put: "wf m \<Longrightarrow> get (put k v m) k' = (if k' = k then Some v else get m k')"
    and get_del: "wf m \<Longrightarrow> get (del k m) k' = (if k' = k then None else get m k')"
    and wf_empty: "wf empty"
    and wf_put: "wf m \<Longrightarrow> wf (put k v m)"
    and wf_del: "wf m \<Longrightarrow> wf (del k m)"
    and range_get: "wf m \<Longrightarrow> (k, v) \<in> set (range_of ns m) \<longleftrightarrow> get m k = Some v"
    and range_distinct: "wf m \<Longrightarrow> distinct (map fst (range_of ns m))"
begin

text \<open>A loop of unconditional stores: the last store to a key wins.\<close>

lemma wf_put_all: "wf m \<Longrightarrow> wf (fold (\<lambda>(k, v). put k v) ps m)"
  by (induction ps arbitrary: m) (auto simp: wf_put)

lemma get_put_all:
  "wf m \<Longrightarrow> get (fold (\<lambda>(k, v). put k v) ps m) k =
     (case map_of (rev ps) k of Some v \<Rightarrow> Some v | None \<Rightarrow> get m k)"
proof (induction ps arbitrary: m)
  case (Cons p ps)
  then show ?case
    by (cases p) (auto simp: wf_put get_put map_add_def split: option.splits if_splits)
qed simp

text \<open>A loop that stores only under keys not bound yet: the first store to a key wins.\<close>

lemma wf_put_new_all:
  "wf m \<Longrightarrow> wf (fold (\<lambda>(k, v) m. if get m k \<noteq> None then m else put k v m) ps m)"
  by (induction ps arbitrary: m) (auto simp: wf_put)

lemma get_put_new_all:
  "wf m \<Longrightarrow> get (fold (\<lambda>(k, v) m. if get m k \<noteq> None then m else put k v m) ps m) k =
     (case get m k of Some v \<Rightarrow> Some v | None \<Rightarrow> map_of ps k)"
proof (induction ps arbitrary: m)
  case Nil
  then show ?case by (simp split: option.splits)
next
  case (Cons p ps)
  then show ?case
    by (cases p) (auto simp: wf_put get_put split: option.splits if_splits)
qed

text \<open>The values a loop visits do not depend on the iteration order.\<close>

lemma range_vals: "wf m \<Longrightarrow> set (map snd (range_of ns m)) = {v. \<exists>k. get m k = Some v}"
proof -
  assume "wf m"
  then have "v \<in> set (map snd (range_of ns m)) \<longleftrightarrow> (\<exists>k. get m k = Some v)" for v
    by (simp add: image_iff flip: range_get [where ns = ns]) force
  then show ?thesis by blast
qed

end

interpretation gm: go_map gm_empty gm_put gm_del gm_get gm_range gm_wf
proof unfold_locales
  fix m :: "('a, 'b) gomap" and k k' v ns
  show "gm_get gm_empty k = (None :: 'b option)" for k :: 'a
    by (simp add: gm_get_def gm_empty_def)
  show "gm_wf (gm_empty :: ('a, 'b) gomap)"
    by (simp add: gm_wf_def gm_empty_def)
  assume wf: "gm_wf m"
  show "gm_get (gm_put k v m) k' = (if k' = k then Some v else gm_get m k')"
    by (simp add: gm_get_def gm_put_def update_conv')
  show "gm_get (gm_del k m) k' = (if k' = k then None else gm_get m k')"
    by (simp add: gm_get_def gm_del_def delete_conv')
  show "gm_wf (gm_put k v m)"
    using wf by (simp add: gm_wf_def gm_put_def distinct_update)
  show "gm_wf (gm_del k m)"
    using wf by (simp add: gm_wf_def gm_del_def distinct_delete)
  show "(k, v) \<in> set (gm_range ns m) \<longleftrightarrow> gm_get m k = Some v"
    using wf by (simp add: gm_range_def gm_get_def gm_wf_def)
  show "distinct (map fst (gm_range ns m))"
    using wf by (simp add: gm_range_def gm_wf_def)
qed

lemmas gm_simps [simp] = gm.get_empty gm.wf_empty gm.wf_put gm.wf_del gm.get_put gm.get_del

lemma gm_has_empty [simp]: "\<not> gm_has gm_empty k"
  by (simp add: gm_has_def)

lemma gm_has_iff: "gm_has m k \<longleftrightarrow> (\<exists>v. gm_get m k = Some v)"
  by (simp add: gm_has_def)

lemma gm_has_put [simp]: "gm_wf m \<Longrightarrow> gm_has (gm_put k v m) k' \<longleftrightarrow> k' = k \<or> gm_has m k'"
  by (auto simp: gm_has_def)

lemma gm_set_get: "gm_wf m \<Longrightarrow> (k, v) \<in> set m \<longleftrightarrow> gm_get m k = Some v"
  by (simp add: gm_get_def gm_wf_def)

lemma gm_keys: "{k. gm_has m k} = set (map fst m)"
  by (auto simp: gm_has_def gm_get_def map_of_eq_None_iff)

text \<open>The map with a function applied to its values.\<close>

definition map_vals :: "('v \<Rightarrow> 'w) \<Rightarrow> ('k, 'v) gomap \<Rightarrow> ('k, 'w) gomap" where
  "map_vals f m = map (\<lambda>(k, v). (k, f v)) m"

lemma map_vals_get [simp]: "gm_get (map_vals f m) k = map_option f (gm_get m k)"
  by (simp add: map_vals_def gm_get_def map_of_map)

lemma map_vals_has [simp]: "gm_has (map_vals f m) k \<longleftrightarrow> gm_has m k"
  by (simp add: gm_has_def)

lemma map_vals_wf [simp]: "gm_wf (map_vals f m) \<longleftrightarrow> gm_wf m"
  by (simp add: map_vals_def gm_wf_def case_prod_beta comp_def)

lemma map_vals_range: "map snd (gm_range ns (map_vals f m)) = map f (map snd (gm_range ns m))"
  by (simp add: map_vals_def gm_range_def shuffle_map case_prod_beta comp_def)

text \<open>\<open>if _, exists := m[k]; exists { continue }; m[k] = v\<close>.\<close>

definition put_new :: "'k \<Rightarrow> 'v \<Rightarrow> ('k, 'v) gomap \<Rightarrow> ('k, 'v) gomap" where
  "put_new k v = (\<lambda>m. if gm_has m k then m else gm_put k v m)"

lemma fold_concat_map: "fold f (concat (map g xs)) m = fold (\<lambda>x. fold f (g x)) xs m"
  by (induction xs arbitrary: m) auto

lemma put_new_all_wf: "gm_wf m \<Longrightarrow> gm_wf (fold (\<lambda>(k, v). put_new k v) ps m)"
  unfolding put_new_def gm_has_def by (rule gm.wf_put_new_all)

lemma put_new_all_get:
  "gm_wf m \<Longrightarrow> gm_get (fold (\<lambda>(k, v). put_new k v) ps m) k =
     (case gm_get m k of Some v \<Rightarrow> Some v | None \<Rightarrow> map_of ps k)"
  unfolding put_new_def gm_has_def by (rule gm.get_put_new_all)

text \<open>A map built by unconditional stores from the empty map.\<close>

lemma put_all_get:
  "gm_get (fold (\<lambda>(k, v). gm_put k v) ps gm_empty) k = map_of (rev ps) k"
  by (simp add: gm.get_put_all split: option.splits)

lemma put_all_has: "gm_has (fold (\<lambda>(k, v). gm_put k v) ps gm_empty) k \<longleftrightarrow> k \<in> fst ` set ps"
proof -
  have "gm_has (fold (\<lambda>(k, v). gm_put k v) ps gm_empty) k \<longleftrightarrow> map_of (rev ps) k \<noteq> None"
    by (simp add: gm_has_def put_all_get)
  then show ?thesis by (simp add: map_of_eq_None_iff)
qed

lemma put_all_SomeD:
  "gm_get (fold (\<lambda>(k, v). gm_put k v) ps gm_empty) k = Some v \<Longrightarrow> (k, v) \<in> set ps"
  by (auto simp: put_all_get dest: map_of_SomeD)

text \<open>With distinct keys every store survives.\<close>

lemma put_all_distinct:
  "distinct (map fst ps) \<Longrightarrow> gm_get (fold (\<lambda>(k, v). gm_put k v) ps gm_empty) k = Some v \<longleftrightarrow> (k, v) \<in> set ps"
  by (simp add: put_all_get rev_map [symmetric])

text \<open>\<open>go_index f xs\<close>: the set \<open>map[K]struct{}\<close> the code builds for existence checks.\<close>

definition go_index :: "('a \<Rightarrow> 'k) \<Rightarrow> 'a list \<Rightarrow> ('k, unit) gomap" where
  "go_index f xs = fold (\<lambda>x. gm_put (f x) ()) xs gm_empty"

lemma go_index_has_gen:
  "gm_wf m \<Longrightarrow> gm_has (fold (\<lambda>x. gm_put (f x) ()) xs m) k \<longleftrightarrow> k \<in> f ` set xs \<or> gm_has m k"
  by (induction xs arbitrary: m) auto

lemma go_index_has [simp]: "gm_has (go_index f xs) k \<longleftrightarrow> k \<in> f ` set xs"
  by (simp add: go_index_def go_index_has_gen)

section \<open>Loops that act and collect errors\<close>

text \<open>
  \<open>for _, x := range xs { if skip(x) { continue }; if err := act(x); err != nil {
  errs = append(errs, wrap(x, err)) } }\<close> on a backend state and the errors so far.
\<close>

fun go_for :: "('a \<Rightarrow> bool) \<Rightarrow> ('a \<Rightarrow> 's \<Rightarrow> go_error option \<times> 's) \<Rightarrow> ('a \<Rightarrow> go_error \<Rightarrow> go_error)
    \<Rightarrow> 'a list \<Rightarrow> 's \<times> go_error list \<Rightarrow> 's \<times> go_error list" where
  "go_for skip act wrap [] st = st"
| "go_for skip act wrap (x # xs) (s, errs) =
     (if skip x then go_for skip act wrap xs (s, errs)
      else (case act x s of
              (None, s') \<Rightarrow> go_for skip act wrap xs (s', errs)
            | (Some e, s') \<Rightarrow> go_for skip act wrap xs (s', errs @ [wrap x e])))"

lemma go_for_all_skip: "(\<And>x. x \<in> set xs \<Longrightarrow> skip x) \<Longrightarrow> go_for skip act wrap xs st = st"
  by (induction xs; cases st) auto

lemma go_for_filter:
  "go_for skip act wrap xs st = go_for (\<lambda>_. False) act wrap (filter (\<lambda>x. \<not> skip x) xs) st"
proof (induction xs arbitrary: st)
  case (Cons x xs)
  then show ?case by (cases st) (auto split: option.splits prod.splits)
qed simp

lemma go_for_map:
  "go_for skip act wrap (map f xs) st =
     go_for (\<lambda>x. skip (f x)) (\<lambda>x. act (f x)) (\<lambda>x. wrap (f x)) xs st"
proof (induction xs arbitrary: st)
  case (Cons x xs)
  then show ?case by (cases st) (auto split: option.splits prod.splits)
qed simp

lemma go_for_cong:
  assumes "\<And>x. x \<in> set xs \<Longrightarrow> skip x = skip' x" "\<And>x. x \<in> set xs \<Longrightarrow> act x = act' x"
    "\<And>x. x \<in> set xs \<Longrightarrow> wrap x = wrap' x"
  shows "go_for skip act wrap xs st = go_for skip' act' wrap' xs st"
  using assms
proof (induction xs arbitrary: st)
  case (Cons x xs)
  then show ?case by (cases st) (auto split: option.splits prod.splits)
qed simp

text \<open>Errors are only appended.\<close>

lemma go_for_errs: "\<exists>new. snd (go_for skip act wrap xs st) = snd st @ new"
proof (induction xs arbitrary: st)
  case (Cons x xs)
  obtain s errs where st: "st = (s, errs)" by force
  obtain r s' where a: "act x s = (r, s')" by force
  have "\<exists>new. snd (go_for skip act wrap xs (s', errs @ [wrap x e])) = errs @ new" for e
    using Cons.IH [of "(s', errs @ [wrap x e])"] by auto
  then show ?case
    using Cons.IH [of "(s, errs)"] Cons.IH [of "(s', errs)"] by (cases r) (auto simp: st a)
qed simp

lemma go_for_errs_length: "length (snd st) \<le> length (snd (go_for skip act wrap xs st))"
  using go_for_errs [of skip act wrap xs st] by auto

lemma go_for_no_new_errs:
  "go_for skip act wrap xs (s, es) = (s', es') \<Longrightarrow> es' = [] \<Longrightarrow> es = []"
  using go_for_errs [of skip act wrap xs "(s, es)"] by auto

text \<open>A loop that reported nothing: its first action succeeded, and the rest reported nothing.\<close>

lemma go_for_step_ok:
  assumes "snd (go_for skip act wrap (x # xs) (s, es)) = es" "\<not> skip x"
  obtains s' where "act x s = (None, s')"
    "go_for skip act wrap (x # xs) (s, es) = go_for skip act wrap xs (s', es)"
    "snd (go_for skip act wrap xs (s', es)) = es"
proof -
  obtain r s' where a: "act x s = (r, s')" by force
  have "r = None"
  proof (rule ccontr)
    assume "r \<noteq> None"
    then obtain e where "r = Some e" by auto
    then have "snd (go_for skip act wrap xs (s', es @ [wrap x e])) = es"
      using assms by (simp add: a)
    then show False using go_for_errs_length [of "(s', es @ [wrap x e])" skip act wrap xs] by simp
  qed
  then show thesis using assms that [of s'] by (simp add: a)
qed

text \<open>What no action of the loop changes, the loop does not change.\<close>

lemma go_for_pres:
  assumes "\<And>x s. x \<in> set xs \<Longrightarrow> \<not> skip x \<Longrightarrow> P (snd (act x s)) = P s"
  shows "P (fst (go_for skip act wrap xs st)) = P (fst st)"
  using assms
proof (induction xs arbitrary: st)
  case (Cons x xs)
  obtain s errs where st: "st = (s, errs)" by force
  obtain r s' where a: "act x s = (r, s')" by force
  have p: "\<not> skip x \<Longrightarrow> P s' = P s" using Cons.prems [of x s] a by simp
  have IH: "P (fst (go_for skip act wrap xs st')) = P (fst st')" for st'
    by (rule Cons.IH) (use Cons.prems in auto)
  show ?case using p IH by (cases r) (auto simp: st a)
qed simp

lemma go_for_frame:
  "go_for skip act wrap xs (s, es) = (s', es') \<Longrightarrow> (\<And>x s. P (snd (act x s)) = P s) \<Longrightarrow> P s' = P s"
  using go_for_pres [of xs skip P act wrap "(s, es)"] by simp

text \<open>An action that always succeeds collects no error.\<close>

lemma go_for_total:
  assumes "\<And>x s. x \<in> set xs \<Longrightarrow> \<not> skip x \<Longrightarrow> fst (act x s) = None"
  shows "snd (go_for skip act wrap xs st) = snd st"
  using assms
proof (induction xs arbitrary: st)
  case (Cons x xs)
  obtain s errs where st: "st = (s, errs)" by force
  have IH: "snd (go_for skip act wrap xs st') = snd st'" for st'
    by (rule Cons.IH) (use Cons.prems in auto)
  obtain r s' where a: "act x s = (r, s')" by force
  show ?case using Cons.prems [of x s] IH by (cases "skip x"; cases r) (auto simp: st a)
qed simp

lemma go_for_total_inv:
  assumes "I (fst st)"
    and "\<And>x s. I s \<Longrightarrow> x \<in> set xs \<Longrightarrow> \<not> skip x \<Longrightarrow> fst (act x s) = None \<and> I (snd (act x s))"
  shows "snd (go_for skip act wrap xs st) = snd st"
  using assms
proof (induction xs arbitrary: st)
  case (Cons x xs)
  obtain s errs where st: "st = (s, errs)" by force
  obtain r s' where a: "act x s = (r, s')" by force
  have IH: "I (fst st') \<Longrightarrow> snd (go_for skip act wrap xs st') = snd st'" for st'
    by (rule Cons.IH) (use Cons.prems in auto)
  show ?case using Cons.prems(1) Cons.prems(2) [of s x] IH by (cases "skip x"; cases r) (auto simp: st a)
qed simp

text \<open>An action that always fails reports every element it is run on, in order.\<close>

lemma go_for_all_fail:
  assumes "\<And>x s. x \<in> set xs \<Longrightarrow> \<not> skip x \<Longrightarrow> act x s = (Some e, s)"
  shows "go_for skip act wrap xs (s, es) =
    (s, es @ map (\<lambda>x. wrap x e) (filter (\<lambda>x. \<not> skip x) xs))"
  using assms
proof (induction xs arbitrary: es)
  case (Cons x xs)
  have IH: "go_for skip act wrap xs (s, es') = (s, es' @ map (\<lambda>x. wrap x e) (filter (\<lambda>x. \<not> skip x) xs))" for es'
    by (rule Cons.IH) (use Cons.prems in auto)
  show ?case using Cons.prems [of x s] IH by auto
qed simp

end
