(* ===== verification/Api_Types.thy ===== *)
theory Api_Types
  imports Prelude
begin

text \<open>
  The \<open>NetworkOverlay\<close> resource (\<open>api/v1alpha1/networkoverlay_types.go\<close>), field by field.
  Two slices of the status are compared by \<open>reflect.DeepEqual\<close>, which tells a nil slice from an
  empty one, so they are optional lists (\<open>None\<close> is nil); the other slices are only iterated
  over and are lists. Of the object metadata the model keeps the name, the finalizers and
  whether a deletion timestamp is set. On these values the generated deep copies are the identity; theory
  \<open>Deep_Copy\<close> shows it for values in memory.
\<close>

record peer =
  peer_Name :: string
  peer_PublicKey :: string
  peer_Endpoint :: string
  peer_AllowedIPs :: "string list"
  peer_ASN :: u32

record edge =
  edge_PodNamespace :: string
  edge_PodLabelsSelector :: string
  edge_VirtualIP :: string

record gateway =
  gw_NodeName :: string
  gw_NodeIP :: string
  gw_PublicIP :: string
  gw_IsSecondary :: bool

record edge_status =
  es_VirtualIP :: string
  es_PodNamespace :: string
  es_PodName :: string
  es_PodIP :: string
  es_NodeName :: string
  es_NodeIP :: string
  es_Ready :: bool

record overlay_spec =
  spec_VirtualCIDR :: string
  spec_Peers :: "peer list"
  spec_Edges :: "edge list"

record secret_ref =
  ref_Name :: string
  ref_Namespace :: string

record overlay_status =
  st_Community :: string
  st_PublicKey :: string
  st_WGSecretRef :: "secret_ref option"
  st_Gateways :: "gateway list option"
  st_Edges :: "edge_status list option"

record overlay =
  ov_Name :: string
  ov_Finalizers :: "string list"
  ov_Deleting :: bool
  ov_Spec :: overlay_spec
  ov_Status :: overlay_status

text \<open>\<open>for ... range slice\<close>: a nil slice has no elements.\<close>

definition elems :: "'a list option \<Rightarrow> 'a list" where
  "elems sl = (case sl of None \<Rightarrow> [] | Some xs \<Rightarrow> xs)"

lemma elems_simps [simp]: "elems None = []" "elems (Some xs) = xs"
  by (simp_all add: elems_def)

abbreviation community :: "overlay \<Rightarrow> string" where
  "community ov \<equiv> st_Community (ov_Status ov)"

abbreviation edges_of :: "overlay \<Rightarrow> edge_status list" where
  "edges_of ov \<equiv> elems (st_Edges (ov_Status ov))"

abbreviation gateways_of :: "overlay \<Rightarrow> gateway list" where
  "gateways_of ov \<equiv> elems (st_Gateways (ov_Status ov))"

abbreviation peers_of :: "overlay \<Rightarrow> peer list" where
  "peers_of ov \<equiv> spec_Peers (ov_Spec ov)"

end
