(* ===== verification/Deep_Copy.thy ===== *)
theory Deep_Copy
  imports Api_Types "HOL-Library.Sublist"
begin

text \<open>
  The generated deep copies (\<open>api/v1alpha1/zz_generated.deepcopy.go\<close>) on an explicit store. The
  controller takes a deep copy of an overlay as the base of a patch and then changes the overlay;
  on values a copy is the identity, so what has to be shown is that the copy shares no memory
  with the original. Slices and pointers are addresses here: of arrays, one arena per element
  type, and of secret references. \<open>ObjectMeta.DeepCopyInto\<close> is code of another project and an
  argument, with its contract.
\<close>

section \<open>The store\<close>

type_synonym 'a arena = "'a list list"
type_synonym slice = "nat option"

record cpeer =
  cp_Name :: string
  cp_PublicKey :: string
  cp_Endpoint :: string
  cp_AllowedIPs :: slice
  cp_ASN :: u32

record cspec =
  cs_VirtualCIDR :: string
  cs_Peers :: slice
  cs_Edges :: slice

record cstatus =
  cst_Community :: string
  cst_PublicKey :: string
  cst_WGSecretRef :: "nat option"
  cst_Gateways :: slice
  cst_Edges :: slice

record cmeta =
  cm_Name :: string
  cm_Finalizers :: slice
  cm_Deleting :: bool

record coverlay =
  co_Meta :: cmeta
  co_Spec :: cspec
  co_Status :: cstatus

record clist =
  cl_Items :: slice

record heap =
  h_strings :: "string arena"
  h_peers :: "cpeer arena"
  h_edges :: "edge arena"
  h_gateways :: "gateway arena"
  h_statuses :: "edge_status arena"
  h_refs :: "secret_ref list"
  h_items :: "coverlay arena"

text \<open>Zero values, with which \<open>make\<close> and \<open>new\<close> fill memory.\<close>

definition zero_edge :: edge where
  "zero_edge = \<lparr>edge_PodNamespace = [], edge_PodLabelsSelector = [], edge_VirtualIP = []\<rparr>"

definition zero_gateway :: gateway where
  "zero_gateway = \<lparr>gw_NodeName = [], gw_NodeIP = [], gw_PublicIP = [], gw_IsSecondary = False\<rparr>"

definition zero_edge_status :: edge_status where
  "zero_edge_status = \<lparr>es_VirtualIP = [], es_PodNamespace = [], es_PodName = [], es_PodIP = [], es_NodeName = [],
     es_NodeIP = [], es_Ready = False\<rparr>"

definition zero_ref :: secret_ref where
  "zero_ref = \<lparr>ref_Name = [], ref_Namespace = []\<rparr>"

definition zero_peer :: cpeer where
  "zero_peer = \<lparr>cp_Name = [], cp_PublicKey = [], cp_Endpoint = [], cp_AllowedIPs = None, cp_ASN = 0\<rparr>"

definition zero_overlay :: coverlay where
  "zero_overlay = \<lparr>co_Meta = \<lparr>cm_Name = [], cm_Finalizers = None, cm_Deleting = False\<rparr>,
     co_Spec = \<lparr>cs_VirtualCIDR = [], cs_Peers = None, cs_Edges = None\<rparr>,
     co_Status = \<lparr>cst_Community = [], cst_PublicKey = [], cst_WGSecretRef = None, cst_Gateways = None, cst_Edges = None\<rparr>\<rparr>"

text \<open>\<open>make([]T, n)\<close> and \<open>copy(dst, src)\<close>.\<close>

definition make :: "'a \<Rightarrow> nat \<Rightarrow> 'a arena \<Rightarrow> nat \<times> 'a arena" where
  "make z n m = (length m, m @ [replicate n z])"

definition copy :: "nat \<Rightarrow> nat \<Rightarrow> 'a arena \<Rightarrow> 'a arena" where
  "copy dst src m = m[dst := take (length (m ! dst)) (m ! src) @ drop (length (m ! src)) (m ! dst)]"

text \<open>\<open>if in != nil { *out = make([]T, len(*in)); copy(*out, *in) }\<close>.\<close>

definition copy_slice :: "'a \<Rightarrow> slice \<Rightarrow> 'a arena \<Rightarrow> slice \<times> 'a arena" where
  "copy_slice z s m =
     (case s of
        None \<Rightarrow> (None, m)
      | Some a \<Rightarrow> (case make z (length (m ! a)) m of (b, m') \<Rightarrow> (Some b, copy b a m')))"

text \<open>
  \<open>if in != nil { *out = make([]T, len(*in)); for i := range *in { (*in)[i].DeepCopyInto(&(*out)[i]) } }\<close>,
  for an arena of the store with its update and the element's \<open>DeepCopyInto\<close>.
\<close>

definition copy_each :: "(heap \<Rightarrow> 'x arena) \<Rightarrow> ('x arena \<Rightarrow> heap \<Rightarrow> heap) \<Rightarrow> 'x \<Rightarrow> ('x \<Rightarrow> heap \<Rightarrow> 'x \<times> heap)
    \<Rightarrow> slice \<Rightarrow> heap \<Rightarrow> slice \<times> heap" where
  "copy_each arena upd z into s h =
     (case s of
        None \<Rightarrow> (None, h)
      | Some a \<Rightarrow>
          (case make z (length (arena h ! a)) (arena h) of (b, m) \<Rightarrow>
             (Some b, fold (\<lambda>i h. case into (arena h ! a ! i) h of
                (x, h') \<Rightarrow> upd ((arena h')[b := (arena h' ! b)[i := x]]) h') [0..<length (arena h ! a)] (upd m h))))"

section \<open>The copies\<close>

definition Edge_DeepCopyInto :: "edge \<Rightarrow> edge" where
  "Edge_DeepCopyInto e = e"

definition Edge_DeepCopy :: "edge option \<Rightarrow> edge option" where
  "Edge_DeepCopy p = (case p of None \<Rightarrow> None | Some e \<Rightarrow> Some (Edge_DeepCopyInto e))"

definition EdgeStatus_DeepCopyInto :: "edge_status \<Rightarrow> edge_status" where
  "EdgeStatus_DeepCopyInto e = e"

definition EdgeStatus_DeepCopy :: "edge_status option \<Rightarrow> edge_status option" where
  "EdgeStatus_DeepCopy p = (case p of None \<Rightarrow> None | Some e \<Rightarrow> Some (EdgeStatus_DeepCopyInto e))"

definition Gateway_DeepCopyInto :: "gateway \<Rightarrow> gateway" where
  "Gateway_DeepCopyInto g = g"

definition Gateway_DeepCopy :: "gateway option \<Rightarrow> gateway option" where
  "Gateway_DeepCopy p = (case p of None \<Rightarrow> None | Some g \<Rightarrow> Some (Gateway_DeepCopyInto g))"

definition Peer_DeepCopyInto :: "cpeer \<Rightarrow> heap \<Rightarrow> cpeer \<times> heap" where
  "Peer_DeepCopyInto p h =
     (case copy_slice [] (cp_AllowedIPs p) (h_strings h) of
        (s, m) \<Rightarrow> (p\<lparr>cp_AllowedIPs := s\<rparr>, h\<lparr>h_strings := m\<rparr>))"

text \<open>\<open>if in == nil { return nil }; out := new(T); in.DeepCopyInto(out); return out\<close>.\<close>

definition deep_copy :: "('x \<Rightarrow> heap \<Rightarrow> 'x \<times> heap) \<Rightarrow> 'x option \<Rightarrow> heap \<Rightarrow> 'x option \<times> heap" where
  "deep_copy into p h = (case p of None \<Rightarrow> (None, h) | Some x \<Rightarrow> (case into x h of (y, h') \<Rightarrow> (Some y, h')))"

definition Peer_DeepCopy :: "cpeer option \<Rightarrow> heap \<Rightarrow> cpeer option \<times> heap" where
  "Peer_DeepCopy = deep_copy Peer_DeepCopyInto"

definition set_peers :: "cpeer arena \<Rightarrow> heap \<Rightarrow> heap" where
  "set_peers m h = h\<lparr>h_peers := m\<rparr>"

definition set_items :: "coverlay arena \<Rightarrow> heap \<Rightarrow> heap" where
  "set_items m h = h\<lparr>h_items := m\<rparr>"

definition Spec_DeepCopyInto :: "cspec \<Rightarrow> heap \<Rightarrow> cspec \<times> heap" where
  "Spec_DeepCopyInto sp h =
     (case copy_each h_peers set_peers zero_peer Peer_DeepCopyInto (cs_Peers sp) h of (ps, h1) \<Rightarrow>
      case copy_slice zero_edge (cs_Edges sp) (h_edges h1) of (es, m) \<Rightarrow>
        (sp\<lparr>cs_Peers := ps, cs_Edges := es\<rparr>, h1\<lparr>h_edges := m\<rparr>))"

definition Spec_DeepCopy :: "cspec option \<Rightarrow> heap \<Rightarrow> cspec option \<times> heap" where
  "Spec_DeepCopy = deep_copy Spec_DeepCopyInto"

text \<open>\<open>if in.WGSecretRef != nil { *out = new(v1.SecretReference); **out = **in }\<close>.\<close>

definition copy_ref :: "nat option \<Rightarrow> secret_ref list \<Rightarrow> nat option \<times> secret_ref list" where
  "copy_ref r m = (case r of None \<Rightarrow> (None, m) | Some a \<Rightarrow> (let m' = m @ [zero_ref] in (Some (length m), m'[length m := m' ! a])))"

definition Status_DeepCopyInto :: "cstatus \<Rightarrow> heap \<Rightarrow> cstatus \<times> heap" where
  "Status_DeepCopyInto st h =
     (case copy_ref (cst_WGSecretRef st) (h_refs h) of (r, m1) \<Rightarrow>
      case copy_slice zero_gateway (cst_Gateways st) (h_gateways h) of (gs, m2) \<Rightarrow>
      case copy_slice zero_edge_status (cst_Edges st) (h_statuses h) of (es, m3) \<Rightarrow>
        (st\<lparr>cst_WGSecretRef := r, cst_Gateways := gs, cst_Edges := es\<rparr>,
         h\<lparr>h_refs := m1, h_gateways := m2, h_statuses := m3\<rparr>))"

definition Status_DeepCopy :: "cstatus option \<Rightarrow> heap \<Rightarrow> cstatus option \<times> heap" where
  "Status_DeepCopy = deep_copy Status_DeepCopyInto"

definition Overlay_DeepCopyInto :: "(cmeta \<Rightarrow> heap \<Rightarrow> cmeta \<times> heap) \<Rightarrow> coverlay \<Rightarrow> heap \<Rightarrow> coverlay \<times> heap" where
  "Overlay_DeepCopyInto metaCopy ov h =
     (case metaCopy (co_Meta ov) h of (me, h1) \<Rightarrow>
      case Spec_DeepCopyInto (co_Spec ov) h1 of (sp, h2) \<Rightarrow>
      case Status_DeepCopyInto (co_Status ov) h2 of (st, h3) \<Rightarrow>
        (ov\<lparr>co_Meta := me, co_Spec := sp, co_Status := st\<rparr>, h3))"

definition Overlay_DeepCopy :: "(cmeta \<Rightarrow> heap \<Rightarrow> cmeta \<times> heap) \<Rightarrow> coverlay option \<Rightarrow> heap \<Rightarrow> coverlay option \<times> heap" where
  "Overlay_DeepCopy metaCopy = deep_copy (Overlay_DeepCopyInto metaCopy)"

definition Overlay_DeepCopyObject :: "(cmeta \<Rightarrow> heap \<Rightarrow> cmeta \<times> heap) \<Rightarrow> coverlay option \<Rightarrow> heap \<Rightarrow> coverlay option \<times> heap" where
  "Overlay_DeepCopyObject metaCopy p h = (case Overlay_DeepCopy metaCopy p h of (Some c, h') \<Rightarrow> (Some c, h') | (None, h') \<Rightarrow> (None, h'))"

definition List_DeepCopyInto :: "(cmeta \<Rightarrow> heap \<Rightarrow> cmeta \<times> heap) \<Rightarrow> clist \<Rightarrow> heap \<Rightarrow> clist \<times> heap" where
  "List_DeepCopyInto metaCopy l h =
     (case copy_each h_items set_items zero_overlay (Overlay_DeepCopyInto metaCopy) (cl_Items l) h of
        (s, h') \<Rightarrow> (l\<lparr>cl_Items := s\<rparr>, h'))"

definition List_DeepCopy :: "(cmeta \<Rightarrow> heap \<Rightarrow> cmeta \<times> heap) \<Rightarrow> clist option \<Rightarrow> heap \<Rightarrow> clist option \<times> heap" where
  "List_DeepCopy metaCopy = deep_copy (List_DeepCopyInto metaCopy)"

definition List_DeepCopyObject :: "(cmeta \<Rightarrow> heap \<Rightarrow> cmeta \<times> heap) \<Rightarrow> clist option \<Rightarrow> heap \<Rightarrow> clist option \<times> heap" where
  "List_DeepCopyObject metaCopy p h = (case List_DeepCopy metaCopy p h of (Some c, h') \<Rightarrow> (Some c, h') | (None, h') \<Rightarrow> (None, h'))"

section \<open>Values, well-formed references, fresh references\<close>

definition deref :: "'a arena \<Rightarrow> slice \<Rightarrow> 'a list option" where
  "deref m s = map_option ((!) m) s"

definition abs_peer :: "heap \<Rightarrow> cpeer \<Rightarrow> peer" where
  "abs_peer h p = \<lparr>peer_Name = cp_Name p, peer_PublicKey = cp_PublicKey p, peer_Endpoint = cp_Endpoint p,
     peer_AllowedIPs = elems (deref (h_strings h) (cp_AllowedIPs p)), peer_ASN = cp_ASN p\<rparr>"

definition abs_spec :: "heap \<Rightarrow> cspec \<Rightarrow> overlay_spec" where
  "abs_spec h sp = \<lparr>spec_VirtualCIDR = cs_VirtualCIDR sp,
     spec_Peers = map (abs_peer h) (elems (deref (h_peers h) (cs_Peers sp))),
     spec_Edges = elems (deref (h_edges h) (cs_Edges sp))\<rparr>"

definition abs_status :: "heap \<Rightarrow> cstatus \<Rightarrow> overlay_status" where
  "abs_status h st = \<lparr>st_Community = cst_Community st, st_PublicKey = cst_PublicKey st,
     st_WGSecretRef = map_option ((!) (h_refs h)) (cst_WGSecretRef st),
     st_Gateways = deref (h_gateways h) (cst_Gateways st), st_Edges = deref (h_statuses h) (cst_Edges st)\<rparr>"

definition abs_overlay :: "heap \<Rightarrow> coverlay \<Rightarrow> overlay" where
  "abs_overlay h ov = \<lparr>ov_Name = cm_Name (co_Meta ov), ov_Finalizers = elems (deref (h_strings h) (cm_Finalizers (co_Meta ov))),
     ov_Deleting = cm_Deleting (co_Meta ov), ov_Spec = abs_spec h (co_Spec ov), ov_Status = abs_status h (co_Status ov)\<rparr>"

definition abs_list :: "heap \<Rightarrow> clist \<Rightarrow> overlay list" where
  "abs_list h l = map (abs_overlay h) (elems (deref (h_items h) (cl_Items l)))"

text \<open>
  Memory allocated between \<open>m0\<close> and \<open>m\<close> is the same in \<open>m'\<close>; what was there before may have changed.
\<close>

definition same_new :: "'a list \<Rightarrow> 'a list \<Rightarrow> 'a list \<Rightarrow> bool" where
  "same_new m0 m m' \<longleftrightarrow> (\<forall>i. length m0 \<le> i \<and> i < length m \<longrightarrow> i < length m' \<and> m' ! i = m ! i)"

lemma same_new_prefix: "prefix m m' \<Longrightarrow> same_new m0 m m'"
  by (auto simp: same_new_def prefix_def nth_append)

text \<open>
  \<open>s'\<close> is a copy of \<open>s\<close>: nil like it, or the address of an array that was not there in \<open>m0\<close>, with
  elements related to those of the original.
\<close>

definition slice_rel :: "('x \<Rightarrow> 'y \<Rightarrow> bool) \<Rightarrow> 'x arena \<Rightarrow> 'y arena \<Rightarrow> slice \<Rightarrow> slice \<Rightarrow> bool" where
  "slice_rel R m0 m = rel_option (\<lambda>a b. length m0 \<le> b \<and> b < length m \<and> list_all2 R (m0 ! a) (m ! b))"

definition ok_slice :: "'x arena \<Rightarrow> slice \<Rightarrow> bool" where
  "ok_slice m s \<longleftrightarrow> pred_option (\<lambda>a. a < length m) s"

lemma slice_rel_stable:
  assumes "slice_rel R m0 m s s'" "same_new m0 m m'" "\<And>x y. R x y \<Longrightarrow> Q x y"
  shows "slice_rel Q m0 m' s s'"
  using assms(1) unfolding slice_rel_def
  by (rule option.rel_mono_strong) (use assms(2,3) in \<open>auto simp: same_new_def elim: list_all2_mono\<close>)

lemma slice_rel_rebase:
  assumes "slice_rel R m m' s s'" "prefix m0 m" "ok_slice m0 s"
    and "\<And>x y. x \<in> set (elems (deref m0 s)) \<Longrightarrow> R x y \<Longrightarrow> Q x y"
  shows "slice_rel Q m0 m' s s'"
  using assms(1) unfolding slice_rel_def
proof (rule option.rel_mono_strong)
  fix a b assume ab: "a \<in> set_option s" "length m \<le> b \<and> b < length m' \<and> list_all2 R (m ! a) (m' ! b)"
  have a: "a < length m0" using assms(3) ab(1) by (simp add: ok_slice_def option.pred_set)
  obtain zs where zs: "m = m0 @ zs" using assms(2) by (auto simp: prefix_def)
  have "set (m0 ! a) = set (elems (deref m0 s))" using ab(1) by (simp add: deref_def)
  then have "list_all2 Q (m0 ! a) (m' ! b)"
    using ab(2) a assms(4) unfolding zs by (auto simp: nth_append elim!: list.rel_mono_strong)
  then show "length m0 \<le> b \<and> b < length m' \<and> list_all2 Q (m0 ! a) (m' ! b)" using ab(2) zs by simp
qed

lemma slice_rel_deref: "slice_rel (=) m0 m s s' \<Longrightarrow> deref m s' = deref m0 s"
  by (cases s; cases s') (auto simp: slice_rel_def deref_def list.rel_eq)

lemma slice_rel_elems: "slice_rel R m0 m s s' \<Longrightarrow> list_all2 R (elems (deref m0 s)) (elems (deref m s'))"
  by (cases s; cases s') (auto simp: slice_rel_def deref_def)

lemma copy_slice_spec:
  assumes "copy_slice z s m = (s', m')" "ok_slice m s"
  shows "prefix m m' \<and> slice_rel (=) m m' s s'"
  using assms by (cases s) (auto simp: copy_slice_def make_def copy_def ok_slice_def slice_rel_def nth_append list.rel_eq)

section \<open>Copying the elements of a slice\<close>

text \<open>
  What the loop over the elements needs of their copy: \<open>rest\<close> is growth of the store apart from the
  arena of the slice itself, \<open>copied h0 h x y\<close> says that \<open>y\<close> is in \<open>h\<close> a copy of what \<open>x\<close> was in \<open>h0\<close>.
\<close>

locale element_copy =
  fixes arena :: "heap \<Rightarrow> 'x arena" and upd :: "'x arena \<Rightarrow> heap \<Rightarrow> heap" and into :: "'x \<Rightarrow> heap \<Rightarrow> 'x \<times> heap"
    and valid :: "heap \<Rightarrow> 'x \<Rightarrow> bool" and copied :: "heap \<Rightarrow> heap \<Rightarrow> 'x \<Rightarrow> 'x \<Rightarrow> bool" and rest :: "heap \<Rightarrow> heap \<Rightarrow> bool"
  assumes arena_upd: "arena (upd m h) = m"
    and rest_refl: "rest h h" and rest_trans: "rest h1 h2 \<Longrightarrow> rest h2 h3 \<Longrightarrow> rest h1 h3"
    and rest_upd: "rest h1 (upd m h2) \<longleftrightarrow> rest h1 h2"
    and into_spec: "valid h x \<Longrightarrow> into x h = (y, h') \<Longrightarrow> rest h h' \<and> arena h' = arena h \<and> copied h h' x y"
    and valid_mono: "rest h0 h \<Longrightarrow> valid h0 x \<Longrightarrow> valid h x"
    and copied_stable: "copied h0 h x y \<Longrightarrow> rest h h' \<Longrightarrow> copied h0 h' x y"
    and copied_rebase: "copied h h' x y \<Longrightarrow> rest h0 h \<Longrightarrow> valid h0 x \<Longrightarrow> copied h0 h' x y"
begin

lemma loop:
  fixes z :: 'x
  assumes a: "a < length (arena h0)" "\<forall>x \<in> set (arena h0 ! a). valid h0 x" and k: "k \<le> length (arena h0 ! a)"
  defines "H \<equiv> fold (\<lambda>i h. case into (arena h ! a ! i) h of
      (x, h') \<Rightarrow> upd ((arena h')[length (arena h0) := (arena h' ! length (arena h0))[i := x]]) h') [0..<k]
      (upd (arena h0 @ [replicate (length (arena h0 ! a)) z]) h0)"
  shows "\<exists>ys. rest h0 H \<and> arena H = arena h0 @ [ys] \<and> length ys = length (arena h0 ! a) \<and>
    (\<forall>i<k. copied h0 H (arena h0 ! a ! i) (ys ! i))"
  using k unfolding H_def
proof (induction k)
  case 0
  show ?case by (simp add: arena_upd rest_upd rest_refl)
next
  case (Suc k)
  let ?step = "\<lambda>i h. case into (arena h ! a ! i) h of
      (x, h') \<Rightarrow> upd ((arena h')[length (arena h0) := (arena h' ! length (arena h0))[i := x]]) h'"
  let ?h = "fold ?step [0..<k] (upd (arena h0 @ [replicate (length (arena h0 ! a)) z]) h0)"
  obtain ys where ys: "rest h0 ?h" "arena ?h = arena h0 @ [ys]" "length ys = length (arena h0 ! a)"
    "\<forall>i<k. copied h0 ?h (arena h0 ! a ! i) (ys ! i)" using Suc by auto
  let ?x = "arena h0 ! a ! k"
  obtain y h' where y: "into ?x ?h = (y, h')" by (cases "into ?x ?h")
  have v: "valid h0 ?x" using a(2) Suc.prems by simp
  have sp: "rest ?h h'" "arena h' = arena ?h" "copied ?h h' ?x y" using into_spec [OF valid_mono [OF ys(1) v] y] by simp_all
  let ?h1 = "upd (arena h0 @ [ys[k := y]]) h'"
  have st: "fold ?step [0..<Suc k] (upd (arena h0 @ [replicate (length (arena h0 ! a)) z]) h0) = ?h1"
    using y sp(2) ys(2) a(1) by (simp add: nth_append)
  have r: "rest ?h ?h1" "rest h' ?h1" using sp(1) by (simp_all add: rest_upd rest_refl)
  have "copied h0 ?h1 (arena h0 ! a ! i) (ys[k := y] ! i)" if "i < Suc k" for i
  proof (cases "i = k")
    case True
    have "copied h0 ?h1 ?x y" by (rule copied_stable [OF copied_rebase [OF sp(3) ys(1) v] r(2)])
    then show ?thesis using True Suc.prems ys(3) by simp
  next
    case False
    then show ?thesis using that copied_stable [OF ys(4) [rule_format] r(1)] by simp
  qed
  then show ?case unfolding st using ys(3) rest_trans [OF ys(1) r(1)] by (simp add: arena_upd)
qed

lemma copy_each_spec:
  assumes "copy_each arena upd z into s h = (s', h')" "ok_slice (arena h) s" "\<forall>x \<in> set (elems (deref (arena h) s)). valid h x"
  shows "rest h h' \<and> prefix (arena h) (arena h') \<and> slice_rel (copied h h') (arena h) (arena h') s s'"
proof (cases s)
  case None
  then show ?thesis using assms(1) by (auto simp: copy_each_def slice_rel_def rest_refl)
next
  case (Some a)
  have a: "a < length (arena h)" "\<forall>x \<in> set (arena h ! a). valid h x"
    using assms(2,3) Some by (simp_all add: ok_slice_def deref_def)
  from loop [OF a order_refl] assms(1) Some obtain ys where
    "s' = Some (length (arena h))" "rest h h'" "arena h' = arena h @ [ys]" "length ys = length (arena h ! a)"
    "\<forall>i<length (arena h ! a). copied h h' (arena h ! a ! i) (ys ! i)"
    by (auto simp: copy_each_def make_def)
  then show ?thesis using Some a(1) by (auto simp: slice_rel_def list_all2_conv_all_nth)
qed

end

section \<open>Peers, specification and status\<close>

definition valid_peer :: "heap \<Rightarrow> cpeer \<Rightarrow> bool" where
  "valid_peer h p \<longleftrightarrow> ok_slice (h_strings h) (cp_AllowedIPs p)"

definition copied_peer :: "heap \<Rightarrow> heap \<Rightarrow> cpeer \<Rightarrow> cpeer \<Rightarrow> bool" where
  "copied_peer h0 h p q \<longleftrightarrow> q = p\<lparr>cp_AllowedIPs := cp_AllowedIPs q\<rparr> \<and>
     slice_rel (=) (h_strings h0) (h_strings h) (cp_AllowedIPs p) (cp_AllowedIPs q)"

definition rest_peers :: "heap \<Rightarrow> heap \<Rightarrow> bool" where
  "rest_peers h h' \<longleftrightarrow> prefix (h_strings h) (h_strings h') \<and> h_edges h' = h_edges h \<and> h_gateways h' = h_gateways h \<and>
     h_statuses h' = h_statuses h \<and> h_refs h' = h_refs h \<and> h_items h' = h_items h"

lemma ok_slice_prefix: "ok_slice m s \<Longrightarrow> prefix m m' \<Longrightarrow> ok_slice m' s"
  by (cases s) (auto simp: ok_slice_def prefix_def)

lemma deref_prefix: "ok_slice m s \<Longrightarrow> prefix m m' \<Longrightarrow> deref m' s = deref m s"
  by (cases s) (auto simp: ok_slice_def deref_def prefix_def nth_append)

lemma copied_peer_stable: "copied_peer h0 h p q \<Longrightarrow> same_new (h_strings h0) (h_strings h) (h_strings h') \<Longrightarrow> copied_peer h0 h' p q"
  by (auto simp: copied_peer_def elim: slice_rel_stable)

lemma copied_peer_rebase:
  "copied_peer h h' p q \<Longrightarrow> prefix (h_strings h0) (h_strings h) \<Longrightarrow> valid_peer h0 p \<Longrightarrow> copied_peer h0 h' p q"
  by (auto simp: copied_peer_def valid_peer_def elim: slice_rel_rebase)

interpretation pc: element_copy h_peers set_peers Peer_DeepCopyInto valid_peer copied_peer rest_peers
proof (unfold_locales, goal_cases)
  case (5 h x y h')
  then show ?case
    using copy_slice_spec [of "[]" "cp_AllowedIPs x" "h_strings h"]
    by (auto simp: Peer_DeepCopyInto_def rest_peers_def copied_peer_def valid_peer_def split: prod.splits)
next
  case (6 h0 h x)
  then show ?case by (auto simp: rest_peers_def valid_peer_def elim: ok_slice_prefix)
next
  case (7 h0 h x y h')
  then show ?case by (auto simp: rest_peers_def intro: copied_peer_stable same_new_prefix)
next
  case (8 h h' x y h0)
  then show ?case by (auto simp: rest_peers_def intro: copied_peer_rebase)
qed (auto simp: set_peers_def rest_peers_def)

definition valid_spec :: "heap \<Rightarrow> cspec \<Rightarrow> bool" where
  "valid_spec h sp \<longleftrightarrow> ok_slice (h_peers h) (cs_Peers sp) \<and> ok_slice (h_edges h) (cs_Edges sp) \<and>
     (\<forall>p \<in> set (elems (deref (h_peers h) (cs_Peers sp))). valid_peer h p)"

definition copied_spec :: "heap \<Rightarrow> heap \<Rightarrow> cspec \<Rightarrow> cspec \<Rightarrow> bool" where
  "copied_spec h0 h sp sp' \<longleftrightarrow> cs_VirtualCIDR sp' = cs_VirtualCIDR sp \<and>
     slice_rel (copied_peer h0 h) (h_peers h0) (h_peers h) (cs_Peers sp) (cs_Peers sp') \<and>
     slice_rel (=) (h_edges h0) (h_edges h) (cs_Edges sp) (cs_Edges sp')"

text \<open>The store grows, apart from the arena of the list items.\<close>

definition grows :: "heap \<Rightarrow> heap \<Rightarrow> bool" where
  "grows h h' \<longleftrightarrow> prefix (h_strings h) (h_strings h') \<and> prefix (h_peers h) (h_peers h') \<and> prefix (h_edges h) (h_edges h') \<and>
     prefix (h_gateways h) (h_gateways h') \<and> prefix (h_statuses h) (h_statuses h') \<and> prefix (h_refs h) (h_refs h')"

lemma grows_refl [simp]: "grows h h" and grows_trans: "grows h1 h2 \<Longrightarrow> grows h2 h3 \<Longrightarrow> grows h1 h3"
  by (auto simp: grows_def)

lemma Spec_spec:
  assumes "Spec_DeepCopyInto sp h = (sp', h')" "valid_spec h sp"
  shows "grows h h' \<and> h_items h' = h_items h \<and> copied_spec h h' sp sp'"
proof -
  obtain ps h1 where 1: "copy_each h_peers set_peers zero_peer Peer_DeepCopyInto (cs_Peers sp) h = (ps, h1)" by fastforce
  obtain es m where 2: "copy_slice zero_edge (cs_Edges sp) (h_edges h1) = (es, m)" by fastforce
  have r: "rest_peers h h1" "prefix (h_peers h) (h_peers h1)" "slice_rel (copied_peer h h1) (h_peers h) (h_peers h1) (cs_Peers sp) ps"
    using pc.copy_each_spec [OF 1] assms(2) by (simp_all add: valid_spec_def)
  have e: "prefix (h_edges h) m" "slice_rel (=) (h_edges h) m (cs_Edges sp) es"
    using copy_slice_spec [OF 2] assms(2) r(1) by (simp_all add: valid_spec_def rest_peers_def)
  have o: "sp' = sp\<lparr>cs_Peers := ps, cs_Edges := es\<rparr>" "h' = h1\<lparr>h_edges := m\<rparr>" using assms(1) 1 2 by (simp_all add: Spec_DeepCopyInto_def)
  have "slice_rel (copied_peer h h') (h_peers h) (h_peers h1) (cs_Peers sp) ps"
    by (rule slice_rel_stable [OF r(3) same_new_prefix]) (auto simp: o copied_peer_def)
  then show ?thesis using r e unfolding o by (auto simp: grows_def copied_spec_def rest_peers_def)
qed

definition ok_ref :: "'a list \<Rightarrow> nat option \<Rightarrow> bool" where
  "ok_ref m r \<longleftrightarrow> pred_option (\<lambda>a. a < length m) r"

definition ref_rel :: "'a list \<Rightarrow> 'a list \<Rightarrow> nat option \<Rightarrow> nat option \<Rightarrow> bool" where
  "ref_rel m0 m = rel_option (\<lambda>a b. length m0 \<le> b \<and> b < length m \<and> m ! b = m0 ! a)"

lemma ref_rel_stable: "ref_rel m0 m r r' \<Longrightarrow> same_new m0 m m' \<Longrightarrow> ref_rel m0 m' r r'"
  by (cases r; cases r') (auto simp: ref_rel_def same_new_def)

lemma ref_rel_rebase: "ref_rel m m' r r' \<Longrightarrow> prefix m0 m \<Longrightarrow> ok_ref m0 r \<Longrightarrow> ref_rel m0 m' r r'"
  by (cases r; cases r') (auto simp: ref_rel_def ok_ref_def prefix_def nth_append)

lemma copy_ref_spec: "copy_ref r m = (r', m') \<Longrightarrow> ok_ref m r \<Longrightarrow> prefix m m' \<and> ref_rel m m' r r'"
  by (cases r) (auto simp: copy_ref_def ref_rel_def ok_ref_def Let_def nth_append)

definition valid_status :: "heap \<Rightarrow> cstatus \<Rightarrow> bool" where
  "valid_status h st \<longleftrightarrow> ok_ref (h_refs h) (cst_WGSecretRef st) \<and> ok_slice (h_gateways h) (cst_Gateways st) \<and>
     ok_slice (h_statuses h) (cst_Edges st)"

definition copied_status :: "heap \<Rightarrow> heap \<Rightarrow> cstatus \<Rightarrow> cstatus \<Rightarrow> bool" where
  "copied_status h0 h st st' \<longleftrightarrow> cst_Community st' = cst_Community st \<and> cst_PublicKey st' = cst_PublicKey st \<and>
     ref_rel (h_refs h0) (h_refs h) (cst_WGSecretRef st) (cst_WGSecretRef st') \<and>
     slice_rel (=) (h_gateways h0) (h_gateways h) (cst_Gateways st) (cst_Gateways st') \<and>
     slice_rel (=) (h_statuses h0) (h_statuses h) (cst_Edges st) (cst_Edges st')"

lemma Status_spec:
  assumes "Status_DeepCopyInto st h = (st', h')" "valid_status h st"
  shows "grows h h' \<and> h_items h' = h_items h \<and> copied_status h h' st st'"
proof -
  obtain r m1 where 1: "copy_ref (cst_WGSecretRef st) (h_refs h) = (r, m1)" by fastforce
  obtain gs m2 where 2: "copy_slice zero_gateway (cst_Gateways st) (h_gateways h) = (gs, m2)" by fastforce
  obtain es m3 where 3: "copy_slice zero_edge_status (cst_Edges st) (h_statuses h) = (es, m3)" by fastforce
  show ?thesis using assms copy_ref_spec [OF 1] copy_slice_spec [OF 2] copy_slice_spec [OF 3] 1 2 3
    by (auto simp: Status_DeepCopyInto_def valid_status_def copied_status_def grows_def)
qed

section \<open>Overlays and lists\<close>

definition valid_overlay :: "heap \<Rightarrow> coverlay \<Rightarrow> bool" where
  "valid_overlay h ov \<longleftrightarrow> ok_slice (h_strings h) (cm_Finalizers (co_Meta ov)) \<and> valid_spec h (co_Spec ov) \<and> valid_status h (co_Status ov)"

definition copied_meta :: "heap \<Rightarrow> heap \<Rightarrow> cmeta \<Rightarrow> cmeta \<Rightarrow> bool" where
  "copied_meta h0 h m m' \<longleftrightarrow> cm_Name m' = cm_Name m \<and> cm_Deleting m' = cm_Deleting m \<and>
     slice_rel (=) (h_strings h0) (h_strings h) (cm_Finalizers m) (cm_Finalizers m')"

definition copied_overlay :: "heap \<Rightarrow> heap \<Rightarrow> coverlay \<Rightarrow> coverlay \<Rightarrow> bool" where
  "copied_overlay h0 h ov ov' \<longleftrightarrow> copied_meta h0 h (co_Meta ov) (co_Meta ov') \<and> copied_spec h0 h (co_Spec ov) (co_Spec ov') \<and>
     copied_status h0 h (co_Status ov) (co_Status ov')"

text \<open>Everything allocated since \<open>h0\<close> is untouched.\<close>

definition keeps_new :: "heap \<Rightarrow> heap \<Rightarrow> heap \<Rightarrow> bool" where
  "keeps_new h0 h h' \<longleftrightarrow> same_new (h_strings h0) (h_strings h) (h_strings h') \<and> same_new (h_peers h0) (h_peers h) (h_peers h') \<and>
     same_new (h_edges h0) (h_edges h) (h_edges h') \<and> same_new (h_gateways h0) (h_gateways h) (h_gateways h') \<and>
     same_new (h_statuses h0) (h_statuses h) (h_statuses h') \<and> same_new (h_refs h0) (h_refs h) (h_refs h')"

lemma grows_keeps: "grows h h' \<Longrightarrow> keeps_new h0 h h'"
  by (simp add: grows_def keeps_new_def same_new_prefix)

lemma copied_stable:
  assumes "keeps_new h0 h h'"
  shows "copied_meta h0 h m m' \<Longrightarrow> copied_meta h0 h' m m'"
    and "copied_spec h0 h sp sp' \<Longrightarrow> copied_spec h0 h' sp sp'"
    and "copied_status h0 h st st' \<Longrightarrow> copied_status h0 h' st st'"
  using assms unfolding keeps_new_def copied_meta_def copied_spec_def copied_status_def
  by (auto elim!: slice_rel_stable ref_rel_stable intro: copied_peer_stable)

lemma copied_rebase:
  assumes "grows h0 h"
  shows "copied_spec h h' sp sp' \<Longrightarrow> valid_spec h0 sp \<Longrightarrow> copied_spec h0 h' sp sp'"
    and "copied_status h h' st st' \<Longrightarrow> valid_status h0 st \<Longrightarrow> copied_status h0 h' st st'"
    and "copied_meta h h' m m' \<Longrightarrow> ok_slice (h_strings h0) (cm_Finalizers m) \<Longrightarrow> copied_meta h0 h' m m'"
  using assms unfolding grows_def copied_meta_def copied_spec_def copied_status_def valid_spec_def valid_status_def
  by (auto elim!: slice_rel_rebase ref_rel_rebase intro: copied_peer_rebase)

lemma valid_grows:
  assumes "grows h h'"
  shows "valid_spec h sp \<Longrightarrow> valid_spec h' sp" "valid_status h st \<Longrightarrow> valid_status h' st"
    and "valid_overlay h ov \<Longrightarrow> valid_overlay h' ov"
proof -
  have ref: "ok_ref m r \<Longrightarrow> prefix m m' \<Longrightarrow> ok_ref m' r" for m m' :: "'z list" and r
    by (cases r) (auto simp: ok_ref_def prefix_def)
  show sp: "valid_spec h sp \<Longrightarrow> valid_spec h' sp" for sp
    using assms deref_prefix [of "h_peers h" "cs_Peers sp" "h_peers h'"]
    by (auto simp: valid_spec_def valid_peer_def grows_def intro: ok_slice_prefix)
  show st: "valid_status h st \<Longrightarrow> valid_status h' st" for st
    using assms by (auto simp: valid_status_def grows_def intro: ok_slice_prefix ref)
  show "valid_overlay h ov \<Longrightarrow> valid_overlay h' ov"
    using assms sp st by (auto simp: valid_overlay_def grows_def intro: ok_slice_prefix)
qed

lemma copied_abs:
  assumes "copied_overlay h0 h ov ov'"
  shows "abs_overlay h ov' = abs_overlay h0 ov"
proof -
  have p: "copied_peer h0 h p q \<Longrightarrow> abs_peer h q = abs_peer h0 p" for p q
    unfolding copied_peer_def by (elim conjE) (cases p, cases q, simp add: abs_peer_def slice_rel_deref)
  have "map (abs_peer h) ys = map (abs_peer h0) xs" if "list_all2 (copied_peer h0 h) xs ys" for xs ys
    using that by (induction rule: list_all2_induct) (simp_all add: p)
  then have "abs_spec h (co_Spec ov') = abs_spec h0 (co_Spec ov)"
    using assms by (auto simp: copied_overlay_def copied_spec_def abs_spec_def dest: slice_rel_elems slice_rel_deref)
  moreover have "abs_status h (co_Status ov') = abs_status h0 (co_Status ov)"
    using assms by (cases "cst_WGSecretRef (co_Status ov)"; cases "cst_WGSecretRef (co_Status ov')")
      (auto simp: copied_overlay_def copied_status_def abs_status_def ref_rel_def dest: slice_rel_deref)
  ultimately show ?thesis
    using assms by (auto simp: copied_overlay_def copied_meta_def abs_overlay_def dest: slice_rel_deref)
qed

lemma slice_rel_ok: "slice_rel R m0 m s s' \<Longrightarrow> ok_slice m s'"
  by (cases s; cases s') (auto simp: slice_rel_def ok_slice_def)

lemma copied_valid:
  assumes "copied_overlay h0 h ov ov'"
  shows "valid_overlay h ov'"
proof -
  have "\<forall>q \<in> set ys. valid_peer h q" if "list_all2 (copied_peer h0 h) xs ys" for xs ys
    using that by (induction rule: list_all2_induct) (auto simp: copied_peer_def valid_peer_def dest: slice_rel_ok)
  moreover have "ref_rel m0 m r r' \<Longrightarrow> ok_ref m r'" for m0 m :: "'z list" and r r'
    by (cases r; cases r') (auto simp: ref_rel_def ok_ref_def)
  ultimately show ?thesis using assms
    by (auto simp: copied_overlay_def copied_meta_def copied_spec_def copied_status_def valid_overlay_def valid_spec_def valid_status_def
        dest: slice_rel_ok slice_rel_elems)
qed

lemma abs_grows:
  assumes "grows h h'" "valid_overlay h ov"
  shows "abs_overlay h' ov = abs_overlay h ov"
proof -
  have r: "ok_ref m r \<Longrightarrow> prefix m m' \<Longrightarrow> map_option ((!) m') r = map_option ((!) m) r" for m m' :: "'z list" and r
    by (cases r) (auto simp: ok_ref_def prefix_def nth_append)
  note d = deref_prefix [of "h_strings h" _ "h_strings h'"] deref_prefix [of "h_peers h" _ "h_peers h'"]
    deref_prefix [of "h_edges h" _ "h_edges h'"] deref_prefix [of "h_gateways h" _ "h_gateways h'"]
    deref_prefix [of "h_statuses h" _ "h_statuses h'"] r [of "h_refs h" _ "h_refs h'"]
  show ?thesis using assms
    by (simp add: abs_overlay_def abs_spec_def abs_status_def abs_peer_def valid_overlay_def valid_spec_def valid_status_def
        valid_peer_def grows_def d)
qed

text \<open>The contract of \<open>ObjectMeta.DeepCopyInto\<close>: it only allocates, and its result is a copy.\<close>

locale meta_copier =
  fixes metaCopy :: "cmeta \<Rightarrow> heap \<Rightarrow> cmeta \<times> heap"
  assumes meta_copied: "ok_slice (h_strings h) (cm_Finalizers m) \<Longrightarrow> metaCopy m h = (m', h') \<Longrightarrow>
    grows h h' \<and> h_items h' = h_items h \<and> copied_meta h h' m m'"
begin

lemma Overlay_spec:
  assumes "Overlay_DeepCopyInto metaCopy ov h = (ov', h')" "valid_overlay h ov"
  shows "grows h h' \<and> h_items h' = h_items h \<and> copied_overlay h h' ov ov'"
proof -
  obtain me h1 where 1: "metaCopy (co_Meta ov) h = (me, h1)" by fastforce
  obtain sp h2 where 2: "Spec_DeepCopyInto (co_Spec ov) h1 = (sp, h2)" by fastforce
  obtain st where 3: "Status_DeepCopyInto (co_Status ov) h2 = (st, h')" and o: "ov' = ov\<lparr>co_Meta := me, co_Spec := sp, co_Status := st\<rparr>"
    using assms(1) 1 2 by (auto simp: Overlay_DeepCopyInto_def split: prod.splits)
  have v: "ok_slice (h_strings h) (cm_Finalizers (co_Meta ov))" "valid_spec h (co_Spec ov)" "valid_status h (co_Status ov)"
    using assms(2) by (simp_all add: valid_overlay_def)
  have a: "grows h h1" "h_items h1 = h_items h" "copied_meta h h1 (co_Meta ov) me" using meta_copied [OF v(1) 1] by simp_all
  have b: "grows h1 h2" "h_items h2 = h_items h1" "copied_spec h1 h2 (co_Spec ov) sp"
    using Spec_spec [OF 2 valid_grows(1) [OF a(1) v(2)]] by simp_all
  have ab: "grows h h2" by (rule grows_trans [OF a(1) b(1)])
  have c: "grows h2 h'" "h_items h' = h_items h2" "copied_status h2 h' (co_Status ov) st"
    using Status_spec [OF 3 valid_grows(2) [OF ab v(3)]] by simp_all
  have "copied_meta h h' (co_Meta ov) me"
    by (rule copied_stable(1) [OF grows_keeps [OF grows_trans [OF b(1) c(1)]] a(3)])
  moreover have "copied_spec h h' (co_Spec ov) sp"
    by (rule copied_stable(2) [OF grows_keeps [OF c(1)] copied_rebase(1) [OF a(1) b(3) v(2)]])
  moreover have "copied_status h h' (co_Status ov) st" by (rule copied_rebase(2) [OF ab c(3) v(3)])
  ultimately show ?thesis using grows_trans [OF ab c(1)] a(2) b(2) c(2) by (simp add: copied_overlay_def o)
qed

end

sublocale meta_copier \<subseteq> items: element_copy h_items set_items "Overlay_DeepCopyInto metaCopy" valid_overlay copied_overlay grows
proof (unfold_locales, goal_cases)
  case (5 h x y h')
  then show ?case using Overlay_spec by blast
next
  case (6 h0 h x)
  then show ?case using valid_grows(3) by blast
next
  case (7 h0 h x y h')
  then show ?case using copied_stable [OF grows_keeps] by (auto simp: copied_overlay_def)
next
  case (8 h h' x y h0)
  then show ?case using copied_rebase [of h0 h] by (auto simp: copied_overlay_def valid_overlay_def)
qed (auto simp: set_items_def grows_def)

context meta_copier
begin

lemma List_spec:
  assumes "List_DeepCopyInto metaCopy l h = (l', h')" "ok_slice (h_items h) (cl_Items l)"
    and "\<forall>ov \<in> set (elems (deref (h_items h) (cl_Items l))). valid_overlay h ov"
  shows "grows h h' \<and> prefix (h_items h) (h_items h') \<and>
    slice_rel (copied_overlay h h') (h_items h) (h_items h') (cl_Items l) (cl_Items l')"
  using assms items.copy_each_spec [of zero_overlay "cl_Items l" h]
  by (auto simp: List_DeepCopyInto_def split: prod.splits)

end

text \<open>A copy of the metadata that the model keeps.\<close>

definition mem_metaCopy :: "cmeta \<Rightarrow> heap \<Rightarrow> cmeta \<times> heap" where
  "mem_metaCopy m h = (case copy_slice [] (cm_Finalizers m) (h_strings h) of
     (s, ss) \<Rightarrow> (m\<lparr>cm_Finalizers := s\<rparr>, h\<lparr>h_strings := ss\<rparr>))"

interpretation memc: meta_copier mem_metaCopy
proof
  fix h m m' h' assume "ok_slice (h_strings h) (cm_Finalizers m)" "mem_metaCopy m h = (m', h')"
  then show "grows h h' \<and> h_items h' = h_items h \<and> copied_meta h h' m m'"
    using copy_slice_spec [of "[]" "cm_Finalizers m" "h_strings h"]
    by (auto simp: mem_metaCopy_def grows_def copied_meta_def split: prod.splits)
qed

section \<open>Properties\<close>

text \<open>C25: A deep copy of an overlay is independent of the original: whatever happens afterwards to
  any memory that existed before the copy (memory allocated by the copy itself being left alone),
  the copy still denotes the value that the original had when it was taken. This is what makes
  the copy the base of a patch.\<close>

theorem deep_copy_isolated:
  assumes "meta_copier metaCopy" "valid_overlay h ov" "Overlay_DeepCopy metaCopy (Some ov) h = (c, h')"
    and "keeps_new h h' h''"
  shows "\<exists>ov'. c = Some ov' \<and> abs_overlay h'' ov' = abs_overlay h ov"
proof -
  obtain ov' where c: "c = Some ov'" and 1: "Overlay_DeepCopyInto metaCopy ov h = (ov', h')"
    using assms(3) by (auto simp: Overlay_DeepCopy_def deep_copy_def split: prod.splits)
  have "copied_overlay h h' ov ov'" using meta_copier.Overlay_spec [OF assms(1) 1 assms(2)] by simp
  then have "copied_overlay h h'' ov ov'" using copied_stable [OF assms(4)] by (simp add: copied_overlay_def)
  then show ?thesis using c copied_abs by blast
qed

text \<open>C26: The deep copy of a list of overlays is a well-typed object of its own. It only allocates: what
  was in memory is as before, and the original denotes the same overlays. Whatever happens
  afterwards to memory that existed before the copy, the items' array included (memory allocated by
  the copy itself being left alone), all references of the copy, down to the peers' address lists,
  are to allocated memory, and the copy still denotes the overlays that the original had when it
  was taken.\<close>

theorem deep_copy_typed:
  assumes m: "meta_copier metaCopy" and l: "ok_slice (h_items h) (cl_Items l)"
    and v: "\<forall>ov \<in> set (elems (deref (h_items h) (cl_Items l))). valid_overlay h ov"
    and c: "List_DeepCopy metaCopy (Some l) h = (c, h')"
  shows "\<exists>l'. c = Some l' \<and> abs_list h' l = abs_list h l \<and> grows h h' \<and> prefix (h_items h) (h_items h') \<and>
    (\<forall>h''. keeps_new h h' h'' \<and> same_new (h_items h) (h_items h') (h_items h'') \<longrightarrow>
       ok_slice (h_items h'') (cl_Items l') \<and> (\<forall>ov \<in> set (elems (deref (h_items h'') (cl_Items l'))). valid_overlay h'' ov) \<and>
       abs_list h'' l' = abs_list h l)"
proof -
  obtain l' where c: "c = Some l'" and 1: "List_DeepCopyInto metaCopy l h = (l', h')"
    using c by (auto simp: List_DeepCopy_def deep_copy_def split: prod.splits)
  have r: "grows h h'" "prefix (h_items h) (h_items h')" "slice_rel (copied_overlay h h') (h_items h) (h_items h') (cl_Items l) (cl_Items l')"
    using meta_copier.List_spec [OF m 1 l v] by simp_all
  have el: "map (abs_overlay h'') ys = map (abs_overlay h) xs \<and> (\<forall>ov \<in> set ys. valid_overlay h'' ov)"
    if "list_all2 (copied_overlay h h'') xs ys" for h'' xs ys
    using that by (induction rule: list_all2_induct) (auto dest: copied_abs copied_valid)
  have "ok_slice (h_items h'') (cl_Items l') \<and> (\<forall>ov \<in> set (elems (deref (h_items h'') (cl_Items l'))). valid_overlay h'' ov) \<and>
      abs_list h'' l' = abs_list h l"
    if k: "keeps_new h h' h''" and i: "same_new (h_items h) (h_items h') (h_items h'')" for h''
  proof -
    have "slice_rel (copied_overlay h h'') (h_items h) (h_items h'') (cl_Items l) (cl_Items l')"
      by (rule slice_rel_stable [OF r(3) i]) (use copied_stable [OF k] in \<open>auto simp: copied_overlay_def\<close>)
    then show ?thesis using slice_rel_ok el [OF slice_rel_elems] by (auto simp: abs_list_def)
  qed
  moreover have "abs_list h' l = abs_list h l"
    unfolding abs_list_def deref_prefix [OF l r(2)] using v abs_grows [OF r(1)] by simp
  ultimately show ?thesis using c r(1,2) by blast
qed

definition ex_heap :: heap where
  "ex_heap = \<lparr>h_strings = [[''pontifex.io/networkoverlay''], [''10.9.0.0/16'']],
     h_peers = [[\<lparr>cp_Name = ''east'', cp_PublicKey = ''pk'', cp_Endpoint = ''203.0.113.7:51820'', cp_AllowedIPs = Some 1, cp_ASN = 65100\<rparr>]],
     h_edges = [], h_gateways = [[zero_gateway]], h_statuses = [], h_refs = [zero_ref], h_items = []\<rparr>"

definition ex_obj :: coverlay where
  "ex_obj = \<lparr>co_Meta = \<lparr>cm_Name = ''blue'', cm_Finalizers = Some 0, cm_Deleting = False\<rparr>,
     co_Spec = \<lparr>cs_VirtualCIDR = ''10.200.0.0/24'', cs_Peers = Some 0, cs_Edges = None\<rparr>,
     co_Status = \<lparr>cst_Community = [], cst_PublicKey = [], cst_WGSecretRef = Some 0, cst_Gateways = Some 0, cst_Edges = None\<rparr>\<rparr>"

lemmas ex_defs_store = ex_heap_def ex_obj_def valid_overlay_def valid_spec_def valid_status_def valid_peer_def ok_slice_def ok_ref_def deref_def

definition ex_store :: heap where
  "ex_store = ex_heap\<lparr>h_items := [[ex_obj]]\<rparr>"

text \<open>After the copy the gateways and the allowed IPs of the original are overwritten.\<close>

definition ex_after :: heap where
  "ex_after = (let h' = snd (Overlay_DeepCopy mem_metaCopy (Some ex_obj) ex_heap)
     in h'\<lparr>h_gateways := (h_gateways h')[0 := []], h_strings := (h_strings h')[1 := [''0.0.0.0/0'']]\<rparr>)"

theorem deep_copy_isolated_witness:
  "\<exists>ov'. fst (Overlay_DeepCopy mem_metaCopy (Some ex_obj) ex_heap) = Some ov' \<and> abs_overlay ex_after ov' = abs_overlay ex_heap ex_obj"
proof -
  have v: "valid_overlay ex_heap ex_obj" by (simp add: ex_defs_store)
  have u: "same_new m0 m (m[i := x])" if "i < length m0" for m0 m :: "'z list" and i x
    using that by (auto simp: same_new_def nth_list_update)
  have k: "keeps_new ex_heap (snd (Overlay_DeepCopy mem_metaCopy (Some ex_obj) ex_heap)) ex_after"
    by (simp add: keeps_new_def ex_after_def Let_def same_new_prefix u ex_heap_def)
  show ?thesis by (rule deep_copy_isolated [OF memc.meta_copier_axioms v surjective_pairing k])
qed

text \<open>After the copy of a list its first item and the items' gateways are overwritten.\<close>

definition ex_list_after :: heap where
  "ex_list_after = (let h' = snd (List_DeepCopy mem_metaCopy (Some \<lparr>cl_Items = Some 0\<rparr>) ex_store)
     in h'\<lparr>h_items := (h_items h')[0 := []], h_gateways := (h_gateways h')[0 := []]\<rparr>)"

theorem deep_copy_typed_witness:
  "\<exists>l'. fst (List_DeepCopy mem_metaCopy (Some \<lparr>cl_Items = Some 0\<rparr>) ex_store) = Some l' \<and>
     abs_list ex_list_after l' = abs_list ex_store \<lparr>cl_Items = Some 0\<rparr>"
proof -
  let ?c = "List_DeepCopy mem_metaCopy (Some \<lparr>cl_Items = Some 0\<rparr>) ex_store"
  have o: "ok_slice (h_items ex_store) (cl_Items \<lparr>cl_Items = Some 0\<rparr>)"
    and v: "\<forall>ov \<in> set (elems (deref (h_items ex_store) (cl_Items \<lparr>cl_Items = Some 0\<rparr>))). valid_overlay ex_store ov"
    by (simp_all add: ex_store_def ex_defs_store)
  have u: "same_new m0 m (m[i := x])" if "i < length m0" for m0 m :: "'z list" and i x
    using that by (auto simp: same_new_def nth_list_update)
  have k: "keeps_new ex_store (snd ?c) ex_list_after" "same_new (h_items ex_store) (h_items (snd ?c)) (h_items ex_list_after)"
    by (simp_all add: keeps_new_def ex_list_after_def Let_def same_new_prefix u ex_store_def ex_heap_def)
  from deep_copy_typed [OF memc.meta_copier_axioms o v surjective_pairing] obtain l' where l: "fst ?c = Some l'"
    and "\<forall>h''. keeps_new ex_store (snd ?c) h'' \<and> same_new (h_items ex_store) (h_items (snd ?c)) (h_items h'') \<longrightarrow>
       ok_slice (h_items h'') (cl_Items l') \<and> (\<forall>ov \<in> set (elems (deref (h_items h'') (cl_Items l'))). valid_overlay h'' ov) \<and>
       abs_list h'' l' = abs_list ex_store \<lparr>cl_Items = Some 0\<rparr>" by (elim exE conjE) (rule that)
  then have "abs_list ex_list_after l' = abs_list ex_store \<lparr>cl_Items = Some 0\<rparr>" using k by blast
  then show ?thesis using l by blast
qed

end
