(* ===== verification/Sync.thy ===== *)
theory Sync
  imports Prelude
begin

text \<open>
  The list / remove orphans / add missing scheme that the BGP, route, firewall and WireGuard
  reconcilers all follow, studied once. \<open>keyed_store\<close> is the contract of a backend for one
  kind of entity (BGP neighbors, policies, advertisements, VRFs, ip rules, addresses, bridges,
  WireGuard interfaces): what a successful call establishes, and that every call, successful or
  not, leaves the entities under other keys alone. \<open>synced\<close> is the abstract specification of
  the scheme: the entities whose key is wanted are kept as they are, the others go away, and a
  wanted entity is created where its key was free.
\<close>

definition synced :: "('v \<Rightarrow> 'k) \<Rightarrow> ('k, 'v) gomap \<Rightarrow> 'v set \<Rightarrow> 'v set" where
  "synced key D V =
     {x \<in> V. gm_has D (key x)} \<union> {v. gm_get D (key v) = Some v \<and> key v \<notin> key ` V}"

text \<open>
  What the scheme guarantees in every outcome, the errors included, from the entities \<open>V\<close> before
  to the entities \<open>V'\<close> after: a wanted entity that is present is kept, under a key that is
  present nothing new appears, every new entity is wanted, and without an error the result is
  \<open>synced\<close>.
\<close>

definition sync_result :: "('v \<Rightarrow> 'k) \<Rightarrow> ('k, 'v) gomap \<Rightarrow> 'v set \<Rightarrow> 'v set \<Rightarrow> bool \<Rightarrow> bool" where
  "sync_result key D V V' ok \<longleftrightarrow>
     (\<forall>x \<in> V. gm_has D (key x) \<longrightarrow> x \<in> V') \<and>
     (\<forall>y \<in> V'. key y \<in> key ` V \<longrightarrow> y \<in> V) \<and>
     (\<forall>y \<in> V'. y \<in> V \<or> gm_get D (key y) = Some y) \<and>
     (ok \<longrightarrow> V' = synced key D V)"

lemma sync_resultD:
  assumes "sync_result key D V V' ok"
  shows "x \<in> V \<Longrightarrow> gm_has D (key x) \<Longrightarrow> x \<in> V'"
    and "y \<in> V' \<Longrightarrow> key y \<in> key ` V \<Longrightarrow> y \<in> V"
    and "y \<in> V' \<Longrightarrow> y \<in> V \<or> gm_get D (key y) = Some y"
    and "ok \<Longrightarrow> V' = synced key D V"
  using assms by (auto simp: sync_result_def)

text \<open>A map of entities filed under their own keys.\<close>

definition keyed_by :: "('v \<Rightarrow> 'k) \<Rightarrow> ('k, 'v) gomap \<Rightarrow> bool" where
  "keyed_by key D \<longleftrightarrow> gm_wf D \<and> (\<forall>(k, v) \<in> set D. key v = k)"

lemma keyed_byD: "keyed_by key D \<Longrightarrow> gm_get D k = Some v \<Longrightarrow> key v = k"
  by (auto simp: keyed_by_def simp flip: gm_set_get)

lemma keyed_by_wf: "keyed_by key D \<Longrightarrow> gm_wf D"
  by (simp add: keyed_by_def)

lemma keyed_by_empty [simp]: "keyed_by key gm_empty"
  by (simp add: keyed_by_def) (simp add: gm_empty_def)

lemma keyed_byI: "gm_wf D \<Longrightarrow> (\<And>k v. gm_get D k = Some v \<Longrightarrow> key v = k) \<Longrightarrow> keyed_by key D"
  unfolding keyed_by_def using gm_set_get by fastforce

lemma keyed_by_put: "keyed_by key D \<Longrightarrow> key v = k \<Longrightarrow> keyed_by key (gm_put k v D)"
proof (rule keyed_byI)
  assume D: "keyed_by key D" and k: "key v = k"
  have wf: "gm_wf D" by (rule keyed_by_wf [OF D])
  then show "gm_wf (gm_put k v D)" by simp
  fix k' v' assume "gm_get (gm_put k v D) k' = Some v'"
  then show "key v' = k'" using wf k keyed_byD [OF D] by (simp split: if_splits)
qed

text \<open>Exactly the wanted keys are present afterwards.\<close>

lemma keys_synced: "keyed_by key D \<Longrightarrow> key ` synced key D V = {k. gm_has D k}"
proof (rule set_eqI)
  fix k
  assume D: "keyed_by key D"
  show "k \<in> key ` synced key D V \<longleftrightarrow> k \<in> {k. gm_has D k}"
  proof
    assume "k \<in> key ` synced key D V"
    then show "k \<in> {k. gm_has D k}" by (auto simp: synced_def gm_has_def)
  next
    assume "k \<in> {k. gm_has D k}"
    then obtain v where v: "gm_get D k = Some v" by (auto simp: gm_has_def)
    with D have kv: "key v = k" by (rule keyed_byD)
    show "k \<in> key ` synced key D V"
    proof (cases "k \<in> key ` V")
      case True
      then obtain x where "x \<in> V" "key x = k" by auto
      with v have "x \<in> synced key D V" by (simp add: synced_def gm_has_def)
      with \<open>key x = k\<close> show ?thesis by blast
    next
      case False
      with v kv have "v \<in> synced key D V" by (simp add: synced_def)
      with kv show ?thesis by blast
    qed
  qed
qed

text \<open>With the wanted keys and what is known of the wanted entities written out.\<close>

lemma synced_explicit:
  assumes "keyed_by key D" "\<And>k. gm_has D k \<longleftrightarrow> k \<in> K" "\<forall>k v. gm_get D k = Some v \<longrightarrow> Q v"
  shows "key ` synced key D V = K" "{x \<in> V. key x \<in> K} \<subseteq> synced key D V"
    "y \<in> synced key D V \<Longrightarrow> y \<in> V \<or> key y \<notin> key ` V \<and> Q y"
  using assms(2,3) by (auto simp: keys_synced [OF assms(1)]) (auto simp: synced_def)

text \<open>Where the entity is its own key, the result is the wanted set itself.\<close>

lemma synced_exact:
  assumes "keyed_by key D" "inj key"
  shows "synced key D V = {v. gm_get D (key v) = Some v}"
proof -
  have "gm_get D (key x) = Some x" if "gm_has D (key x)" for x
  proof -
    from that obtain v where v: "gm_get D (key x) = Some v" by (auto simp: gm_has_def)
    with assms(1) have "key v = key x" by (rule keyed_byD)
    with assms(2) v show ?thesis by (simp add: inj_eq)
  qed
  then have "synced key D V = {x \<in> V. gm_get D (key x) = Some x} \<union>
      {v. gm_get D (key v) = Some v \<and> v \<notin> V}"
    using assms(2) by (auto simp: synced_def gm_has_def inj_image_mem_iff)
  then show ?thesis by blast
qed

lemma synced_idem:
  "keyed_by key D \<Longrightarrow> synced key D (synced key D V) = synced key D V"
proof -
  assume D: "keyed_by key D"
  have k: "key ` synced key D V = {k. gm_has D k}" by (rule keys_synced [OF D])
  have "gm_has D (key x)" if "x \<in> synced key D V" for x using that k by blast
  moreover have "key v \<in> key ` synced key D V" if "gm_get D (key v) = Some v" for v
    using that k by (simp add: gm_has_def)
  ultimately show ?thesis unfolding synced_def [of key D "synced key D V"] by auto
qed

section \<open>The contract of a backend\<close>

locale keyed_store =
  fixes key :: "'v \<Rightarrow> 'k"
    and view :: "'s \<Rightarrow> 'v set"
    and add :: "'v \<Rightarrow> 's \<Rightarrow> go_error option \<times> 's"
    and rem :: "'v \<Rightarrow> 's \<Rightarrow> go_error option \<times> 's"
  assumes add_ok: "add v s = (None, s') \<Longrightarrow> v \<in> view s'"
    and add_only: "add v s = (r, s') \<Longrightarrow> y \<in> view s' \<Longrightarrow> y \<in> view s \<or> y = v"
    and add_frame: "add v s = (r, s') \<Longrightarrow> y \<in> view s \<Longrightarrow> key y \<noteq> key v \<Longrightarrow> y \<in> view s'"
    and rem_ok: "rem v s = (None, s') \<Longrightarrow> v \<notin> view s'"
    and rem_only: "rem v s = (r, s') \<Longrightarrow> y \<in> view s' \<Longrightarrow> y \<in> view s"
    and rem_frame: "rem v s = (r, s') \<Longrightarrow> y \<in> view s \<Longrightarrow> key y \<noteq> key v \<Longrightarrow> y \<in> view s'"
begin

text \<open>The removal loop: it only removes, it removes only what it is run on, and if it reports
  nothing it has removed all of that.\<close>

lemma rem_loop_only: "y \<in> view (fst (go_for skip rem wrap xs st)) \<Longrightarrow> y \<in> view (fst st)"
proof (induction xs arbitrary: st)
  case (Cons x xs)
  obtain s es where st: "st = (s, es)" by force
  obtain r s' where a: "rem x s = (r, s')" by force
  show ?case
  proof (cases "skip x")
    case True
    then show ?thesis using Cons.IH [of "(s, es)"] Cons.prems by (simp add: st)
  next
    case False
    obtain es' where "go_for skip rem wrap (x # xs) st = go_for skip rem wrap xs (s', es')"
      using False by (cases r) (auto simp: st a)
    with Cons have "y \<in> view s'" by fastforce
    then show ?thesis using rem_only [OF a] by (simp add: st)
  qed
qed simp

lemma rem_loop_frame:
  assumes "y \<in> view (fst st)" "\<And>x. x \<in> set xs \<Longrightarrow> \<not> skip x \<Longrightarrow> key y \<noteq> key x"
  shows "y \<in> view (fst (go_for skip rem wrap xs st))"
  using assms
proof (induction xs arbitrary: st)
  case (Cons x xs)
  obtain s es where st: "st = (s, es)" by force
  obtain r s' where a: "rem x s = (r, s')" by force
  have IH: "y \<in> view t \<Longrightarrow> y \<in> view (fst (go_for skip rem wrap xs (t, es')))" for t es'
    by (rule Cons.IH) (use Cons.prems in auto)
  show ?case
    using Cons.prems IH rem_frame [OF a, of y] by (cases r) (auto simp: st a)
qed simp

lemma rem_loop_gone:
  assumes "snd (go_for skip rem wrap xs st) = snd st" "x \<in> set xs" "\<not> skip x"
  shows "x \<notin> view (fst (go_for skip rem wrap xs st))"
  using assms
proof (induction xs arbitrary: st)
  case (Cons z zs)
  obtain s es where st: "st = (s, es)" by force
  show ?case
  proof (cases "skip z")
    case True
    then show ?thesis using Cons by (auto simp: st)
  next
    case False
    obtain s' where a: "rem z s = (None, s')"
      and go: "go_for skip rem wrap (z # zs) st = go_for skip rem wrap zs (s', es)"
      using go_for_step_ok [of skip rem wrap z zs s es] Cons.prems(1) False by (auto simp: st)
    show ?thesis
    proof (cases "x \<in> set zs")
      case True
      then show ?thesis using Cons.IH [of "(s', es)"] Cons.prems go by (simp add: st)
    next
      case False
      then have "x \<notin> view s'" using rem_ok [of z s s'] a Cons.prems(2) by simp
      then show ?thesis using rem_loop_only [of x skip wrap zs "(s', es)"] go by auto
    qed
  qed
qed simp

lemma rem_view:
  assumes "set xs = view s" "\<And>x z. key x = key z \<Longrightarrow> skip x = skip z"
    and "go_for skip rem wr xs (s, es) = (s1, es)"
  shows "view s1 = {x \<in> view s. skip x}"
proof (intro set_eqI iffI)
  fix y assume y: "y \<in> view s1"
  then have "y \<in> view s" using rem_loop_only [of y skip wr xs "(s, es)"] assms(3) by simp
  moreover have "skip y"
  proof (rule ccontr)
    assume "\<not> skip y"
    then have "y \<notin> view (fst (go_for skip rem wr xs (s, es)))"
      by (intro rem_loop_gone) (simp_all add: assms(1,3) \<open>y \<in> view s\<close>)
    then show False using y assms(3) by simp
  qed
  ultimately show "y \<in> {x \<in> view s. skip x}" by simp
next
  fix y assume "y \<in> {x \<in> view s. skip x}"
  then have y: "y \<in> view s" "skip y" by auto
  then have "key y \<noteq> key z" if "\<not> skip z" for z using that assms(2) [of y z] by blast
  then show "y \<in> view s1" using rem_loop_frame [of y "(s, es)" xs skip wr] assms(3) y(1) by simp
qed

text \<open>The creation loop, dually.\<close>

lemma add_loop_only:
  "y \<in> view (fst (go_for skip add wrap vs st)) \<Longrightarrow> y \<in> view (fst st) \<or> y \<in> set vs \<and> \<not> skip y"
proof (induction vs arbitrary: st)
  case (Cons x xs)
  obtain s es where st: "st = (s, es)" by force
  obtain r s' where a: "add x s = (r, s')" by force
  show ?case
  proof (cases "skip x")
    case True
    then show ?thesis using Cons by (auto simp: st)
  next
    case False
    obtain es' where "go_for skip add wrap (x # xs) st = go_for skip add wrap xs (s', es')"
      using False by (cases r) (auto simp: st a)
    with Cons have "y \<in> view s' \<or> y \<in> set xs \<and> \<not> skip y" by fastforce
    then show ?thesis using add_only [OF a] False by (auto simp: st)
  qed
qed simp

lemma add_loop_frame:
  assumes "y \<in> view (fst st)" "\<And>x. x \<in> set vs \<Longrightarrow> \<not> skip x \<Longrightarrow> key y \<noteq> key x"
  shows "y \<in> view (fst (go_for skip add wrap vs st))"
  using assms
proof (induction vs arbitrary: st)
  case (Cons x xs)
  obtain s es where st: "st = (s, es)" by force
  obtain r s' where a: "add x s = (r, s')" by force
  have IH: "y \<in> view t \<Longrightarrow> y \<in> view (fst (go_for skip add wrap xs (t, es')))" for t es'
    by (rule Cons.IH) (use Cons.prems in auto)
  show ?case
    using Cons.prems IH add_frame [OF a, of y] by (cases r) (auto simp: st a)
qed simp

lemma add_loop_there:
  assumes "snd (go_for skip add wrap vs st) = snd st" "v \<in> set vs" "\<not> skip v" "distinct (map key vs)"
  shows "v \<in> view (fst (go_for skip add wrap vs st))"
  using assms
proof (induction vs arbitrary: st)
  case (Cons z zs)
  obtain s es where st: "st = (s, es)" by force
  show ?case
  proof (cases "skip z")
    case True
    then show ?thesis using Cons by (auto simp: st)
  next
    case False
    obtain s' where a: "add z s = (None, s')"
      and go: "go_for skip add wrap (z # zs) st = go_for skip add wrap zs (s', es)"
      using go_for_step_ok [of skip add wrap z zs s es] Cons.prems(1) False by (auto simp: st)
    show ?thesis
    proof (cases "v \<in> set zs")
      case True
      then show ?thesis using Cons.IH [of "(s', es)"] Cons.prems go by (simp add: st)
    next
      case nin: False
      then have v: "v = z" using Cons.prems(2) by simp
      have "v \<in> view s'" using add_ok [of z s s'] a v by simp
      moreover have "key v \<noteq> key x" if "x \<in> set zs" for x
        using Cons.prems(4) v that by auto
      ultimately show ?thesis using add_loop_frame [of v "(s', es)" zs] go by auto
    qed
  qed
qed simp

text \<open>
  The scheme as a whole. Other work may come between the two loops (\<open>mid\<close>) as long as it does
  not touch this kind of entity.
\<close>

lemma sync_view:
  assumes D: "keyed_by key D"
    and xs: "set xs = view s"
    and rm: "go_for (\<lambda>x. gm_has D (key x)) rem wr xs (s, es) = (s1, es)"
    and mid: "view t1 = view s1"
    and ad: "go_for (\<lambda>v. key v \<in> key ` view s) add wa (map snd (gm_range ns D)) (t1, fs) = (s2, fs)"
  shows "view s2 = synced key D (view s)"
proof -
  let ?vs = "map snd (gm_range ns D)"
  have wf: "gm_wf D" by (rule keyed_by_wf [OF D])
  have vs: "v \<in> set ?vs \<longleftrightarrow> gm_get D (key v) = Some v" for v
    using gm.range_vals [OF wf, of ns] keyed_byD [OF D] by fastforce
  have dist: "distinct (map key ?vs)"
  proof -
    have "map key ?vs = map fst (gm_range ns D)"
      using D by (auto simp: keyed_by_def gm_range_def)
    then show ?thesis using gm.range_distinct [OF wf, of ns] by (simp only:)
  qed
  have v1: "view s1 = {x \<in> view s. gm_has D (key x)}" by (rule rem_view [OF xs _ rm]) simp
  let ?sk = "\<lambda>v. key v \<in> key ` view s"
  have "y \<in> view s2 \<longleftrightarrow> y \<in> synced key D (view s)" for y
  proof
    assume "y \<in> view s2"
    then have "y \<in> view t1 \<or> y \<in> set ?vs \<and> \<not> ?sk y"
      using add_loop_only [of y ?sk wa ?vs "(t1, fs)"] ad by simp
    then show "y \<in> synced key D (view s)" using vs v1 mid by (auto simp: synced_def)
  next
    assume "y \<in> synced key D (view s)"
    then consider (kept) "y \<in> view s1" "key y \<in> key ` view s" | (new) "y \<in> set ?vs" "\<not> ?sk y"
      using vs v1 by (auto simp: synced_def)
    then show "y \<in> view s2"
    proof cases
      case kept
      have "\<not> ?sk x \<Longrightarrow> key y \<noteq> key x" for x using kept(2) by auto
      then show ?thesis using kept(1) mid add_loop_frame [of y "(t1, fs)" ?vs ?sk wa] ad by auto
    next
      case new
      then show ?thesis using add_loop_there [of ?sk wa ?vs "(t1, fs)" y] ad dist by auto
    qed
  qed
  then show ?thesis by blast
qed

text \<open>
  With failures in between, for whatever reason: an entity that is wanted and present is not
  touched, and nothing appears that is neither old nor wanted.
\<close>

lemma sync_keeps:
  assumes "x \<in> view s" "gm_has D (key x)"
    and rm: "go_for (\<lambda>x. gm_has D (key x)) rem wr xs (s, es) = (s1, es1)"
    and mid: "view t1 = view s1"
    and ad: "go_for (\<lambda>v. key v \<in> key ` view s) add wa vs (t1, fs) = (s2, fs1)"
  shows "x \<in> view s2"
proof -
  have "key x \<noteq> key z" if "\<not> gm_has D (key z)" for z using that assms(2) by auto
  then have "x \<in> view t1"
    using rem_loop_frame [of x "(s, es)" xs "\<lambda>x. gm_has D (key x)" wr] assms(1) rm mid by simp
  moreover have "\<not> key v \<in> key ` view s \<Longrightarrow> key x \<noteq> key v" for v
    using imageI [OF assms(1), of key] by metis
  ultimately show ?thesis
    using add_loop_frame [of x "(t1, fs)" vs "\<lambda>v. key v \<in> key ` view s" wa] ad by auto
qed

text \<open>Under a key that is present, nothing new appears either: existing entities are not updated.\<close>

lemma sync_no_update:
  assumes "key y \<in> key ` view s" "y \<notin> view s"
    and rm: "go_for (\<lambda>x. gm_has D (key x)) rem wr xs (s, es) = (s1, es1)"
    and mid: "view t1 = view s1"
    and ad: "go_for (\<lambda>v. key v \<in> key ` view s) add wa vs (t1, fs) = (s2, fs1)"
  shows "y \<notin> view s2"
proof
  assume "y \<in> view s2"
  then have "y \<in> view t1"
    using add_loop_only [of y "\<lambda>v. key v \<in> key ` view s" wa vs "(t1, fs)"] ad assms(1) by auto
  then show False
    using rem_loop_only [of y "\<lambda>x. gm_has D (key x)" wr xs "(s, es)"] rm mid assms(2) by auto
qed

lemma sync_no_alien:
  assumes "x \<in> view s2"
    and D: "keyed_by key D"
    and rm: "go_for (\<lambda>x. gm_has D (key x)) rem wr xs (s, es) = (s1, es1)"
    and mid: "view t1 = view s1"
    and ad: "go_for skip add wa (map snd (gm_range ns D)) (t1, fs) = (s2, fs1)"
  shows "x \<in> view s \<or> gm_get D (key x) = Some x"
proof -
  have "x \<in> view t1 \<or> x \<in> set (map snd (gm_range ns D))"
    using add_loop_only [of x skip wa "map snd (gm_range ns D)" "(t1, fs)"] ad assms(1) by auto
  then show ?thesis
    using rem_loop_only [of x "\<lambda>x. gm_has D (key x)" wr xs "(s, es)"] rm mid
      gm.range_vals [OF keyed_by_wf [OF D], of ns] keyed_byD [OF D]
    by fastforce
qed

text \<open>The three facts together.\<close>

lemma sync_resultI:
  assumes D: "keyed_by key D"
    and xs: "set xs = view s"
    and rm: "go_for (\<lambda>x. gm_has D (key x)) rem wr xs (s, es) = (s1, es1)"
    and mid: "view t1 = view s1"
    and ad: "go_for (\<lambda>v. key v \<in> key ` view s) add wa (map snd (gm_range ns D)) (t1, fs) = (s2, fs1)"
    and ok: "ok \<Longrightarrow> es1 = es \<and> fs1 = fs"
  shows "sync_result key D (view s) (view s2) ok"
  unfolding sync_result_def
proof (intro conjI ballI impI)
  show "x \<in> view s2" if "x \<in> view s" "gm_has D (key x)" for x
    by (rule sync_keeps [OF that rm mid ad])
  show "y \<in> view s" if "y \<in> view s2" "key y \<in> key ` view s" for y
    using sync_no_update [OF that(2) _ rm mid ad] that(1) by blast
  show "y \<in> view s \<or> gm_get D (key y) = Some y" if "y \<in> view s2" for y
    by (rule sync_no_alien [OF that D rm mid ad])
  show "view s2 = synced key D (view s)" if ok': "ok"
    by (rule sync_view [OF D xs _ mid])
      (use rm ad ok [OF ok'] in \<open>simp only:\<close>)+
qed

end

text \<open>On a state that is in sync already, both loops skip everything.\<close>

lemma sync_rem_noop:
  assumes "keyed_by key D" "V = synced key D V0" "set xs = V"
  shows "go_for (\<lambda>x. gm_has D (key x)) rem wr xs st = st"
  by (rule go_for_all_skip) (use assms keys_synced [of key D V0] in blast)

lemma sync_add_noop:
  assumes "keyed_by key D" "V = synced key D V0"
  shows "go_for (\<lambda>v. key v \<in> key ` V) add wa (map snd (gm_range ns D)) st = st"
proof (rule go_for_all_skip)
  fix v assume "v \<in> set (map snd (gm_range ns D))"
  then have "gm_has D (key v)"
    using gm.range_vals [OF keyed_by_wf [OF assms(1)], of ns] keyed_byD [OF assms(1)]
    by (fastforce simp: gm_has_def)
  then show "key v \<in> key ` V" using keys_synced [OF assms(1), of V0] assms(2) by blast
qed

text \<open>A store whose creation call replaces what was filed under the key.\<close>

locale upsert_store = keyed_store +
  assumes add_replaces: "add v s = (None, s') \<Longrightarrow> y \<in> view s' \<Longrightarrow> key y = key v \<Longrightarrow> y = v"
begin

lemma add_view: "add v s = (None, s') \<Longrightarrow> view s' = insert v {x \<in> view s. key x \<noteq> key v}"
  using add_ok add_only add_frame add_replaces by blast

lemma ensure_view:
  "distinct (map key vs) \<Longrightarrow> go_for (\<lambda>_. False) add wa vs (s, es) = (s', es) \<Longrightarrow>
     view s' = {x \<in> view s. key x \<notin> key ` set vs} \<union> set vs"
proof (induction vs arbitrary: s)
  case (Cons z zs)
  have "snd (go_for (\<lambda>_. False) add wa (z # zs) (s, es)) = es" using Cons.prems(2) by simp
  then obtain t where t: "add z s = (None, t)"
      "go_for (\<lambda>_. False) add wa (z # zs) (s, es) = go_for (\<lambda>_. False) add wa zs (t, es)"
    by (rule go_for_step_ok) simp
  then have "view s' = {x \<in> view t. key x \<notin> key ` set zs} \<union> set zs" using Cons by simp
  then show ?case using add_view [OF t(1)] Cons.prems(1) by auto
qed simp

end

end
