(* ===== verification/Bgp_Lib.thy ===== *)
theory Bgp_Lib
  imports Api_Types Sync
begin

text \<open>
  The BGP daemon behind \<open>libs/bgp\<close>: its data, the \<open>Server\<close> interface as a record of operations
  on a daemon state, the GoBGP-backed server of this phase (every operation is refused), and the
  contract the reconcilers rely on. A daemon state shows three kinds of entities: neighbors
  filed under their address, policies under their name, advertisements under their prefix; the
  List operations report them, and the operations of one kind do not touch the others.
\<close>

record neighbor =
  n_Name :: string
  n_Address :: string
  n_ASN :: u32
  n_IsIBGP :: bool
  n_NextHop :: string
  n_Policies :: "string list"

datatype policy_direction = PolicyImport | PolicyExport

record policy =
  p_Name :: string
  p_Direction :: policy_direction
  p_Match :: string
  p_Action :: string

record bgp_route =
  r_Prefix :: string
  r_NextHop :: string
  r_Communities :: "string list"

datatype route_event_type = RouteAdded | RouteWithdrawn

record route_event =
  ev_Type :: route_event_type
  ev_Route :: bgp_route

record 's bgp_server =
  Start :: "u32 \<Rightarrow> string \<Rightarrow> 's \<Rightarrow> go_error option \<times> 's"
  Stop :: "'s \<Rightarrow> go_error option \<times> 's"
  AddNeighbor :: "neighbor \<Rightarrow> 's \<Rightarrow> go_error option \<times> 's"
  RemoveNeighbor :: "string \<Rightarrow> 's \<Rightarrow> go_error option \<times> 's"
  ListNeighbors :: "'s \<Rightarrow> go_error + neighbor list"
  AddPolicy :: "policy \<Rightarrow> 's \<Rightarrow> go_error option \<times> 's"
  RemovePolicy :: "string \<Rightarrow> 's \<Rightarrow> go_error option \<times> 's"
  ListPolicies :: "'s \<Rightarrow> go_error + policy list"
  Advertise :: "string \<Rightarrow> string list \<Rightarrow> 's \<Rightarrow> go_error option \<times> 's"
  Withdraw :: "string \<Rightarrow> 's \<Rightarrow> go_error option \<times> 's"
  ListAdvertised :: "'s \<Rightarrow> go_error + bgp_route list"

section \<open>Policy names\<close>

text \<open>The names both reconcilers give to the policies of an overlay.\<close>

definition importName :: "string \<Rightarrow> string" where
  "importName overlayName = ''pntfx-import-'' @ overlayName"

definition exportName :: "string \<Rightarrow> string" where
  "exportName overlayName = ''pntfx-export-'' @ overlayName"

definition prependName :: "string \<Rightarrow> string" where
  "prependName overlayName = ''pntfx-prepend-'' @ overlayName"

lemma policy_names_inject [simp]:
  "importName a = importName b \<longleftrightarrow> a = b"
  "exportName a = exportName b \<longleftrightarrow> a = b"
  "prependName a = prependName b \<longleftrightarrow> a = b"
  by (simp_all add: importName_def exportName_def prependName_def)

lemma policy_names_disjoint [simp]:
  "importName a \<noteq> exportName b" "importName a \<noteq> prependName b" "exportName a \<noteq> prependName b"
  "exportName b \<noteq> importName a" "prependName b \<noteq> importName a" "prependName b \<noteq> exportName a"
  by (simp_all add: importName_def exportName_def prependName_def)

section \<open>The contract\<close>

text \<open>An advertisement as the reconciler sees it: the prefix and its communities.\<close>

definition ad_of :: "bgp_route \<Rightarrow> string \<times> string list" where
  "ad_of rt = (r_Prefix rt, r_Communities rt)"

lemma fst_ad_of [simp]: "fst (ad_of rt) = r_Prefix rt"
  by (simp add: ad_of_def)

locale bgp_contract =
  nbr: keyed_store n_Address nbrs "AddNeighbor srv" "\<lambda>n. RemoveNeighbor srv (n_Address n)" +
  pol: keyed_store p_Name pols "AddPolicy srv" "\<lambda>p. RemovePolicy srv (p_Name p)" +
  adv: keyed_store "fst :: string \<times> string list \<Rightarrow> string" ads
    "\<lambda>a. Advertise srv (fst a) (snd a)" "\<lambda>a. Withdraw srv (fst a)"
  for srv :: "'s bgp_server" and nbrs :: "'s \<Rightarrow> neighbor set" and pols :: "'s \<Rightarrow> policy set"
    and ads :: "'s \<Rightarrow> (string \<times> string list) set" +
  assumes list_nbrs: "ListNeighbors srv s = Inr ns \<Longrightarrow> set ns = nbrs s"
    and list_pols: "ListPolicies srv s = Inr ps \<Longrightarrow> set ps = pols s"
    and list_ads: "ListAdvertised srv s = Inr rts \<Longrightarrow> ad_of ` set rts = ads s"
    and nbr_frame:
      "pols (snd (AddNeighbor srv n s)) = pols s" "ads (snd (AddNeighbor srv n s)) = ads s"
      "pols (snd (RemoveNeighbor srv a s)) = pols s" "ads (snd (RemoveNeighbor srv a s)) = ads s"
    and pol_frame:
      "nbrs (snd (AddPolicy srv p s)) = nbrs s" "ads (snd (AddPolicy srv p s)) = ads s"
      "nbrs (snd (RemovePolicy srv x s)) = nbrs s" "ads (snd (RemovePolicy srv x s)) = ads s"
    and adv_frame:
      "nbrs (snd (Advertise srv x cs s)) = nbrs s" "pols (snd (Advertise srv x cs s)) = pols s"
      "nbrs (snd (Withdraw srv x s)) = nbrs s" "pols (snd (Withdraw srv x s)) = pols s"

section \<open>The GoBGP-backed server of this phase\<close>

definition errNotImplemented :: go_error where
  "errNotImplemented = Errs ''not implemented''"

definition gobgpServer :: "'s bgp_server" where
  "gobgpServer = \<lparr>
     Start = (\<lambda>asn routerID s. (Some errNotImplemented, s)),
     Stop = (\<lambda>s. (Some errNotImplemented, s)),
     AddNeighbor = (\<lambda>n s. (Some errNotImplemented, s)),
     RemoveNeighbor = (\<lambda>address s. (Some errNotImplemented, s)),
     ListNeighbors = (\<lambda>s. Inl errNotImplemented),
     AddPolicy = (\<lambda>p s. (Some errNotImplemented, s)),
     RemovePolicy = (\<lambda>name s. (Some errNotImplemented, s)),
     ListPolicies = (\<lambda>s. Inl errNotImplemented),
     Advertise = (\<lambda>prefix communities s. (Some errNotImplemented, s)),
     Withdraw = (\<lambda>prefix s. (Some errNotImplemented, s)),
     ListAdvertised = (\<lambda>s. Inl errNotImplemented)\<rparr>"

text \<open>A server that refuses everything keeps the contract for any reading of its state.\<close>

interpretation gobgp: bgp_contract gobgpServer nbrs pols ads for nbrs pols ads
  by unfold_locales (auto simp: gobgpServer_def)

section \<open>A server in memory\<close>

text \<open>The contract met in the plainest way: three lists, every operation succeeds.\<close>

definition upsert :: "('v \<Rightarrow> 'k) \<Rightarrow> 'v \<Rightarrow> 'v list \<Rightarrow> 'v list" where
  "upsert key v xs = filter (\<lambda>x. key x \<noteq> key v) xs @ [v]"

definition drop_key :: "('v \<Rightarrow> 'k) \<Rightarrow> 'k \<Rightarrow> 'v list \<Rightarrow> 'v list" where
  "drop_key key k xs = filter (\<lambda>x. key x \<noteq> k) xs"

lemma set_upsert [simp]: "set (upsert key v xs) = insert v {x \<in> set xs. key x \<noteq> key v}"
  by (auto simp: upsert_def)

lemma set_drop_key [simp]: "set (drop_key key k xs) = {x \<in> set xs. key x \<noteq> k}"
  by (auto simp: drop_key_def)

record mem_bgp =
  mb_nbrs :: "neighbor list"
  mb_pols :: "policy list"
  mb_ads :: "(string \<times> string list) list"

definition mem_bgp_server :: "mem_bgp bgp_server" where
  "mem_bgp_server = \<lparr>
     Start = (\<lambda>asn routerID s. (None, s)),
     Stop = (\<lambda>s. (None, s)),
     AddNeighbor = (\<lambda>n s. (None, s\<lparr>mb_nbrs := upsert n_Address n (mb_nbrs s)\<rparr>)),
     RemoveNeighbor = (\<lambda>a s. (None, s\<lparr>mb_nbrs := drop_key n_Address a (mb_nbrs s)\<rparr>)),
     ListNeighbors = (\<lambda>s. Inr (mb_nbrs s)),
     AddPolicy = (\<lambda>p s. (None, s\<lparr>mb_pols := upsert p_Name p (mb_pols s)\<rparr>)),
     RemovePolicy = (\<lambda>x s. (None, s\<lparr>mb_pols := drop_key p_Name x (mb_pols s)\<rparr>)),
     ListPolicies = (\<lambda>s. Inr (mb_pols s)),
     Advertise = (\<lambda>x cs s. (None, s\<lparr>mb_ads := upsert fst (x, cs) (mb_ads s)\<rparr>)),
     Withdraw = (\<lambda>x s. (None, s\<lparr>mb_ads := drop_key fst x (mb_ads s)\<rparr>)),
     ListAdvertised = (\<lambda>s. Inr (map (\<lambda>(x, cs).
        \<lparr>r_Prefix = x, r_NextHop = [], r_Communities = cs\<rparr>) (mb_ads s)))\<rparr>"

interpretation mem: bgp_contract mem_bgp_server "\<lambda>s. set (mb_nbrs s)" "\<lambda>s. set (mb_pols s)"
    "\<lambda>s. set (mb_ads s)"
  by unfold_locales (auto simp: mem_bgp_server_def ad_of_def image_image case_prod_beta)

text \<open>The same server, but it refuses a neighbor that names a policy it does not have.\<close>

definition strict_bgp_server :: "mem_bgp bgp_server" where
  "strict_bgp_server = mem_bgp_server\<lparr>AddNeighbor := (\<lambda>n s.
     if set (n_Policies n) \<subseteq> p_Name ` set (mb_pols s) then AddNeighbor mem_bgp_server n s
     else (Some (Errs ''unknown policy''), s))\<rparr>"

interpretation strict: bgp_contract strict_bgp_server "\<lambda>s. set (mb_nbrs s)" "\<lambda>s. set (mb_pols s)"
    "\<lambda>s. set (mb_ads s)"
  by unfold_locales
    (auto simp: strict_bgp_server_def mem_bgp_server_def ad_of_def image_image case_prod_beta split: if_splits)

definition mem_bgp0 :: mem_bgp where
  "mem_bgp0 = \<lparr>mb_nbrs = [], mb_pols = [], mb_ads = []\<rparr>"

end
