(* ===== verification/Routes_Lib.thy ===== *)
theory Routes_Lib
  imports Bgp_Lib
begin

text \<open>
  The host networking behind \<open>libs/routes\<close>: VRFs, addresses on a VRF's dummy device, ip rules
  and route tables. The \<open>Routes\<close> interface is a record of operations on a host state, with the
  netlink-backed implementation of this phase (every operation is refused) and the contract the
  reconcilers rely on. The contract asks only for the independence a reconcile cycle needs: what
  comes later in a cycle leaves alone what came before. (Removing a VRF may take its addresses
  with it.)
\<close>

record vrf =
  v_Name :: string
  v_TableID :: u32

record addr =
  a_VRFName :: string
  a_IP :: string

record rule =
  ru_From :: string
  ru_To :: string
  ru_TableID :: u32
  ru_Iif :: string
  ru_Oif :: string

record rt_route =
  rr_TableID :: u32
  rr_Dst :: string
  rr_Gw :: string
  rr_Dev :: string

record 's routes =
  EnsureVRF :: "string \<Rightarrow> u32 \<Rightarrow> 's \<Rightarrow> go_error option \<times> 's"
  RemoveVRF :: "string \<Rightarrow> 's \<Rightarrow> go_error option \<times> 's"
  ListVRFs :: "'s \<Rightarrow> go_error + vrf list"
  EnsureAddr :: "string \<Rightarrow> string \<Rightarrow> 's \<Rightarrow> go_error option \<times> 's"
  RemoveAddr :: "string \<Rightarrow> string \<Rightarrow> 's \<Rightarrow> go_error option \<times> 's"
  ListAddrs :: "string \<Rightarrow> 's \<Rightarrow> go_error + addr list"
  EnsureRule :: "rule \<Rightarrow> 's \<Rightarrow> go_error option \<times> 's"
  RemoveRule :: "rule \<Rightarrow> 's \<Rightarrow> go_error option \<times> 's"
  ListRules :: "'s \<Rightarrow> go_error + rule list"
  AddRoute :: "u32 \<Rightarrow> string \<Rightarrow> string \<Rightarrow> string \<Rightarrow> 's \<Rightarrow> go_error option \<times> 's"
  RemoveRoute :: "u32 \<Rightarrow> string \<Rightarrow> 's \<Rightarrow> go_error option \<times> 's"
  SyncRoutes :: "u32 \<Rightarrow> rt_route list \<Rightarrow> 's \<Rightarrow> go_error option \<times> 's"
  ListRoutes :: "u32 \<Rightarrow> 's \<Rightarrow> go_error + rt_route list"

section \<open>The contract\<close>

locale vrf_contract =
  vrf: keyed_store v_Name vrfs "\<lambda>v. EnsureVRF rt (v_Name v) (v_TableID v)" "\<lambda>v. RemoveVRF rt (v_Name v)"
  for rt :: "'s routes" and vrfs :: "'s \<Rightarrow> vrf set" +
  assumes list_vrfs: "ListVRFs rt s = Inr vs \<Longrightarrow> set vs = vrfs s"

text \<open>
  \<open>ListRules\<close> reports the agent's rules. (The comment on the interface says that it reports those whose
  table belongs to a managed VRF; \<open>Routes_Filtered\<close> shows what becomes of a cycle then. The tests of the
  reconciler list the rule of an overlay that is gone, as here.)
\<close>

locale routes_contract =
  vrf_contract rt vrfs +
  rule: keyed_store ru_TableID rules "EnsureRule rt" "RemoveRule rt" +
  addr: keyed_store "\<lambda>a :: string \<times> string. a" addrs
    "\<lambda>a. EnsureAddr rt (fst a) (snd a)" "\<lambda>a. RemoveAddr rt (fst a) (snd a)"
  for rt :: "'s routes" and vrfs :: "'s \<Rightarrow> vrf set" and rules :: "'s \<Rightarrow> rule set"
    and addrs :: "'s \<Rightarrow> (string \<times> string) set" +
  fixes tables :: "'s \<Rightarrow> u32 \<Rightarrow> rt_route set"
  assumes list_rules: "ListRules rt s = Inr rs \<Longrightarrow> set rs = rules s"
    and list_addrs: "ListAddrs rt v s = Inr as \<Longrightarrow> a_IP ` set as = {ip. (v, ip) \<in> addrs s}"
    and sync_ok: "SyncRoutes rt t ds s = (None, s') \<Longrightarrow> tables s' t = set ds"
    and sync_frame: "t' \<noteq> t \<Longrightarrow> tables (snd (SyncRoutes rt t ds s)) t' = tables s t'"
    and rule_frame:
      "vrfs (snd (EnsureRule rt r s)) = vrfs s" "vrfs (snd (RemoveRule rt r s)) = vrfs s"
    and addr_frame:
      "vrfs (snd (EnsureAddr rt v ip s)) = vrfs s" "vrfs (snd (RemoveAddr rt v ip s)) = vrfs s"
      "rules (snd (EnsureAddr rt v ip s)) = rules s" "rules (snd (RemoveAddr rt v ip s)) = rules s"
    and route_frame:
      "vrfs (snd (SyncRoutes rt t ds s)) = vrfs s" "rules (snd (SyncRoutes rt t ds s)) = rules s"
      "addrs (snd (SyncRoutes rt t ds s)) = addrs s"

section \<open>The netlink-backed implementation of this phase\<close>

definition netlinkRoutes :: "'s routes" where
  "netlinkRoutes = \<lparr>
     EnsureVRF = (\<lambda>name tableID s. (Some errNotImplemented, s)),
     RemoveVRF = (\<lambda>name s. (Some errNotImplemented, s)),
     ListVRFs = (\<lambda>s. Inl errNotImplemented),
     EnsureAddr = (\<lambda>vrfName ip s. (Some errNotImplemented, s)),
     RemoveAddr = (\<lambda>vrfName ip s. (Some errNotImplemented, s)),
     ListAddrs = (\<lambda>vrfName s. Inl errNotImplemented),
     EnsureRule = (\<lambda>rule s. (Some errNotImplemented, s)),
     RemoveRule = (\<lambda>rule s. (Some errNotImplemented, s)),
     ListRules = (\<lambda>s. Inl errNotImplemented),
     AddRoute = (\<lambda>tableID dst gw dev s. (Some errNotImplemented, s)),
     RemoveRoute = (\<lambda>tableID dst s. (Some errNotImplemented, s)),
     SyncRoutes = (\<lambda>tableID desired s. (Some errNotImplemented, s)),
     ListRoutes = (\<lambda>tableID s. Inl errNotImplemented)\<rparr>"

interpretation netlink: routes_contract netlinkRoutes vrfs rules addrs tables for vrfs rules addrs tables
  by unfold_locales (auto simp: netlinkRoutes_def)

section \<open>A host in memory\<close>

record mem_host =
  mh_vrfs :: "vrf list"
  mh_rules :: "rule list"
  mh_addrs :: "(string \<times> string) list"
  mh_tables :: "u32 \<Rightarrow> rt_route list"

definition mem_routes :: "mem_host routes" where
  "mem_routes = \<lparr>
     EnsureVRF = (\<lambda>name t s. (None, s\<lparr>mh_vrfs := upsert v_Name \<lparr>v_Name = name, v_TableID = t\<rparr> (mh_vrfs s)\<rparr>)),
     RemoveVRF = (\<lambda>name s. (None, s\<lparr>mh_vrfs := drop_key v_Name name (mh_vrfs s),
                                   mh_addrs := drop_key fst name (mh_addrs s)\<rparr>)),
     ListVRFs = (\<lambda>s. Inr (mh_vrfs s)),
     EnsureAddr = (\<lambda>v ip s. (None, s\<lparr>mh_addrs := upsert id (v, ip) (mh_addrs s)\<rparr>)),
     RemoveAddr = (\<lambda>v ip s. (None, s\<lparr>mh_addrs := drop_key id (v, ip) (mh_addrs s)\<rparr>)),
     ListAddrs = (\<lambda>v s. Inr (map (\<lambda>(v, ip). \<lparr>a_VRFName = v, a_IP = ip\<rparr>)
                              (filter (\<lambda>a. fst a = v) (mh_addrs s)))),
     EnsureRule = (\<lambda>r s. (None, s\<lparr>mh_rules := upsert id r (mh_rules s)\<rparr>)),
     RemoveRule = (\<lambda>r s. (None, s\<lparr>mh_rules := drop_key id r (mh_rules s)\<rparr>)),
     ListRules = (\<lambda>s. Inr (mh_rules s)),
     AddRoute = (\<lambda>t dst gw dev s. (None, s\<lparr>mh_tables := (mh_tables s)(t :=
        \<lparr>rr_TableID = t, rr_Dst = dst, rr_Gw = gw, rr_Dev = dev\<rparr> # mh_tables s t)\<rparr>)),
     RemoveRoute = (\<lambda>t dst s. (None, s\<lparr>mh_tables := (mh_tables s)(t := drop_key rr_Dst dst (mh_tables s t))\<rparr>)),
     SyncRoutes = (\<lambda>t ds s. (None, s\<lparr>mh_tables := (mh_tables s)(t := ds)\<rparr>)),
     ListRoutes = (\<lambda>t s. Inr (mh_tables s t))\<rparr>"

interpretation memr: routes_contract mem_routes "\<lambda>s. set (mh_vrfs s)" "\<lambda>s. set (mh_rules s)"
    "\<lambda>s. set (mh_addrs s)" "\<lambda>s t. set (mh_tables s t)"
  by unfold_locales (auto simp: mem_routes_def image_iff split: prod.splits)

definition mem_host0 :: mem_host where
  "mem_host0 = \<lparr>mh_vrfs = [], mh_rules = [], mh_addrs = [], mh_tables = (\<lambda>_. [])\<rparr>"

end
