(* ===== verification/Example.thy ===== *)
theory Example
  imports Api_Types
begin

text \<open>
  A small topology at which the theorems are applied: two overlays with one peer and one ready
  edge each, on nodes \<open>node-1\<close> and \<open>node-2\<close>, and one overlay the operator has not given a
  community yet.
\<close>

definition ex_peer :: peer where
  "ex_peer = \<lparr>peer_Name = ''east'', peer_PublicKey = ''pk'', peer_Endpoint = ''203.0.113.7:51820'',
     peer_AllowedIPs = [''10.9.0.0/16''], peer_ASN = 65100\<rparr>"

definition ex_edge :: "string \<Rightarrow> string \<Rightarrow> string \<Rightarrow> string \<Rightarrow> edge_status" where
  "ex_edge vip podIP node nodeIP = \<lparr>es_VirtualIP = vip, es_PodNamespace = ''default'', es_PodName = ''web'',
     es_PodIP = podIP, es_NodeName = node, es_NodeIP = nodeIP, es_Ready = True\<rparr>"

definition ex_gateway :: gateway where
  "ex_gateway = \<lparr>gw_NodeName = ''gw-a'', gw_NodeIP = ''10.0.0.1'', gw_PublicIP = ''198.51.100.4'',
     gw_IsSecondary = False\<rparr>"

definition ex_overlay :: "string \<Rightarrow> string \<Rightarrow> peer list \<Rightarrow> edge_status list \<Rightarrow> overlay" where
  "ex_overlay name comm ps es = \<lparr>ov_Name = name, ov_Finalizers = [], ov_Deleting = False,
     ov_Spec = \<lparr>spec_VirtualCIDR = ''10.200.0.0/24'', spec_Peers = ps, spec_Edges = []\<rparr>,
     ov_Status = \<lparr>st_Community = comm, st_PublicKey = [], st_WGSecretRef = None,
       st_Gateways = Some [ex_gateway], st_Edges = Some es\<rparr>\<rparr>"

definition ex_blue :: overlay where
  "ex_blue = ex_overlay ''blue'' ''65000:1'' [ex_peer] [ex_edge ''10.200.0.5'' ''10.244.1.9'' ''node-1'' ''10.0.0.21'']"

definition ex_red :: overlay where
  "ex_red = ex_overlay ''red'' ''65000:2'' [ex_peer] [ex_edge ''10.200.0.6'' ''10.244.2.9'' ''node-2'' ''10.0.0.22'']"

definition ex_new :: overlay where
  "ex_new = ex_overlay ''new'' [] [] [ex_edge ''10.200.0.7'' ''10.244.1.8'' ''node-1'' ''10.0.0.21'']"

lemmas ex_defs = ex_peer_def ex_edge_def ex_gateway_def ex_overlay_def ex_blue_def ex_red_def ex_new_def

end
