(* ===== verification/Routes_Gateway.thy ===== *)
theory Routes_Gateway
  imports Routes_Lib Example
begin

text \<open>
  The gateway's routes reconciler (\<open>reconcilers/routes/gateway.go\<close>): the routes learned from BGP
  events, and the sync of the main table (0) with the learned routes of active overlays.
  The lemmas describe the learned routes as a function of the event history and prove the sync
  correct against the contract of \<open>Routes\<close>.
\<close>

record rt_gateway =
  rg_learned :: "(string, bgp_route) gomap"

definition rg_new :: rt_gateway where
  "rg_new = \<lparr>rg_learned = gm_empty\<rparr>"

definition rg_ApplyEvent :: "route_event \<Rightarrow> rt_gateway \<Rightarrow> rt_gateway" where
  "rg_ApplyEvent ev r =
     (if ev_Type ev = RouteWithdrawn
      then r\<lparr>rg_learned := gm_del (r_Prefix (ev_Route ev)) (rg_learned r)\<rparr>
      else r\<lparr>rg_learned := gm_put (r_Prefix (ev_Route ev)) (ev_Route ev) (rg_learned r)\<rparr>)"

definition activeCommunities :: "overlay list \<Rightarrow> (string, unit) gomap" where
  "activeCommunities overlays =
     fold (\<lambda>ov m. if community ov \<noteq> [] then gm_put (community ov) () m else m) overlays gm_empty"

fun commMatches :: "string list \<Rightarrow> (string, unit) gomap \<Rightarrow> bool" where
  "commMatches [] active = False"
| "commMatches (c # cs) active = (if gm_has active c then True else commMatches cs active)"

definition routeMatchesCommunities :: "bgp_route \<Rightarrow> (string, unit) gomap \<Rightarrow> bool" where
  "routeMatchesCommunities rt active = commMatches (r_Communities rt) active"

definition rg_buildDesiredRoutes :: "nat list \<Rightarrow> rt_gateway \<Rightarrow> (string, unit) gomap \<Rightarrow> rt_route list" where
  "rg_buildDesiredRoutes ns r active =
     fold (\<lambda>rt desired.
       if routeMatchesCommunities rt active
       then desired @ [\<lparr>rr_TableID = 0, rr_Dst = r_Prefix rt, rr_Gw = r_NextHop rt, rr_Dev = []\<rparr>]
       else desired)
     (map snd (gm_range ns (rg_learned r))) []"

definition rg_Reconcile :: "nat list \<Rightarrow> 's routes \<Rightarrow> rt_gateway \<Rightarrow> overlay list \<Rightarrow> 's
    \<Rightarrow> go_error option \<times> 's" where
  "rg_Reconcile ns rt r overlays s =
     (let active = activeCommunities overlays;
          desired = rg_buildDesiredRoutes ns r active
      in case SyncRoutes rt 0 desired s of
           (Some err, s') \<Rightarrow> (Some (Wrap ''sync global routes'' err), s')
         | (None, s') \<Rightarrow> (None, s'))"

section \<open>The learned routes\<close>

text \<open>What an event history leaves for a prefix: its last event decides.\<close>

definition last_event :: "string \<Rightarrow> route_event list \<Rightarrow> route_event option" where
  "last_event p evs = find (\<lambda>ev. r_Prefix (ev_Route ev) = p) (rev evs)"

definition learned_route :: "string \<Rightarrow> route_event list \<Rightarrow> bgp_route option" where
  "learned_route p evs =
     (case last_event p evs of
        None \<Rightarrow> None
      | Some ev \<Rightarrow> if ev_Type ev = RouteWithdrawn then None else Some (ev_Route ev))"

lemma last_event_snoc:
  "last_event p (evs @ [ev]) = (if r_Prefix (ev_Route ev) = p then Some ev else last_event p evs)"
  by (simp add: last_event_def)

lemma learned_route_snoc:
  "learned_route p (evs @ [ev]) =
     (if r_Prefix (ev_Route ev) = p
      then (if ev_Type ev = RouteWithdrawn then None else Some (ev_Route ev))
      else learned_route p evs)"
  by (simp add: learned_route_def last_event_snoc)

lemma learned_route_Nil [simp]: "learned_route p [] = None"
  by (simp add: learned_route_def last_event_def)

lemma learned_route_prefix: "learned_route p evs = Some rt \<Longrightarrow> r_Prefix rt = p"
  by (induction evs rule: rev_induct) (auto simp: learned_route_snoc split: if_splits)

lemma rg_learned_wf: "gm_wf (rg_learned r) \<Longrightarrow> gm_wf (rg_learned (rg_ApplyEvent ev r))"
  by (simp add: rg_ApplyEvent_def)

lemma rg_learned_history:
  "gm_wf (rg_learned (fold rg_ApplyEvent evs rg_new)) \<and>
   gm_get (rg_learned (fold rg_ApplyEvent evs rg_new)) p = learned_route p evs"
proof (induction evs arbitrary: p rule: rev_induct)
  case Nil
  show ?case by (simp add: rg_new_def)
next
  case (snoc ev evs)
  then show ?case by (auto simp: rg_ApplyEvent_def learned_route_snoc)
qed

section \<open>The wanted routes\<close>

lemma activeCommunities_has:
  "gm_has (activeCommunities overlays) c \<longleftrightarrow> c \<noteq> [] \<and> c \<in> community ` set overlays"
proof -
  have "gm_wf m \<Longrightarrow> gm_has (fold (\<lambda>ov m. if community ov \<noteq> [] then gm_put (community ov) () m else m) overlays m) c
      \<longleftrightarrow> gm_has m c \<or> c \<noteq> [] \<and> c \<in> community ` set overlays" for m :: "(string, unit) gomap"
    by (induction overlays arbitrary: m) auto
  then show ?thesis by (simp add: activeCommunities_def)
qed

lemma commMatches_iff: "commMatches cs active \<longleftrightarrow> (\<exists>c \<in> set cs. gm_has active c)"
  by (induction cs) auto

lemma fold_filter_append:
  "fold (\<lambda>x acc. if P x then acc @ [f x] else acc) xs acc = acc @ map f (filter P xs)"
  by (induction xs arbitrary: acc) auto

lemma rg_desired_eq:
  "rg_buildDesiredRoutes ns r active =
     map (\<lambda>rt. \<lparr>rr_TableID = 0, rr_Dst = r_Prefix rt, rr_Gw = r_NextHop rt, rr_Dev = []\<rparr>)
       (filter (\<lambda>rt. routeMatchesCommunities rt active) (map snd (gm_range ns (rg_learned r))))"
  by (simp add: rg_buildDesiredRoutes_def fold_filter_append)

lemma rg_desired_set:
  assumes "gm_wf (rg_learned r)"
  shows "set (rg_buildDesiredRoutes ns r (activeCommunities overlays)) =
    {\<lparr>rr_TableID = 0, rr_Dst = r_Prefix rt, rr_Gw = r_NextHop rt, rr_Dev = []\<rparr> | rt.
       (\<exists>p. gm_get (rg_learned r) p = Some rt) \<and>
       (\<exists>ov \<in> set overlays. community ov \<noteq> [] \<and> community ov \<in> set (r_Communities rt))}"
proof -
  have m: "routeMatchesCommunities rt (activeCommunities overlays) \<longleftrightarrow>
      (\<exists>ov \<in> set overlays. community ov \<noteq> [] \<and> community ov \<in> set (r_Communities rt))" for rt
    by (auto simp: routeMatchesCommunities_def commMatches_iff activeCommunities_has)
  show ?thesis
    unfolding rg_desired_eq set_map set_filter using gm.range_vals [OF assms, of ns] m by auto
qed

context routes_contract
begin

lemma rg_main_table:
  assumes "rg_Reconcile ns rt (fold rg_ApplyEvent evs rg_new) overlays s = (None, s')"
  shows "tables s' 0 =
      {\<lparr>rr_TableID = 0, rr_Dst = p, rr_Gw = r_NextHop b, rr_Dev = []\<rparr> | p b.
         learned_route p evs = Some b \<and>
         (\<exists>ov \<in> set overlays. community ov \<noteq> [] \<and> community ov \<in> set (r_Communities b))}"
    and "t \<noteq> 0 \<Longrightarrow> tables s' t = tables s t"
    and "vrfs s' = vrfs s \<and> rules s' = rules s \<and> addrs s' = addrs s"
proof -
  let ?r = "fold rg_ApplyEvent evs rg_new"
  let ?ds = "rg_buildDesiredRoutes ns ?r (activeCommunities overlays)"
  have wf: "gm_wf (rg_learned ?r)" using rg_learned_history by blast
  have get: "gm_get (rg_learned ?r) p = learned_route p evs" for p using rg_learned_history by blast
  have sy: "SyncRoutes rt 0 ?ds s = (None, s')"
    using assms by (auto simp: rg_Reconcile_def Let_def split: prod.splits option.splits)
  have "set ?ds = {\<lparr>rr_TableID = 0, rr_Dst = p, rr_Gw = r_NextHop b, rr_Dev = []\<rparr> | p b.
         learned_route p evs = Some b \<and>
         (\<exists>ov \<in> set overlays. community ov \<noteq> [] \<and> community ov \<in> set (r_Communities b))}"
    unfolding rg_desired_set [OF wf] get using learned_route_prefix by fastforce
  then show "tables s' 0 =
      {\<lparr>rr_TableID = 0, rr_Dst = p, rr_Gw = r_NextHop b, rr_Dev = []\<rparr> | p b.
         learned_route p evs = Some b \<and>
         (\<exists>ov \<in> set overlays. community ov \<noteq> [] \<and> community ov \<in> set (r_Communities b))}"
    using sync_ok [OF sy] by simp
  show "t \<noteq> 0 \<Longrightarrow> tables s' t = tables s t" "vrfs s' = vrfs s \<and> rules s' = rules s \<and> addrs s' = addrs s"
    using sync_frame [of t 0 ?ds s] route_frame [of 0 ?ds s] by (simp_all add: sy)
qed

end

section \<open>Properties\<close>

definition ex_route :: bgp_route where
  "ex_route = \<lparr>r_Prefix = ''10.9.0.0/16'', r_NextHop = ''203.0.113.7'', r_Communities = [''65100:7'', ''65000:1'']\<rparr>"

definition ex_added :: route_event where
  "ex_added = \<lparr>ev_Type = RouteAdded, ev_Route = ex_route\<rparr>"

definition ex_events :: "route_event list" where
  "ex_events = [ex_added,
     \<lparr>ev_Type = RouteAdded, ev_Route = \<lparr>r_Prefix = ''10.8.0.0/16'', r_NextHop = ''203.0.113.8'', r_Communities = [''65000:1'']\<rparr>\<rparr>,
     \<lparr>ev_Type = RouteWithdrawn, ev_Route = \<lparr>r_Prefix = ''10.8.0.0/16'', r_NextHop = [], r_Communities = []\<rparr>\<rparr>]"

text \<open>The routes a gateway has learned are determined by the event history, prefix by prefix:
  a prefix is bound to the route of its last event, and unbound if that event is a withdrawal
  or there was none.\<close>

theorem rg_learned_last_event:
  "gm_get (rg_learned (fold rg_ApplyEvent evs rg_new)) p =
     (case find (\<lambda>ev. r_Prefix (ev_Route ev) = p) (rev evs) of
        None \<Rightarrow> None
      | Some ev \<Rightarrow> if ev_Type ev = RouteWithdrawn then None else Some (ev_Route ev))"
  using rg_learned_history [of evs p] by (simp add: learned_route_def last_event_def)

text \<open>C21: After any history of route events, a gateway route sync that returns no error leaves the
  main table with exactly one entry per learned prefix whose route carries the community of
  some overlay of the snapshot, with the learned next hop; every other table, and all VRFs,
  rules and addresses, are as before.\<close>

theorem rg_main_table_exact:
  assumes "routes_contract rt vrfs rules addrs tables"
    and "rg_Reconcile ns rt (fold rg_ApplyEvent evs rg_new) overlays s = (None, s')"
  shows "tables s' 0 =
      {\<lparr>rr_TableID = 0, rr_Dst = p, rr_Gw = r_NextHop b, rr_Dev = []\<rparr> | p b.
         learned_route p evs = Some b \<and>
         (\<exists>ov \<in> set overlays. community ov \<noteq> [] \<and> community ov \<in> set (r_Communities b))}
    \<and> (\<forall>t. t \<noteq> 0 \<longrightarrow> tables s' t = tables s t)
    \<and> vrfs s' = vrfs s \<and> rules s' = rules s \<and> addrs s' = addrs s"
  using routes_contract.rg_main_table [OF assms] by blast

theorem rg_main_table_exact_witness:
  "\<lparr>rr_TableID = 0, rr_Dst = ''10.9.0.0/16'', rr_Gw = ''203.0.113.7'', rr_Dev = []\<rparr>
     \<in> set (mh_tables (snd (rg_Reconcile [1] mem_routes (fold rg_ApplyEvent ex_events rg_new) [ex_blue] mem_host0)) 0)"
proof -
  have "fst (rg_Reconcile [1] mem_routes (fold rg_ApplyEvent ex_events rg_new) [ex_blue] mem_host0) = None"
    by (simp add: rg_Reconcile_def Let_def mem_routes_def)
  note t = rg_main_table_exact [OF memr.routes_contract_axioms pair_fst [OF this], THEN conjunct1]
  have "learned_route ''10.9.0.0/16'' ex_events = Some ex_route"
    by (simp add: learned_route_def last_event_def ex_events_def ex_added_def ex_route_def)
  then show ?thesis unfolding t by (auto simp: ex_route_def ex_defs)
qed

end
