(* ===== verification/Firewall_Lib.thy ===== *)
theory Firewall_Lib
  imports Bgp_Lib
begin

text \<open>
  The firewall behind \<open>libs/firewall\<close>: DNAT/SNAT bridges from a virtual IP to a pod IP, filed
  under overlay name and virtual IP, the \<open>Firewall\<close> interface and its contract, the two backends
  of this phase (both refuse everything) and the choice between them.
\<close>

record bridge =
  b_OverlayName :: string
  b_VirtualIP :: string
  b_PodIP :: string

definition bridge_key :: "bridge \<Rightarrow> string \<times> string" where
  "bridge_key b = (b_OverlayName b, b_VirtualIP b)"

record 'f firewall =
  EnsureBridge :: "string \<Rightarrow> string \<Rightarrow> string \<Rightarrow> 'f \<Rightarrow> go_error option \<times> 'f"
  RemoveBridge :: "string \<Rightarrow> string \<Rightarrow> 'f \<Rightarrow> go_error option \<times> 'f"
  ListBridges :: "'f \<Rightarrow> go_error + bridge list"

locale firewall_contract =
  keyed_store bridge_key bridges
    "\<lambda>b. EnsureBridge fw (b_OverlayName b) (b_VirtualIP b) (b_PodIP b)"
    "\<lambda>b. RemoveBridge fw (b_OverlayName b) (b_VirtualIP b)"
  for fw :: "'f firewall" and bridges :: "'f \<Rightarrow> bridge set" +
  assumes list_bridges: "ListBridges fw f = Inr bs \<Longrightarrow> set bs = bridges f"

datatype backend = BackendAuto | BackendIPTables | BackendNFTables

definition iptablesFirewall :: "'f firewall" where
  "iptablesFirewall = \<lparr>
     EnsureBridge = (\<lambda>overlayName virtualIP podIP f. (Some errNotImplemented, f)),
     RemoveBridge = (\<lambda>overlayName virtualIP f. (Some errNotImplemented, f)),
     ListBridges = (\<lambda>f. Inl errNotImplemented)\<rparr>"

definition nftablesFirewall :: "'f firewall" where
  "nftablesFirewall = \<lparr>
     EnsureBridge = (\<lambda>overlayName virtualIP podIP f. (Some errNotImplemented, f)),
     RemoveBridge = (\<lambda>overlayName virtualIP f. (Some errNotImplemented, f)),
     ListBridges = (\<lambda>f. Inl errNotImplemented)\<rparr>"

interpretation iptables: firewall_contract iptablesFirewall bridges for bridges
  by unfold_locales (auto simp: iptablesFirewall_def)

interpretation nftables: firewall_contract nftablesFirewall bridges for bridges
  by unfold_locales (auto simp: nftablesFirewall_def)

text \<open>Which implementation is used; \<open>os.Stat("/proc/net/nf_tables")\<close> is the argument.\<close>

datatype firewall_kind = IPTables | NFTables

fun firewall_of :: "firewall_kind \<Rightarrow> 'f firewall" where
  "firewall_of IPTables = iptablesFirewall"
| "firewall_of NFTables = nftablesFirewall"

fun Detect :: "bool \<Rightarrow> backend \<Rightarrow> firewall_kind" where
  "Detect statOk BackendIPTables = IPTables"
| "Detect statOk BackendNFTables = NFTables"
| "Detect statOk BackendAuto = (if statOk then NFTables else IPTables)"

text \<open>A firewall in memory.\<close>

definition mem_firewall :: "bridge list firewall" where
  "mem_firewall = \<lparr>
     EnsureBridge = (\<lambda>ov vip pod f. (None, upsert bridge_key \<lparr>b_OverlayName = ov, b_VirtualIP = vip, b_PodIP = pod\<rparr> f)),
     RemoveBridge = (\<lambda>ov vip f. (None, drop_key bridge_key (ov, vip) f)),
     ListBridges = (\<lambda>f. Inr f)\<rparr>"

interpretation memf: firewall_contract mem_firewall set
  by unfold_locales (auto simp: mem_firewall_def bridge_key_def)

end
