(* ===== verification/Go_Strings.thy ===== *)
theory Go_Strings
  imports Prelude
begin

text \<open>
  The string functions of the Go standard library that pontifex calls, on byte strings:
  \<open>%d\<close> of \<open>fmt.Sprintf\<close>, \<open>strconv.ParseUint(s, 10, 32)\<close>, \<open>strings.SplitN(s, ":", 2)\<close>,
  \<open>strings.TrimSpace\<close>, \<open>net.SplitHostPort\<close>, whether \<open>net.ParseIP\<close> accepts a string, and
  \<open>filepath.Join\<close>. The lemmas are the round trips the components need: decimal printing and
  parsing, splitting a printed community, splitting a printed host and port.
\<close>

section \<open>Decimal numbers\<close>

definition digit_char :: "nat \<Rightarrow> char" where
  "digit_char d = char_of (48 + d)"

definition is_digit :: "char \<Rightarrow> bool" where
  "is_digit c \<longleftrightarrow> 48 \<le> (of_char c :: nat) \<and> (of_char c :: nat) \<le> 57"

definition digit_val :: "char \<Rightarrow> nat" where
  "digit_val c = of_char c - 48"

fun dec :: "nat \<Rightarrow> string" where
  "dec n = (if n < 10 then [digit_char n] else dec (n div 10) @ [digit_char (n mod 10)])"

declare dec.simps [simp del]

lemma dec_small [simp]: "n < 10 \<Longrightarrow> dec n = [digit_char n]"
  by (simp add: dec.simps)

lemma of_char_digit: "d < 10 \<Longrightarrow> (of_char (digit_char d) :: nat) = 48 + d"
  by (simp add: digit_char_def)

lemma digit_val_char [simp]: "d < 10 \<Longrightarrow> digit_val (digit_char d) = d"
  by (simp add: digit_val_def of_char_digit)

lemma is_digit_char [simp]: "d < 10 \<Longrightarrow> is_digit (digit_char d)"
  by (simp add: is_digit_def of_char_digit)

lemma dec_digits: "c \<in> set (dec n) \<Longrightarrow> is_digit c"
proof (induction n rule: dec.induct)
  case (1 n)
  then show ?case by (cases "n < 10") (auto simp: dec.simps [of n])
qed

lemma dec_not_Nil [simp]: "dec n \<noteq> []"
  by (subst dec.simps) simp

lemma colon_not_digit [simp]: "\<not> is_digit CHR '':''"
  by (simp add: is_digit_def)

lemma dec_no_colon [simp]: "CHR '':'' \<notin> set (dec n)"
  using dec_digits colon_not_digit by blast

text \<open>The printed number determines the number.\<close>

definition dec_value :: "string \<Rightarrow> nat" where
  "dec_value s = foldl (\<lambda>a c. a * 10 + digit_val c) 0 s"

lemma dec_value_dec [simp]: "dec_value (dec n) = n"
proof (induction n rule: dec.induct)
  case (1 n)
  then show ?case by (cases "n < 10") (auto simp: dec.simps [of n] dec_value_def)
qed

lemma dec_inject [simp]: "dec m = dec n \<longleftrightarrow> m = n"
  by (metis dec_value_dec)

text \<open>
  \<open>strconv.ParseUint(s, 10, 32)\<close>: left to right, a character that is no digit is a syntax
  error, and a value that passes \<open>2\<^sup>32 - 1\<close> is a range error.
\<close>

fun parse_digits :: "nat \<Rightarrow> string \<Rightarrow> go_error + nat" where
  "parse_digits n [] = Inr n"
| "parse_digits n (c # cs) =
     (if \<not> is_digit c then Inl (Errs ''invalid syntax'')
      else let n1 = n * 10 + digit_val c
           in if n1 > 2 ^ 32 - 1 then Inl (Errs ''value out of range'') else parse_digits n1 cs)"

text \<open>The range test on binary integers, for evaluation.\<close>

lemma parse_digits_code [code]:
  "parse_digits n [] = Inr n"
  "parse_digits n (c # cs) =
     (if \<not> is_digit c then Inl (Errs ''invalid syntax'')
      else let n1 = n * 10 + digit_val c
           in if int n1 > 4294967295 then Inl (Errs ''value out of range'') else parse_digits n1 cs)"
  by (simp_all add: Let_def)

definition ParseUint32 :: "string \<Rightarrow> go_error + nat" where
  "ParseUint32 s = (if s = [] then Inl (Errs ''invalid syntax'') else parse_digits 0 s)"

lemma parse_digits_dec:
  "n < 2 ^ 32 \<Longrightarrow> parse_digits 0 (dec n @ cs) = parse_digits n cs"
proof (induction n arbitrary: cs rule: dec.induct)
  case (1 n)
  show ?case
  proof (cases "n < 10")
    case True
    then show ?thesis by simp
  next
    case False
    have d: "n mod 10 < 10" by simp
    have "parse_digits 0 (dec n @ cs) = parse_digits (n div 10) (digit_char (n mod 10) # cs)"
      using "1.IH" [of "digit_char (n mod 10) # cs"] False "1.prems" by (simp add: dec.simps [of n])
    also have "\<dots> = parse_digits n cs"
      using "1.prems" by (simp add: digit_val_char [OF d] is_digit_char [OF d])
    finally show ?thesis .
  qed
qed

lemma ParseUint32_dec [simp]: "n < 2 ^ 32 \<Longrightarrow> ParseUint32 (dec n) = Inr n"
  using parse_digits_dec [of n "[]"] by (simp add: ParseUint32_def)

lemma parse_digits_bound: "parse_digits n s = Inr v \<Longrightarrow> n < 2 ^ 32 \<Longrightarrow> v < 2 ^ 32"
  by (induction n s rule: parse_digits.induct) (auto simp: Let_def split: if_splits)

lemma ParseUint32_bound: "ParseUint32 s = Inr v \<Longrightarrow> v < 2 ^ 32"
  by (auto simp: ParseUint32_def dest: parse_digits_bound split: if_splits)

section \<open>Splitting and trimming\<close>

text \<open>\<open>strings.SplitN(s, string(c), 2)\<close>.\<close>

definition SplitN2 :: "char \<Rightarrow> string \<Rightarrow> string list" where
  "SplitN2 c s =
     (if c \<in> set s then [takeWhile (\<lambda>x. x \<noteq> c) s, tl (dropWhile (\<lambda>x. x \<noteq> c) s)] else [s])"

lemma SplitN2_append [simp]: "c \<notin> set a \<Longrightarrow> SplitN2 c (a @ c # b) = [a, b]"
  by (induction a) (auto simp: SplitN2_def)

lemma SplitN2_none [simp]: "c \<notin> set s \<Longrightarrow> SplitN2 c s = [s]"
  by (simp add: SplitN2_def)

text \<open>
  The white space of \<open>unicode.IsSpace\<close> in UTF-8: six ASCII bytes, U+0085, U+00A0, U+1680,
  U+2000 to U+200A, U+2028, U+2029, U+202F, U+205F and U+3000.
\<close>

definition space_runes :: "string list" where
  "space_runes = map (\<lambda>n. [char_of n]) [9 :: nat, 10, 11, 12, 13, 32]
     @ map (map char_of) [[0xC2 :: nat, 0x85], [0xC2, 0xA0], [0xE1, 0x9A, 0x80]]
     @ map (\<lambda>n. [char_of (0xE2 :: nat), char_of (0x80 :: nat), char_of n])
         ([0x80 ..< 0x8B] @ [0xA8, 0xA9, 0xAF])
     @ map (map char_of) [[0xE2 :: nat, 0x81, 0x9F], [0xE3, 0x80, 0x80]]"

function trim_prefixes :: "string list \<Rightarrow> string \<Rightarrow> string" where
  "trim_prefixes ws s =
     (case find (\<lambda>w. w \<noteq> [] \<and> take (length w) s = w) ws of
        None \<Rightarrow> s
      | Some w \<Rightarrow> trim_prefixes ws (drop (length w) s))"
  by pat_completeness auto
termination
proof (relation "measure (\<lambda>(ws, s). length s)", goal_cases)
  case (2 ws s w)
  then have w: "w \<noteq> []" "take (length w) s = w" by (auto simp: find_Some_iff)
  then have "length s > 0" by (cases s) auto
  then show ?case using w by simp
qed simp

declare trim_prefixes.simps [simp del]

definition TrimSpace :: "string \<Rightarrow> string" where
  "TrimSpace s = rev (trim_prefixes (map rev space_runes) (rev (trim_prefixes space_runes s)))"

lemma trim_prefixes_trimmed:
  "find (\<lambda>w. w \<noteq> [] \<and> take (length w) (trim_prefixes ws s) = w) ws = None"
proof (induction ws s rule: trim_prefixes.induct)
  case (1 ws s)
  then show ?case by (auto simp: trim_prefixes.simps [of ws s] split: option.splits)
qed

lemma trim_prefixes_suffix: "\<exists>p. s = p @ trim_prefixes ws s"
proof (induction ws s rule: trim_prefixes.induct)
  case (1 ws s)
  show ?case
  proof (cases "find (\<lambda>w. w \<noteq> [] \<and> take (length w) s = w) ws")
    case None
    then show ?thesis by (simp add: trim_prefixes.simps [of ws s])
  next
    case (Some w)
    with 1 obtain p where "drop (length w) s = p @ trim_prefixes ws (drop (length w) s)" by blast
    then have "s = (take (length w) s @ p) @ trim_prefixes ws (drop (length w) s)"
      by (metis append.assoc append_take_drop_id)
    moreover have "trim_prefixes ws s = trim_prefixes ws (drop (length w) s)"
      using Some by (simp add: trim_prefixes.simps [of ws s])
    ultimately show ?thesis by metis
  qed
qed

section \<open>Addresses\<close>

fun first_index :: "char \<Rightarrow> string \<Rightarrow> nat option" where
  "first_index c [] = None"
| "first_index c (x # xs) = (if x = c then Some 0 else map_option Suc (first_index c xs))"

definition last_index :: "char \<Rightarrow> string \<Rightarrow> nat option" where
  "last_index c s = map_option (\<lambda>i. length s - Suc i) (first_index c (rev s))"

text \<open>\<open>net.SplitHostPort\<close>, with its bracketed form for IPv6.\<close>

definition SplitHostPort :: "string \<Rightarrow> go_error + string \<times> string" where
  "SplitHostPort hp =
     (case last_index CHR '':'' hp of
        None \<Rightarrow> Inl (Errs ''missing port in address'')
      | Some i \<Rightarrow>
          let port = drop (Suc i) hp;
              finish = (\<lambda>host j k.
                if CHR ''['' \<in> set (drop j hp) then Inl (Errs ''unexpected '[' in address'')
                else if CHR '']'' \<in> set (drop k hp) then Inl (Errs ''unexpected ']' in address'')
                else Inr (host, port))
          in if hp ! 0 = CHR ''['' then
               (case first_index CHR '']'' hp of
                  None \<Rightarrow> Inl (Errs ''missing ']' in address'')
                | Some end \<Rightarrow>
                    if end + 1 = length hp then Inl (Errs ''missing port in address'')
                    else if end + 1 = i then finish (drop 1 (take end hp)) 1 (end + 1)
                    else if hp ! (end + 1) = CHR '':'' then Inl (Errs ''too many colons in address'')
                    else Inl (Errs ''missing port in address''))
             else let host = take i hp
                  in if CHR '':'' \<in> set host then Inl (Errs ''too many colons in address'')
                     else finish host 0 0)"

lemma first_index_none [simp]: "first_index c s = None \<longleftrightarrow> c \<notin> set s"
  by (induction s) auto

lemma first_index_append: "c \<notin> set a \<Longrightarrow> first_index c (a @ c # b) = Some (length a)"
  by (induction a) auto

lemma last_index_append: "c \<notin> set b \<Longrightarrow> last_index c (a @ c # b) = Some (length a)"
  using first_index_append [of c "rev b" "rev a"] by (simp add: last_index_def)

lemma last_index_none: "c \<notin> set s \<Longrightarrow> last_index c s = None"
  by (simp add: last_index_def)

text \<open>A host without colons or brackets, printed with its port, splits back.\<close>

lemma SplitHostPort_plain:
  assumes "CHR '':'' \<notin> set host" "CHR ''['' \<notin> set host" "CHR '']'' \<notin> set host"
    and "CHR '':'' \<notin> set port" "CHR ''['' \<notin> set port" "CHR '']'' \<notin> set port"
  shows "SplitHostPort (host @ '':'' @ port) = Inr (host, port)"
proof -
  have "(host @ '':'' @ port) ! 0 \<noteq> CHR ''[''"
    using assms(2) by (cases host) auto
  then show ?thesis
    using assms by (simp add: SplitHostPort_def last_index_append)
qed

text \<open>An IPv6 host in brackets, printed with its port, splits back without the brackets.\<close>

lemma SplitHostPort_bracket:
  assumes "CHR ''['' \<notin> set host" "CHR '']'' \<notin> set host"
    and "CHR '':'' \<notin> set port" "CHR ''['' \<notin> set port" "CHR '']'' \<notin> set port"
  shows "SplitHostPort (''['' @ host @ '']:'' @ port) = Inr (host, port)"
proof -
  let ?hp = "''['' @ host @ '']:'' @ port"
  have i: "last_index CHR '':'' ?hp = Some (length host + 2)"
    using last_index_append [OF assms(3), of "''['' @ host @ '']''"] by simp
  have e: "first_index CHR '']'' ?hp = Some (Suc (length host))"
    using first_index_append [of "CHR '']''" "''['' @ host" "'':'' @ port"] assms(2) by simp
  have "set (drop 1 ?hp) = set host \<union> {CHR '']'', CHR '':''} \<union> set port"
    and "set (drop (Suc (length host) + 1) ?hp) = insert CHR '':'' (set port)"
    and "drop (Suc (length host + 2)) ?hp = port" and "drop 1 (take (Suc (length host)) ?hp) = host"
    by auto
  then show ?thesis
    using assms unfolding SplitHostPort_def i e by (auto simp: Let_def)
qed

section \<open>Which strings net.ParseIP accepts\<close>

text \<open>
  \<open>net.ParseIP\<close> runs \<open>netip.ParseAddr\<close> and refuses zones. The source only tests the result for
  nil, so the model keeps what decides that: \<open>v4_fields\<close> is \<open>parseIPv4Fields\<close> (the value
  and length of the current octet, the number of finished octets), \<open>v6_loop\<close> the group loop of
  \<open>parseIPv6\<close> (the bytes written so far, whether an ellipsis was seen).
\<close>

fun v4_fields :: "nat \<Rightarrow> nat \<Rightarrow> nat \<Rightarrow> string \<Rightarrow> bool" where
  "v4_fields val digLen pos [] = (pos \<ge> 3)"
| "v4_fields val digLen pos (c # cs) =
     (if is_digit c then
        (if digLen = 1 \<and> val = 0 then False
         else let v = val * 10 + digit_val c in if v > 255 then False else v4_fields v (Suc digLen) pos cs)
      else if c = CHR ''.'' then
        (if digLen = 0 \<or> cs = [] then False
         else if pos = 3 then False
         else v4_fields 0 0 (Suc pos) cs)
      else False)"

definition is_hex :: "char \<Rightarrow> bool" where
  "is_hex c \<longleftrightarrow> is_digit c \<or> (of_char c :: nat) \<in> {97..102} \<or> (of_char c :: nat) \<in> {65..70}"

function v6_loop :: "nat \<Rightarrow> bool \<Rightarrow> string \<Rightarrow> (nat \<times> bool \<times> string) option" where
  "v6_loop i ell s =
     (if i \<ge> 16 then Some (i, ell, s)
      else
        let ds = takeWhile is_hex s; rest = dropWhile is_hex s
        in if ds = [] \<or> length ds > 4 then None
           else if rest \<noteq> [] \<and> hd rest = CHR ''.'' then
             (if \<not> ell \<and> i \<noteq> 12 then None
              else if i + 4 > 16 then None
              else if v4_fields 0 0 0 s then Some (i + 4, ell, []) else None)
           else
             (case rest of
                [] \<Rightarrow> Some (i + 2, ell, [])
              | c # more \<Rightarrow>
                  if c \<noteq> CHR '':'' then None
                  else if more = [] then None
                  else if hd more = CHR '':'' then
                    (if ell then None
                     else if tl more = [] then Some (i + 2, True, [])
                     else v6_loop (i + 2) True (tl more))
                  else v6_loop (i + 2) ell more))"
  by pat_completeness auto
termination
  by (relation "measure (\<lambda>(i, ell, s). 16 - i)") auto

declare v6_loop.simps [simp del]

definition parseIPv6_ok :: "string \<Rightarrow> bool" where
  "parseIPv6_ok s =
     (if CHR ''%'' \<in> set s then False
      else if take 2 s = ''::'' \<and> drop 2 s = [] then True
      else (let ell0 = (take 2 s = ''::''); s0 = (if ell0 then drop 2 s else s)
            in case v6_loop 0 ell0 s0 of
                 None \<Rightarrow> False
               | Some (i, ell, r) \<Rightarrow> r = [] \<and> (if i < 16 then ell else \<not> ell)))"

definition ParseIP_ok :: "string \<Rightarrow> bool" where
  "ParseIP_ok s =
     (case find (\<lambda>c. c = CHR ''.'' \<or> c = CHR '':'' \<or> c = CHR ''%'') s of
        Some c \<Rightarrow> if c = CHR ''.'' then v4_fields 0 0 0 s
                  else if c = CHR '':'' then parseIPv6_ok s else False
      | None \<Rightarrow> False)"

section \<open>Paths\<close>

fun split_on :: "char \<Rightarrow> string \<Rightarrow> string list" where
  "split_on c [] = [[]]"
| "split_on c (x # xs) =
     (if x = c then [] # split_on c xs
      else (case split_on c xs of [] \<Rightarrow> [[x]] | p # ps \<Rightarrow> (x # p) # ps))"

fun join_with :: "string \<Rightarrow> string list \<Rightarrow> string" where
  "join_with sep [] = []"
| "join_with sep [p] = p"
| "join_with sep (p # q # ps) = p @ sep @ join_with sep (q # ps)"

text \<open>The loop of \<open>filepath.Clean\<close> over the path elements, the output kept in reverse.\<close>

fun clean_elems :: "bool \<Rightarrow> string list \<Rightarrow> string list \<Rightarrow> string list" where
  "clean_elems rooted out [] = rev out"
| "clean_elems rooted out (e # es) =
     (if e = [] \<or> e = ''.'' then clean_elems rooted out es
      else if e = ''..'' then
        (case out of
           p # ps \<Rightarrow> if p \<noteq> ''..'' then clean_elems rooted ps es else clean_elems rooted (e # out) es
         | [] \<Rightarrow> if rooted then clean_elems rooted [] es else clean_elems rooted [e] es)
      else clean_elems rooted (e # out) es)"

definition path_Clean :: "string \<Rightarrow> string" where
  "path_Clean p =
     (if p = [] then ''.''
      else let rooted = (hd p = CHR ''/''); r = join_with ''/'' (clean_elems rooted [] (split_on CHR ''/'' p))
           in if rooted then CHR ''/'' # r else if r = [] then ''.'' else r)"

definition path_Join :: "string list \<Rightarrow> string" where
  "path_Join es =
     (let ne = filter (\<lambda>e. e \<noteq> []) es in if ne = [] then [] else path_Clean (join_with ''/'' ne))"

lemma split_on_not_Nil [simp]: "split_on c s \<noteq> []"
  by (induction s) (auto split: list.splits)

lemma split_on_plain [simp]: "c \<notin> set s \<Longrightarrow> split_on c s = [s]"
  by (induction s) auto

lemma split_on_append: "split_on c (a @ c # b) = split_on c a @ split_on c b"
  by (induction a) (auto split: list.splits)

end
