(* ===== verification/Routes_Internal.thy ===== *)
theory Routes_Internal
  imports Routes_Gateway Firewall_Lib Go_Strings
begin

text \<open>
  The internal node's routes reconciler (\<open>reconcilers/routes/internalnode.go\<close>): per-overlay VRFs,
  ip rules, virtual-IP addresses, learned routes and firewall bridges, converged in this order on
  a host state and a firewall state. A failing List of VRFs, rules or bridges aborts the cycle;
  every other failure is collected and the cycle goes on.
\<close>

record rt_internal =
  ri_nodeName :: string
  ri_learned :: "(string, bgp_route) gomap"

definition ri_new :: "string \<Rightarrow> rt_internal" where
  "ri_new node = \<lparr>ri_nodeName = node, ri_learned = gm_empty\<rparr>"

text \<open>The order in which a call visits its maps; one list per overlay for the addresses.\<close>

record ri_order =
  ro_vrfs :: "nat list"
  ro_rules :: "nat list"
  ro_addrs :: "nat \<Rightarrow> nat list"
  ro_learned :: "nat list"
  ro_bridges :: "nat list"

definition ri_ApplyEvent :: "route_event \<Rightarrow> rt_internal \<Rightarrow> rt_internal" where
  "ri_ApplyEvent ev r =
     (if ev_Type ev = RouteWithdrawn
      then r\<lparr>ri_learned := gm_del (r_Prefix (ev_Route ev)) (ri_learned r)\<rparr>
      else r\<lparr>ri_learned := gm_put (r_Prefix (ev_Route ev)) (ev_Route ev) (ri_learned r)\<rparr>)"

definition vrfName :: "string \<Rightarrow> string" where
  "vrfName overlayName = ''pntfx-'' @ overlayName"

definition vrfTableID :: "string \<Rightarrow> go_error + u32" where
  "vrfTableID comm =
     (case SplitN2 CHR '':'' comm of
        [p0, p1] \<Rightarrow>
          (case ParseUint32 p1 of
             Inl err \<Rightarrow> Inl (Wrap (fmt_q ''parse community number in '' comm) err)
           | Inr n \<Rightarrow> Inr (of_nat n + 10000))
      | _ \<Rightarrow> Inl (Errs (fmt_q ''invalid community format '' comm)))"

abbreviation show_u32 :: "u32 \<Rightarrow> string" where
  "show_u32 w \<equiv> dec (unat w)"

section \<open>VRFs\<close>

definition ri_desiredVRFs :: "overlay list \<Rightarrow> (string, vrf) gomap" where
  "ri_desiredVRFs overlays =
     fold (\<lambda>ov desired.
       if community ov = [] then desired
       else (case vrfTableID (community ov) of
               Inl err \<Rightarrow> desired
             | Inr tid \<Rightarrow> gm_put (vrfName (ov_Name ov)) \<lparr>v_Name = vrfName (ov_Name ov), v_TableID = tid\<rparr> desired))
     overlays gm_empty"

definition ri_reconcileVRFs :: "nat list \<Rightarrow> 's routes \<Rightarrow> overlay list \<Rightarrow> 's \<times> go_error list
    \<Rightarrow> go_error option \<times> 's \<times> go_error list" where
  "ri_reconcileVRFs ns rt overlays st =
     (let desired = ri_desiredVRFs overlays
      in case ListVRFs rt (fst st) of
           Inl err \<Rightarrow> (Some (Wrap ''list VRFs'' err), st)
         | Inr actual \<Rightarrow>
             let st1 = go_for (\<lambda>v. gm_has desired (v_Name v)) (\<lambda>v. RemoveVRF rt (v_Name v))
                         (\<lambda>v. Wrap (fmt_s ''remove VRF '' (v_Name v))) actual st;
                 actualNames = go_index v_Name actual;
                 st2 = go_for (\<lambda>v. gm_has actualNames (v_Name v)) (\<lambda>v. EnsureVRF rt (v_Name v) (v_TableID v))
                         (\<lambda>v. Wrap (fmt_s ''ensure VRF '' (v_Name v))) (map snd (gm_range ns desired)) st1
             in (None, st2))"

section \<open>Rules\<close>

definition ri_desiredRules :: "overlay list \<Rightarrow> (u32, rule) gomap" where
  "ri_desiredRules overlays =
     fold (\<lambda>ov desired.
       if community ov = [] \<or> spec_VirtualCIDR (ov_Spec ov) = [] then desired
       else (case vrfTableID (community ov) of
               Inl err \<Rightarrow> desired
             | Inr tid \<Rightarrow> gm_put tid
                 \<lparr>ru_From = [], ru_To = spec_VirtualCIDR (ov_Spec ov), ru_TableID = tid, ru_Iif = [], ru_Oif = []\<rparr> desired))
     overlays gm_empty"

definition ri_reconcileRules :: "nat list \<Rightarrow> 's routes \<Rightarrow> overlay list \<Rightarrow> 's \<times> go_error list
    \<Rightarrow> go_error option \<times> 's \<times> go_error list" where
  "ri_reconcileRules ns rt overlays st =
     (let desired = ri_desiredRules overlays
      in case ListRules rt (fst st) of
           Inl err \<Rightarrow> (Some (Wrap ''list ip rules'' err), st)
         | Inr actual \<Rightarrow>
             let st1 = go_for (\<lambda>r. gm_has desired (ru_TableID r)) (RemoveRule rt)
                         (\<lambda>r. Wrap (fmt_s ''remove ip rule table '' (show_u32 (ru_TableID r)))) actual st;
                 actualTables = go_index ru_TableID actual;
                 st2 = go_for (\<lambda>r. gm_has actualTables (ru_TableID r)) (EnsureRule rt)
                         (\<lambda>r. Wrap (fmt_s ''ensure ip rule table '' (show_u32 (ru_TableID r))))
                         (map snd (gm_range ns desired)) st1
             in (None, st2))"

section \<open>Addresses\<close>

definition ri_desiredIPs :: "string \<Rightarrow> overlay \<Rightarrow> (string, unit) gomap" where
  "ri_desiredIPs node ov =
     fold (\<lambda>e m. if es_NodeName e = node \<and> es_Ready e \<and> es_VirtualIP e \<noteq> []
                 then gm_put (es_VirtualIP e) () m else m) (edges_of ov) gm_empty"

definition ri_overlayAddrs :: "nat list \<Rightarrow> string \<Rightarrow> 's routes \<Rightarrow> overlay \<Rightarrow> 's \<times> go_error list
    \<Rightarrow> 's \<times> go_error list" where
  "ri_overlayAddrs ns node rt ov st =
     (if community ov = [] then st
      else
        let v = vrfName (ov_Name ov); desiredIPs = ri_desiredIPs node ov
        in case ListAddrs rt v (fst st) of
             Inl err \<Rightarrow> (fst st, snd st @ [Wrap (fmt_s ''list addrs for VRF '' v) err])
           | Inr actual \<Rightarrow>
               let st1 = go_for (\<lambda>a. gm_has desiredIPs (a_IP a)) (\<lambda>a. RemoveAddr rt v (a_IP a))
                           (\<lambda>a. Wrap (fmt_s (fmt_s ''remove addr '' (a_IP a)) (fmt_s '' from VRF '' v))) actual st;
                   actualIPs = go_index a_IP actual
               in go_for (\<lambda>ip. gm_has actualIPs ip) (EnsureAddr rt v)
                    (\<lambda>ip. Wrap (fmt_s (fmt_s ''ensure addr '' ip) (fmt_s '' on VRF '' v)))
                    (map fst (gm_range ns desiredIPs)) st1)"

fun ri_reconcileAddrs :: "(nat \<Rightarrow> nat list) \<Rightarrow> string \<Rightarrow> 's routes \<Rightarrow> overlay list \<Rightarrow> 's \<times> go_error list
    \<Rightarrow> 's \<times> go_error list" where
  "ri_reconcileAddrs ch node rt [] st = st"
| "ri_reconcileAddrs ch node rt (ov # ovs) st =
     ri_reconcileAddrs (\<lambda>i. ch (Suc i)) node rt ovs (ri_overlayAddrs (ch 0) node rt ov st)"

section \<open>Routes\<close>

definition ri_communityMap :: "overlay list \<Rightarrow> (string, string \<times> u32) gomap" where
  "ri_communityMap overlays =
     fold (\<lambda>ov m.
       if community ov = [] then m
       else (case vrfTableID (community ov) of
               Inl err \<Rightarrow> m
             | Inr tid \<Rightarrow> gm_put (community ov) (ov_Name ov, tid) m)) overlays gm_empty"

definition ri_routesByTable :: "nat list \<Rightarrow> rt_internal \<Rightarrow> (string, string \<times> u32) gomap
    \<Rightarrow> (u32, rt_route list) gomap" where
  "ri_routesByTable ns r communityMap =
     fold (\<lambda>b m.
       case find (\<lambda>c. gm_has communityMap c) (r_Communities b) of
         None \<Rightarrow> m
       | Some c \<Rightarrow>
           (case gm_get communityMap c of
              None \<Rightarrow> m
            | Some (name, tid) \<Rightarrow>
                gm_put tid ((case gm_get m tid of None \<Rightarrow> [] | Some rs \<Rightarrow> rs) @
                  [\<lparr>rr_TableID = tid, rr_Dst = r_Prefix b, rr_Gw = r_NextHop b, rr_Dev = []\<rparr>]) m))
     (map snd (gm_range ns (ri_learned r))) gm_empty"

fun ri_syncTables :: "'s routes \<Rightarrow> (u32, rt_route list) gomap \<Rightarrow> overlay list \<Rightarrow> 's \<times> go_error list
    \<Rightarrow> 's \<times> go_error list" where
  "ri_syncTables rt routesByTable [] st = st"
| "ri_syncTables rt routesByTable (ov # ovs) (s, errs) =
     (if community ov = [] then ri_syncTables rt routesByTable ovs (s, errs)
      else (case vrfTableID (community ov) of
              Inl err \<Rightarrow> ri_syncTables rt routesByTable ovs (s, errs)
            | Inr tid \<Rightarrow>
                let desired = (case gm_get routesByTable tid of None \<Rightarrow> [] | Some rs \<Rightarrow> rs)
                in case SyncRoutes rt tid desired s of
                     (None, s') \<Rightarrow> ri_syncTables rt routesByTable ovs (s', errs)
                   | (Some err, s') \<Rightarrow> ri_syncTables rt routesByTable ovs
                       (s', errs @ [Wrap (fmt_s (fmt_s ''sync routes for overlay '' (ov_Name ov))
                                           (fmt_s '' table '' (show_u32 tid))) err])))"

definition ri_reconcileRoutes :: "nat list \<Rightarrow> rt_internal \<Rightarrow> 's routes \<Rightarrow> overlay list \<Rightarrow> 's \<times> go_error list
    \<Rightarrow> 's \<times> go_error list" where
  "ri_reconcileRoutes ns r rt overlays st =
     ri_syncTables rt (ri_routesByTable ns r (ri_communityMap overlays)) overlays st"

section \<open>Bridges\<close>

definition ri_desiredBridges :: "string \<Rightarrow> overlay list \<Rightarrow> (string \<times> string, bridge) gomap" where
  "ri_desiredBridges node overlays =
     fold (\<lambda>ov desired. fold (\<lambda>e desired.
       if es_NodeName e \<noteq> node \<or> \<not> es_Ready e \<or> es_VirtualIP e = [] \<or> es_PodIP e = [] then desired
       else gm_put (ov_Name ov, es_VirtualIP e)
              \<lparr>b_OverlayName = ov_Name ov, b_VirtualIP = es_VirtualIP e, b_PodIP = es_PodIP e\<rparr> desired)
       (edges_of ov) desired) overlays gm_empty"

definition ri_reconcileBridges :: "nat list \<Rightarrow> string \<Rightarrow> 'f firewall \<Rightarrow> overlay list \<Rightarrow> 'f \<times> go_error list
    \<Rightarrow> go_error option \<times> 'f \<times> go_error list" where
  "ri_reconcileBridges ns node fw overlays st =
     (let desired = ri_desiredBridges node overlays
      in case ListBridges fw (fst st) of
           Inl err \<Rightarrow> (Some (Wrap ''list firewall bridges'' err), st)
         | Inr actual \<Rightarrow>
             let st1 = go_for (\<lambda>b. gm_has desired (bridge_key b))
                         (\<lambda>b. RemoveBridge fw (b_OverlayName b) (b_VirtualIP b))
                         (\<lambda>b. Wrap (fmt_s (fmt_s ''remove bridge '' (b_OverlayName b)) (fmt_s ''/'' (b_VirtualIP b)))) actual st;
                 actualKeys = go_index bridge_key actual;
                 st2 = go_for (\<lambda>(k, b). gm_has actualKeys k)
                         (\<lambda>(k, b). EnsureBridge fw (b_OverlayName b) (b_VirtualIP b) (b_PodIP b))
                         (\<lambda>(k, b). Wrap (fmt_s (fmt_s ''ensure bridge '' (b_OverlayName b)) (fmt_s ''/'' (b_VirtualIP b))))
                         (gm_range ns desired) st1
             in (None, st2))"

section \<open>The reconcile cycle\<close>

definition ri_Reconcile :: "ri_order \<Rightarrow> 's routes \<Rightarrow> 'f firewall \<Rightarrow> rt_internal \<Rightarrow> overlay list \<Rightarrow> 's \<times> 'f
    \<Rightarrow> go_error option \<times> 's \<times> 'f" where
  "ri_Reconcile ord rt fw r overlays sf =
     (let (s, f) = sf
      in case ri_reconcileVRFs (ro_vrfs ord) rt overlays (s, []) of
           (Some err, s1, errs1) \<Rightarrow> (Some err, s1, f)
         | (None, s1, errs1) \<Rightarrow>
      (case ri_reconcileRules (ro_rules ord) rt overlays (s1, errs1) of
           (Some err, s2, errs2) \<Rightarrow> (Some err, s2, f)
         | (None, s2, errs2) \<Rightarrow>
      (case ri_reconcileAddrs (ro_addrs ord) (ri_nodeName r) rt overlays (s2, errs2) of
           (s3, errs3) \<Rightarrow>
      (case ri_reconcileRoutes (ro_learned ord) r rt overlays (s3, errs3) of
           (s4, errs4) \<Rightarrow>
      (case ri_reconcileBridges (ro_bridges ord) (ri_nodeName r) fw overlays (f, errs4) of
           (Some err, f5, errs5) \<Rightarrow> (Some err, s4, f5)
         | (None, f5, errs5) \<Rightarrow> (join_errs errs5, s4, f5))))))"

section \<open>Table identifiers\<close>

lemma vrfTableID_print:
  assumes "CHR '':'' \<notin> set a" "n < 2 ^ 32"
  shows "vrfTableID (a @ '':'' @ dec n) = Inr (of_nat n + 10000)"
proof -
  have "SplitN2 CHR '':'' (a @ '':'' @ dec n) = [a, dec n]" using assms(1) by simp
  then show ?thesis using assms(2) by (simp add: vrfTableID_def)
qed

lemma table_unat: "unat (of_nat n + 10000 :: u32) = (n + 10000) mod 2 ^ 32"
  by (simp add: unat_word_ariths unat_of_nat mod_add_left_eq)

lemma table_unat_small: "n < 2 ^ 32 - 10000 \<Longrightarrow> unat (of_nat n + 10000 :: u32) = n + 10000"
  by (simp add: table_unat)

lemma vrfName_inject [simp]: "vrfName a = vrfName b \<longleftrightarrow> a = b"
  by (simp add: vrfName_def)

text \<open>The table of an overlay, where it has one.\<close>

definition ri_table :: "overlay \<Rightarrow> u32 option" where
  "ri_table ov = (if community ov = [] then None
     else case vrfTableID (community ov) of Inl _ \<Rightarrow> None | Inr tid \<Rightarrow> Some tid)"

section \<open>The wanted state in closed form\<close>

text \<open>All builders store one entry per overlay or edge that passes the guards.\<close>

lemma fold_opt_put:
  "fold (\<lambda>x m. case g x of None \<Rightarrow> m | Some (k, v) \<Rightarrow> gm_put k v m) xs m =
     fold (\<lambda>(k, v). gm_put k v) (List.map_filter g xs) m"
  by (induction xs arbitrary: m) (auto simp: List.map_filter_simps split: option.splits)

definition vrf_entry :: "overlay \<Rightarrow> (string \<times> vrf) option" where
  "vrf_entry ov = map_option (\<lambda>t. (vrfName (ov_Name ov), \<lparr>v_Name = vrfName (ov_Name ov), v_TableID = t\<rparr>)) (ri_table ov)"

definition rule_entry :: "overlay \<Rightarrow> (u32 \<times> rule) option" where
  "rule_entry ov = (if spec_VirtualCIDR (ov_Spec ov) = [] then None else map_option (\<lambda>t.
     (t, \<lparr>ru_From = [], ru_To = spec_VirtualCIDR (ov_Spec ov), ru_TableID = t, ru_Iif = [], ru_Oif = []\<rparr>)) (ri_table ov))"

definition comm_entry :: "overlay \<Rightarrow> (string \<times> string \<times> u32) option" where
  "comm_entry ov = map_option (\<lambda>t. (community ov, ov_Name ov, t)) (ri_table ov)"

definition bridge_entry :: "string \<Rightarrow> overlay \<times> edge_status \<Rightarrow> ((string \<times> string) \<times> bridge) option" where
  "bridge_entry node = (\<lambda>(ov, e).
     if es_NodeName e \<noteq> node \<or> \<not> es_Ready e \<or> es_VirtualIP e = [] \<or> es_PodIP e = [] then None
     else Some ((ov_Name ov, es_VirtualIP e),
       \<lparr>b_OverlayName = ov_Name ov, b_VirtualIP = es_VirtualIP e, b_PodIP = es_PodIP e\<rparr>))"

definition overlay_edges :: "overlay list \<Rightarrow> (overlay \<times> edge_status) list" where
  "overlay_edges overlays = concat (map (\<lambda>ov. map (Pair ov) (edges_of ov)) overlays)"

lemma vrfs_fold:
  "ri_desiredVRFs overlays = fold (\<lambda>(k, v). gm_put k v) (List.map_filter vrf_entry overlays) gm_empty"
proof -
  have "(\<lambda>ov desired. if community ov = [] then desired
       else (case vrfTableID (community ov) of Inl err \<Rightarrow> desired
             | Inr tid \<Rightarrow> gm_put (vrfName (ov_Name ov)) \<lparr>v_Name = vrfName (ov_Name ov), v_TableID = tid\<rparr> desired))
      = (\<lambda>x m. case vrf_entry x of None \<Rightarrow> m | Some (k, v) \<Rightarrow> gm_put k v m)"
    by (auto simp: fun_eq_iff vrf_entry_def ri_table_def split: sum.splits)
  then show ?thesis unfolding ri_desiredVRFs_def by (simp add: fold_opt_put)
qed

lemma rules_fold:
  "ri_desiredRules overlays = fold (\<lambda>(k, v). gm_put k v) (List.map_filter rule_entry overlays) gm_empty"
proof -
  have "(\<lambda>ov desired. if community ov = [] \<or> spec_VirtualCIDR (ov_Spec ov) = [] then desired
       else (case vrfTableID (community ov) of Inl err \<Rightarrow> desired
             | Inr tid \<Rightarrow> gm_put tid
                 \<lparr>ru_From = [], ru_To = spec_VirtualCIDR (ov_Spec ov), ru_TableID = tid, ru_Iif = [], ru_Oif = []\<rparr> desired))
      = (\<lambda>x m. case rule_entry x of None \<Rightarrow> m | Some (k, v) \<Rightarrow> gm_put k v m)"
    by (auto simp: fun_eq_iff rule_entry_def ri_table_def split: sum.splits)
  then show ?thesis unfolding ri_desiredRules_def by (simp add: fold_opt_put)
qed

lemma comms_fold:
  "ri_communityMap overlays = fold (\<lambda>(k, v). gm_put k v) (List.map_filter comm_entry overlays) gm_empty"
proof -
  have "(\<lambda>ov m. if community ov = [] then m
       else (case vrfTableID (community ov) of Inl err \<Rightarrow> m
             | Inr tid \<Rightarrow> gm_put (community ov) (ov_Name ov, tid) m))
      = (\<lambda>x m. case comm_entry x of None \<Rightarrow> m | Some (k, v) \<Rightarrow> gm_put k v m)"
    by (auto simp: fun_eq_iff comm_entry_def ri_table_def split: sum.splits)
  then show ?thesis unfolding ri_communityMap_def by (simp add: fold_opt_put)
qed

lemma bridges_fold:
  "ri_desiredBridges node overlays =
     fold (\<lambda>(k, v). gm_put k v) (List.map_filter (bridge_entry node) (overlay_edges overlays)) gm_empty"
proof -
  have g: "fold (\<lambda>e desired.
       if es_NodeName e \<noteq> node \<or> \<not> es_Ready e \<or> es_VirtualIP e = [] \<or> es_PodIP e = [] then desired
       else gm_put (ov_Name ov, es_VirtualIP e)
              \<lparr>b_OverlayName = ov_Name ov, b_VirtualIP = es_VirtualIP e, b_PodIP = es_PodIP e\<rparr> desired) es m
     = fold (\<lambda>x m. case bridge_entry node x of None \<Rightarrow> m | Some (k, v) \<Rightarrow> gm_put k v m) (map (Pair ov) es) m" for ov es m
    by (induction es arbitrary: m) (auto simp: bridge_entry_def)
  show ?thesis
    unfolding ri_desiredBridges_def overlay_edges_def g fold_opt_put [symmetric] fold_concat_map ..
qed

lemma in_map_filter: "y \<in> set (List.map_filter g xs) \<longleftrightarrow> (\<exists>x \<in> set xs. g x = Some y)"
  by (induction xs) (auto simp: List.map_filter_simps split: option.splits)

lemma vrfs_keyed: "keyed_by v_Name (ri_desiredVRFs overlays)"
  unfolding vrfs_fold
  by (rule keyed_byI) (auto simp: gm.wf_put_all in_map_filter vrf_entry_def dest!: put_all_SomeD)

lemma rules_keyed: "keyed_by ru_TableID (ri_desiredRules overlays)"
  unfolding rules_fold
  by (rule keyed_byI) (auto simp: gm.wf_put_all in_map_filter rule_entry_def split: if_splits dest!: put_all_SomeD)

lemma bridges_keyed: "keyed_by bridge_key (ri_desiredBridges node overlays)"
  unfolding bridges_fold
proof (rule keyed_byI)
  fix k v
  assume "gm_get (fold (\<lambda>(k, v). gm_put k v) (List.map_filter (bridge_entry node) (overlay_edges overlays)) gm_empty) k = Some v"
  then obtain x where "bridge_entry node x = Some (k, v)" by (auto simp: in_map_filter dest!: put_all_SomeD)
  then show "bridge_key v = k" by (cases x) (auto simp: bridge_entry_def bridge_key_def split: if_splits)
qed (simp add: gm.wf_put_all)

lemma bridges_has:
  "gm_has (ri_desiredBridges node overlays) k \<longleftrightarrow> (\<exists>ov \<in> set overlays. \<exists>e \<in> set (edges_of ov).
     es_NodeName e = node \<and> es_Ready e \<and> es_VirtualIP e \<noteq> [] \<and> es_PodIP e \<noteq> [] \<and> k = (ov_Name ov, es_VirtualIP e))"
  unfolding bridges_fold put_all_has by (force simp: image_iff in_map_filter overlay_edges_def bridge_entry_def split: if_splits)

lemma desiredIPs_wf_has:
  "gm_wf (ri_desiredIPs node ov) \<and> (gm_has (ri_desiredIPs node ov) ip \<longleftrightarrow>
     ip \<noteq> [] \<and> (\<exists>e \<in> set (edges_of ov). es_NodeName e = node \<and> es_Ready e \<and> es_VirtualIP e = ip))"
proof -
  have "gm_wf m \<Longrightarrow> gm_wf (fold (\<lambda>e m. if es_NodeName e = node \<and> es_Ready e \<and> es_VirtualIP e \<noteq> []
          then gm_put (es_VirtualIP e) () m else m) es m) \<and>
      (gm_has (fold (\<lambda>e m. if es_NodeName e = node \<and> es_Ready e \<and> es_VirtualIP e \<noteq> []
          then gm_put (es_VirtualIP e) () m else m) es m) ip \<longleftrightarrow>
        gm_has m ip \<or> ip \<noteq> [] \<and> (\<exists>e \<in> set es. es_NodeName e = node \<and> es_Ready e \<and> es_VirtualIP e = ip))"
    for es and m :: "(string, unit) gomap"
    by (induction es arbitrary: m) auto
  from this [of gm_empty "edges_of ov"] show ?thesis unfolding ri_desiredIPs_def by simp
qed

lemmas desiredIPs_wf = desiredIPs_wf_has [THEN conjunct1]
lemmas desiredIPs_has = desiredIPs_wf_has [THEN conjunct2]

end
