(* ===== verification/Routes_Internal_Correct.thy ===== *)
theory Routes_Internal_Correct
  imports Routes_Internal
begin

text \<open>
  Correctness of the internal node's routes reconciler against the contracts of \<open>Routes\<close> and
  \<open>Firewall\<close>: one lemma per phase, then the cycle.
\<close>

section \<open>What the internal node has learned and wants\<close>

lemma ri_learned_history:
  "gm_wf (ri_learned (fold ri_ApplyEvent evs (ri_new node))) \<and>
   gm_get (ri_learned (fold ri_ApplyEvent evs (ri_new node))) p = learned_route p evs"
proof (induction evs arbitrary: p rule: rev_induct)
  case Nil
  show ?case by (simp add: ri_new_def)
next
  case (snoc ev evs)
  then show ?case by (auto simp: ri_ApplyEvent_def learned_route_snoc)
qed

lemma ri_nodeName_history: "ri_nodeName (fold ri_ApplyEvent evs r) = ri_nodeName r"
  by (induction evs arbitrary: r) (auto simp: ri_ApplyEvent_def)

text \<open>The routes filed for a table; a missing entry is Go's nil slice.\<close>

abbreviation wanted_in :: "(u32, rt_route list) gomap \<Rightarrow> u32 \<Rightarrow> rt_route list" where
  "wanted_in m t \<equiv> case gm_get m t of None \<Rightarrow> [] | Some rs \<Rightarrow> rs"

text \<open>The table a learned route goes to: the one of the first of its communities that is known.\<close>

definition table_of :: "(string, string \<times> u32) gomap \<Rightarrow> bgp_route \<Rightarrow> u32 option" where
  "table_of cm b = (case find (gm_has cm) (r_Communities b) of
     None \<Rightarrow> None | Some c \<Rightarrow> map_option snd (gm_get cm c))"

definition vrf_route :: "u32 \<Rightarrow> bgp_route \<Rightarrow> rt_route" where
  "vrf_route t b = \<lparr>rr_TableID = t, rr_Dst = r_Prefix b, rr_Gw = r_NextHop b, rr_Dev = []\<rparr>"

lemma routesByTable_step:
  "(case find (\<lambda>c. gm_has cm c) (r_Communities b) of None \<Rightarrow> m
    | Some c \<Rightarrow> (case gm_get cm c of None \<Rightarrow> m
        | Some (name, tid) \<Rightarrow> gm_put tid (wanted_in m tid @
            [\<lparr>rr_TableID = tid, rr_Dst = r_Prefix b, rr_Gw = r_NextHop b, rr_Dev = []\<rparr>]) m))
   = (case table_of cm b of None \<Rightarrow> m | Some t \<Rightarrow> gm_put t (wanted_in m t @ [vrf_route t b]) m)"
  by (auto simp: table_of_def vrf_route_def split: option.splits)

lemma routesByTable_eq:
  "wanted_in (ri_routesByTable ns r cm) t =
     map (vrf_route t) (filter (\<lambda>b. table_of cm b = Some t) (map snd (gm_range ns (ri_learned r))))"
proof -
  have "gm_wf m \<Longrightarrow> wanted_in (fold (\<lambda>b m. case table_of cm b of None \<Rightarrow> m
        | Some t \<Rightarrow> gm_put t (wanted_in m t @ [vrf_route t b]) m) bs m) t
      = wanted_in m t @ map (vrf_route t) (filter (\<lambda>b. table_of cm b = Some t) bs)" for bs m
  proof (induction bs arbitrary: m)
    case (Cons b bs)
    then show ?case by (cases "table_of cm b") auto
  qed simp
  from this [OF gm.wf_empty] show ?thesis unfolding ri_routesByTable_def routesByTable_step by simp
qed

lemma comms_get:
  "gm_has (ri_communityMap overlays) c \<longleftrightarrow> (\<exists>ov \<in> set overlays. community ov = c \<and> ri_table ov \<noteq> None)"
  "gm_get (ri_communityMap overlays) c = Some (n, t) \<Longrightarrow> vrfTableID c = Inr t"
proof -
  show "gm_has (ri_communityMap overlays) c \<longleftrightarrow> (\<exists>ov \<in> set overlays. community ov = c \<and> ri_table ov \<noteq> None)"
    unfolding comms_fold put_all_has by (force simp: in_map_filter comm_entry_def image_iff)
  assume "gm_get (ri_communityMap overlays) c = Some (n, t)"
  then obtain ov where "comm_entry ov = Some (c, n, t)"
    unfolding comms_fold by (auto simp: in_map_filter dest!: put_all_SomeD)
  then show "vrfTableID c = Inr t" by (auto simp: comm_entry_def ri_table_def split: if_splits sum.splits)
qed

lemma table_of_iff:
  "table_of (ri_communityMap overlays) b = Some t \<longleftrightarrow>
     (\<exists>c. find (\<lambda>c. \<exists>ov \<in> set overlays. community ov = c \<and> ri_table ov \<noteq> None) (r_Communities b) = Some c \<and>
          vrfTableID c = Inr t)"
proof -
  have f: "find (gm_has (ri_communityMap overlays)) cs =
      find (\<lambda>c. \<exists>ov \<in> set overlays. community ov = c \<and> ri_table ov \<noteq> None) cs" for cs
    by (induction cs) (auto simp: comms_get)
  have g: "\<exists>n t. gm_get (ri_communityMap overlays) c = Some (n, t) \<and> vrfTableID c = Inr t"
    if "find (gm_has (ri_communityMap overlays)) cs = Some c" for c cs
  proof -
    have "gm_has (ri_communityMap overlays) c" using that by (auto simp: find_Some_iff)
    then show ?thesis using comms_get(2) by (force simp: gm_has_iff)
  qed
  show ?thesis
    unfolding table_of_def f [symmetric] using g [of "r_Communities b"] by (auto split: option.splits)
qed

section \<open>The phases on the host\<close>

lemma syncTables_step:
  "ri_syncTables rt m (ov # ovs) (s, es) =
    (case ri_table ov of None \<Rightarrow> ri_syncTables rt m ovs (s, es)
     | Some t \<Rightarrow> ri_syncTables rt m ovs (snd (SyncRoutes rt t (wanted_in m t) s),
         (case fst (SyncRoutes rt t (wanted_in m t) s) of None \<Rightarrow> es
          | Some err \<Rightarrow> es @ [Wrap (fmt_s (fmt_s ''sync routes for overlay '' (ov_Name ov))
                                           (fmt_s '' table '' (show_u32 t))) err])))"
  by (auto simp: ri_table_def Let_def split: sum.splits prod.splits option.splits)

text \<open>The addresses of one VRF form a store of their own.\<close>

sublocale routes_contract \<subseteq> vip: keyed_store "\<lambda>ip. ip" "\<lambda>s. {ip. (v, ip) \<in> addrs s}"
    "EnsureAddr rt v" "RemoveAddr rt v" for v
proof (unfold_locales, goal_cases)
  case (1 ip s s')
  then show ?case using addr.add_ok [of "(v, ip)" s s'] by simp
next
  case (2 ip s r s' y)
  then show ?case using addr.add_only [of "(v, ip)" s r s' "(v, y)"] by simp
next
  case (3 ip s r s' y)
  then show ?case using addr.add_frame [of "(v, ip)" s r s' "(v, y)"] by simp
next
  case (4 ip s s')
  then show ?case using addr.rem_ok [of "(v, ip)" s s'] by simp
next
  case (5 ip s r s' y)
  then show ?case using addr.rem_only [of "(v, ip)" s r s' "(v, y)"] by simp
next
  case (6 ip s r s' y)
  then show ?case using addr.rem_frame [of "(v, ip)" s r s' "(v, y)"] by simp
qed

context vrf_contract
begin

lemma VRFs_spec:
  assumes rec: "ri_reconcileVRFs ns rt overlays (s, es) = (None, s', es')"
  shows "sync_result v_Name (ri_desiredVRFs overlays) (vrfs s) (vrfs s') (es' = [])" "es' = [] \<Longrightarrow> es = []"
proof -
  let ?D = "ri_desiredVRFs overlays"
  obtain vs where l: "ListVRFs rt s = Inr vs"
    using rec by (auto simp: ri_reconcileVRFs_def Let_def split: sum.splits)
  have lv: "set vs = vrfs s" by (rule list_vrfs [OF l])
  obtain s1 e1 where 1: "go_for (\<lambda>v. gm_has ?D (v_Name v)) (\<lambda>v. RemoveVRF rt (v_Name v))
      (\<lambda>v. Wrap (fmt_s ''remove VRF '' (v_Name v))) vs (s, es) = (s1, e1)" by (rule prod.exhaust)
  have 2: "go_for (\<lambda>v. v_Name v \<in> v_Name ` vrfs s) (\<lambda>v. EnsureVRF rt (v_Name v) (v_TableID v))
      (\<lambda>v. Wrap (fmt_s ''ensure VRF '' (v_Name v))) (map snd (gm_range ns ?D)) (s1, e1) = (s', es')"
    using rec l 1 lv by (simp add: ri_reconcileVRFs_def Let_def)
  show "es' = [] \<Longrightarrow> es = []" using go_for_no_new_errs [OF 1] go_for_no_new_errs [OF 2] by simp
  then show "sync_result v_Name ?D (vrfs s) (vrfs s') (es' = [])"
    using go_for_no_new_errs [OF 2] by (intro vrf.sync_resultI [OF vrfs_keyed lv 1 refl 2]) auto
qed

end

context routes_contract
begin

lemma Rules_spec:
  assumes rec: "ri_reconcileRules ns rt overlays (s, es) = (None, s', es')"
  shows "sync_result ru_TableID (ri_desiredRules overlays) (rules s) (rules s') (es' = [])"
    "es' = [] \<Longrightarrow> es = []" "vrfs s' = vrfs s"
proof -
  let ?D = "ri_desiredRules overlays"
  obtain rs where l: "ListRules rt s = Inr rs"
    using rec by (auto simp: ri_reconcileRules_def Let_def split: sum.splits)
  have lv: "set rs = rules s" by (rule list_rules [OF l])
  obtain s1 e1 where 1: "go_for (\<lambda>r. gm_has ?D (ru_TableID r)) (RemoveRule rt)
      (\<lambda>r. Wrap (fmt_s ''remove ip rule table '' (show_u32 (ru_TableID r)))) rs (s, es) = (s1, e1)"
    by (rule prod.exhaust)
  have 2: "go_for (\<lambda>r. ru_TableID r \<in> ru_TableID ` rules s) (EnsureRule rt)
      (\<lambda>r. Wrap (fmt_s ''ensure ip rule table '' (show_u32 (ru_TableID r)))) (map snd (gm_range ns ?D)) (s1, e1) = (s', es')"
    using rec l 1 lv by (simp add: ri_reconcileRules_def Let_def)
  show "es' = [] \<Longrightarrow> es = []" using go_for_no_new_errs [OF 1] go_for_no_new_errs [OF 2] by simp
  then show "sync_result ru_TableID ?D (rules s) (rules s') (es' = [])"
    using go_for_no_new_errs [OF 2] by (intro rule.sync_resultI [OF rules_keyed lv 1 refl 2]) auto
  have "vrfs s1 = vrfs s" "vrfs s' = vrfs s1"
    by (rule go_for_frame [OF 1], simp add: rule_frame, rule go_for_frame [OF 2], simp add: rule_frame)
  then show "vrfs s' = vrfs s" by simp
qed

lemma addr_other:
  assumes "v' \<noteq> v"
  shows "{ip. (v', ip) \<in> addrs (snd (EnsureAddr rt v x s))} = {ip. (v', ip) \<in> addrs s}"
    and "{ip. (v', ip) \<in> addrs (snd (RemoveAddr rt v x s))} = {ip. (v', ip) \<in> addrs s}"
proof -
  obtain r t where a: "EnsureAddr rt v x s = (r, t)" by force
  show "{ip. (v', ip) \<in> addrs (snd (EnsureAddr rt v x s))} = {ip. (v', ip) \<in> addrs s}"
    using addr.add_only [of "(v, x)" s r t] addr.add_frame [of "(v, x)" s r t] assms a by auto
  obtain r t where b: "RemoveAddr rt v x s = (r, t)" by force
  show "{ip. (v', ip) \<in> addrs (snd (RemoveAddr rt v x s))} = {ip. (v', ip) \<in> addrs s}"
    using addr.rem_only [of "(v, x)" s r t] addr.rem_frame [of "(v, x)" s r t] assms b by auto
qed

text \<open>The wanted addresses of an overlay, filed under themselves.\<close>

lemma self_keyed:
  assumes "gm_wf m"
  defines "D \<equiv> map (\<lambda>(k, u). (k, k)) m"
  shows "keyed_by (\<lambda>k. k) D" "gm_has D k \<longleftrightarrow> gm_has m k" "map snd (gm_range ns D) = map fst (gm_range ns m)"
proof -
  have f: "map fst D = map fst m" by (simp add: D_def case_prod_beta comp_def)
  have wf: "gm_wf D" using assms(1) unfolding gm_wf_def f .
  moreover have "v = k" if "(k, v) \<in> set D" for k v using that by (auto simp: D_def)
  ultimately show "keyed_by (\<lambda>k. k) D" by (intro keyed_byI) (auto simp flip: gm_set_get [OF wf])
  have "{k. gm_has D k} = {k. gm_has m k}" unfolding gm_keys f ..
  then show "gm_has D k \<longleftrightarrow> gm_has m k" by blast
  show "map snd (gm_range ns D) = map fst (gm_range ns m)"
    by (simp add: D_def gm_range_def shuffle_map case_prod_beta comp_def)
qed

lemma overlayAddrs_spec:
  assumes c: "community ov \<noteq> []" and rec: "ri_overlayAddrs ns node rt ov (s, es) = (s', es')"
  shows "es' = [] \<Longrightarrow> {ip. (vrfName (ov_Name ov), ip) \<in> addrs s'} = {ip. gm_has (ri_desiredIPs node ov) ip}"
    and "es' = [] \<Longrightarrow> es = []"
    and "v' \<noteq> vrfName (ov_Name ov) \<Longrightarrow> {ip. (v', ip) \<in> addrs s'} = {ip. (v', ip) \<in> addrs s}"
    and "vrfs s' = vrfs s" and "rules s' = rules s"
proof -
  let ?v = "vrfName (ov_Name ov)" and ?m = "ri_desiredIPs node ov"
  let ?D = "map (\<lambda>(k, u). (k, k)) ?m"
  note D = self_keyed [OF desiredIPs_wf [of node ov]]
  let ?w1 = "\<lambda>ip. Wrap (fmt_s (fmt_s ''remove addr '' ip) (fmt_s '' from VRF '' ?v))"
  let ?w2 = "\<lambda>ip. Wrap (fmt_s (fmt_s ''ensure addr '' ip) (fmt_s '' on VRF '' ?v))"
  have "(es' = [] \<longrightarrow> {ip. (?v, ip) \<in> addrs s'} = {ip. gm_has ?m ip}) \<and> (es' = [] \<longrightarrow> es = []) \<and>
      (v' \<noteq> ?v \<longrightarrow> {ip. (v', ip) \<in> addrs s'} = {ip. (v', ip) \<in> addrs s}) \<and> vrfs s' = vrfs s \<and> rules s' = rules s"
  proof (cases "ListAddrs rt ?v s")
    case (Inl err)
    then show ?thesis using rec c by (auto simp: ri_overlayAddrs_def Let_def)
  next
    case (Inr as)
    have la: "set (map a_IP as) = {ip. (?v, ip) \<in> addrs s}" using list_addrs [OF Inr] by simp
    obtain s1 e1 where 1: "go_for (\<lambda>ip. gm_has ?D ip) (RemoveAddr rt ?v) ?w1 (map a_IP as) (s, es) = (s1, e1)"
      by (rule prod.exhaust)
    have 2: "go_for (\<lambda>ip. ip \<in> (\<lambda>ip. ip) ` {ip. (?v, ip) \<in> addrs s}) (EnsureAddr rt ?v) ?w2
        (map snd (gm_range ns ?D)) (s1, e1) = (s', es')"
      using rec c Inr 1 by (simp add: ri_overlayAddrs_def Let_def go_for_map D flip: la)
    have "sync_result (\<lambda>ip. ip) ?D {ip. (?v, ip) \<in> addrs s} {ip. (?v, ip) \<in> addrs s'} (es' = [])"
      using go_for_no_new_errs [OF 1] go_for_no_new_errs [OF 2]
      by (intro vip.sync_resultI [OF D(1) la 1 refl 2]) auto
    moreover have "synced (\<lambda>ip. ip) ?D V = {ip. gm_has ?m ip}" for V
      using keys_synced [OF D(1), of V] by (simp add: D(2))
    moreover have "{ip. (v', ip) \<in> addrs s1} = {ip. (v', ip) \<in> addrs s}"
        "{ip. (v', ip) \<in> addrs s'} = {ip. (v', ip) \<in> addrs s1}" if "v' \<noteq> ?v"
      using that by (intro go_for_frame [OF 1] go_for_frame [OF 2] addr_other; simp)+
    moreover have "vrfs s1 = vrfs s" "rules s1 = rules s" by (rule go_for_frame [OF 1], simp add: addr_frame)+
    moreover have "vrfs s' = vrfs s1" "rules s' = rules s1" by (rule go_for_frame [OF 2], simp add: addr_frame)+
    ultimately show ?thesis
      using go_for_no_new_errs [OF 1] go_for_no_new_errs [OF 2] by (auto simp: sync_result_def)
  qed
  then show "es' = [] \<Longrightarrow> {ip. (?v, ip) \<in> addrs s'} = {ip. gm_has ?m ip}" and "es' = [] \<Longrightarrow> es = []"
    and "v' \<noteq> ?v \<Longrightarrow> {ip. (v', ip) \<in> addrs s'} = {ip. (v', ip) \<in> addrs s}"
    and "vrfs s' = vrfs s" and "rules s' = rules s"
    by blast+
qed

lemma Addrs_errs: "ri_reconcileAddrs ch node rt ovs (s, es) = (s', es') \<Longrightarrow> es' = [] \<Longrightarrow> es = []"
proof (induction ovs arbitrary: ch s es)
  case (Cons ov ovs)
  obtain s1 e1 where 1: "ri_overlayAddrs (ch 0) node rt ov (s, es) = (s1, e1)" by (rule prod.exhaust)
  then have "e1 = []" using Cons by simp
  then show ?case using overlayAddrs_spec(2) [OF _ 1] 1 by (cases "community ov = []") (auto simp: ri_overlayAddrs_def)
qed simp

lemma Addrs_frame:
  "ri_reconcileAddrs ch node rt ovs (s, es) = (s', es') \<Longrightarrow>
     vrfs s' = vrfs s \<and> rules s' = rules s \<and>
     (v' \<notin> (\<lambda>ov. vrfName (ov_Name ov)) ` {ov \<in> set ovs. community ov \<noteq> []} \<longrightarrow>
       {ip. (v', ip) \<in> addrs s'} = {ip. (v', ip) \<in> addrs s})"
proof (induction ovs arbitrary: ch s es)
  case (Cons ov ovs)
  obtain s1 e1 where 1: "ri_overlayAddrs (ch 0) node rt ov (s, es) = (s1, e1)" by (rule prod.exhaust)
  have 2: "vrfs s' = vrfs s1 \<and> rules s' = rules s1 \<and>
     (v' \<notin> (\<lambda>ov. vrfName (ov_Name ov)) ` {ov \<in> set ovs. community ov \<noteq> []} \<longrightarrow>
       {ip. (v', ip) \<in> addrs s'} = {ip. (v', ip) \<in> addrs s1})"
    using Cons.IH Cons.prems 1 by simp
  show ?case
  proof (cases "community ov = []")
    case True
    then show ?thesis using 1 2 by (auto simp: ri_overlayAddrs_def)
  next
    case False
    then have "v' \<noteq> vrfName (ov_Name ov)" if "v' \<notin> (\<lambda>ov. vrfName (ov_Name ov)) ` {o' \<in> set (ov # ovs). community o' \<noteq> []}"
      using that by auto
    moreover have "v' \<notin> (\<lambda>ov. vrfName (ov_Name ov)) ` {o' \<in> set ovs. community o' \<noteq> []}"
      if "v' \<notin> (\<lambda>ov. vrfName (ov_Name ov)) ` {o' \<in> set (ov # ovs). community o' \<noteq> []}"
      using that by auto
    ultimately show ?thesis using 2 overlayAddrs_spec(3-5) [OF False 1] by presburger
  qed
qed simp

lemma Addrs_spec:
  assumes "ri_reconcileAddrs ch node rt ovs (s, es) = (s', [])"
    and "distinct (map ov_Name ovs)" and "ov \<in> set ovs" and c: "community ov \<noteq> []"
  shows "{ip. (vrfName (ov_Name ov), ip) \<in> addrs s'} = {ip. gm_has (ri_desiredIPs node ov) ip}"
  using assms(1-3)
proof (induction ovs arbitrary: ch s es)
  case (Cons o1 ovs)
  obtain s1 e1 where 1: "ri_overlayAddrs (ch 0) node rt o1 (s, es) = (s1, e1)" by (rule prod.exhaust)
  have 2: "ri_reconcileAddrs (\<lambda>i. ch (Suc i)) node rt ovs (s1, e1) = (s', [])" using Cons.prems 1 by simp
  show ?case
  proof (cases "ov \<in> set ovs")
    case True
    then show ?thesis using Cons.IH [OF 2] Cons.prems by simp
  next
    case False
    then have ov: "o1 = ov" using Cons.prems by simp
    have "{ip. (vrfName (ov_Name ov), ip) \<in> addrs s1} = {ip. gm_has (ri_desiredIPs node ov) ip}"
      using overlayAddrs_spec(1) [OF c] 1 Addrs_errs [OF 2] ov by simp
    moreover have "vrfName (ov_Name ov) \<notin> (\<lambda>ov. vrfName (ov_Name ov)) ` {ov \<in> set ovs. community ov \<noteq> []}"
      using Cons.prems(2) ov by auto
    ultimately show ?thesis using Addrs_frame [OF 2] by simp
  qed
qed simp

text \<open>The table synchronisation: the table of every overlay holds exactly its routes afterwards.\<close>

lemma syncTables_frame:
  "ri_syncTables rt m ovs (s, es) = (s', es') \<Longrightarrow>
     vrfs s' = vrfs s \<and> rules s' = rules s \<and> addrs s' = addrs s \<and> (es' = [] \<longrightarrow> es = []) \<and>
     (Some t \<notin> ri_table ` set ovs \<longrightarrow> tables s' t = tables s t)"
proof (induction ovs arbitrary: s es)
  case (Cons ov ovs)
  show ?case
  proof (cases "ri_table ov")
    case None
    then have "ri_syncTables rt m ovs (s, es) = (s', es')" using Cons.prems by (simp only: syncTables_step option.case)
    then show ?thesis using Cons.IH [of s es] None by auto
  next
    case (Some t1)
    let ?s1 = "snd (SyncRoutes rt t1 (wanted_in m t1) s)"
    obtain e1 where go: "ri_syncTables rt m ovs (?s1, e1) = (s', es')" and e1: "e1 = [] \<longrightarrow> es = []"
      using Cons.prems Some by (auto simp: syncTables_step split: option.splits simp del: ri_syncTables.simps)
    then show ?thesis using Cons.IH [OF go] Some sync_frame [of t t1 "wanted_in m t1" s] by (auto simp: route_frame)
  qed
qed simp

lemma syncTables_spec:
  "ri_syncTables rt m ovs (s, es) = (s', []) \<Longrightarrow> Some t \<in> ri_table ` set ovs \<Longrightarrow>
     tables s' t = set (wanted_in m t)"
proof (induction ovs arbitrary: s es)
  case (Cons o1 ovs)
  show ?case
  proof (cases "Some t \<in> ri_table ` set ovs")
    case True
    obtain s1 e1 where go: "ri_syncTables rt m ovs (s1, e1) = (s', [])"
      using Cons.prems(1) by (cases "ri_table o1") (auto simp: syncTables_step simp del: ri_syncTables.simps)
    show ?thesis by (rule Cons.IH [OF go True])
  next
    case False
    then have o1: "ri_table o1 = Some t" using Cons.prems by auto
    obtain r s1 where sy: "SyncRoutes rt t (wanted_in m t) s = (r, s1)" by (rule prod.exhaust)
    obtain e1 where go: "ri_syncTables rt m ovs (s1, e1) = (s', [])" and e1: "e1 = [] \<longrightarrow> r = None"
      using Cons.prems(1) o1 sy by (auto simp: syncTables_step split: option.splits simp del: ri_syncTables.simps)
    then have "r = None" using syncTables_frame [OF go] by simp
    then show ?thesis using sync_ok [of t "wanted_in m t" s s1] sy syncTables_frame [OF go] False by simp
  qed
qed simp

end

section \<open>The bridges\<close>

context firewall_contract
begin

lemma Bridges_spec:
  assumes rec: "ri_reconcileBridges ns node fw overlays (f, es) = (None, f', es')"
  shows "sync_result bridge_key (ri_desiredBridges node overlays) (bridges f) (bridges f') (es' = [])"
    "es' = [] \<Longrightarrow> es = []"
proof -
  let ?D = "ri_desiredBridges node overlays"
  let ?wa = "\<lambda>b. Wrap (fmt_s (fmt_s ''ensure bridge '' (b_OverlayName b)) (fmt_s ''/'' (b_VirtualIP b)))"
  let ?add = "\<lambda>b. EnsureBridge fw (b_OverlayName b) (b_VirtualIP b) (b_PodIP b)"
  obtain bs where l: "ListBridges fw f = Inr bs"
    using rec by (auto simp: ri_reconcileBridges_def Let_def split: sum.splits)
  have lv: "set bs = bridges f" by (rule list_bridges [OF l])
  obtain f1 e1 where 1: "go_for (\<lambda>b. gm_has ?D (bridge_key b)) (\<lambda>b. RemoveBridge fw (b_OverlayName b) (b_VirtualIP b))
      (\<lambda>b. Wrap (fmt_s (fmt_s ''remove bridge '' (b_OverlayName b)) (fmt_s ''/'' (b_VirtualIP b)))) bs (f, es) = (f1, e1)"
    by (rule prod.exhaust)
  have r: "go_for (\<lambda>(k, b). gm_has (go_index bridge_key bs) k) (\<lambda>(k, b). ?add b) (\<lambda>(k, b). ?wa b) (gm_range ns ?D) (f1, e1) = (f', es')"
    using rec l 1 by (simp add: ri_reconcileBridges_def Let_def)
  have key: "bridge_key (snd p) = fst p" if "p \<in> set (gm_range ns ?D)" for p
    using that bridges_keyed [of node overlays] by (auto simp: keyed_by_def gm_range_def)
  have "go_for (\<lambda>(k, b). gm_has (go_index bridge_key bs) k) (\<lambda>(k, b). ?add b) (\<lambda>(k, b). ?wa b) (gm_range ns ?D) (f1, e1)
      = go_for (\<lambda>p. bridge_key (snd p) \<in> bridge_key ` bridges f) (\<lambda>p. ?add (snd p)) (\<lambda>p. ?wa (snd p)) (gm_range ns ?D) (f1, e1)"
    by (rule go_for_cong) (auto simp: key lv case_prod_beta)
  with r have 2: "go_for (\<lambda>b. bridge_key b \<in> bridge_key ` bridges f) ?add ?wa (map snd (gm_range ns ?D)) (f1, e1) = (f', es')"
    by (simp add: go_for_map)
  show "es' = [] \<Longrightarrow> es = []" using go_for_no_new_errs [OF 1] go_for_no_new_errs [OF 2] by simp
  then show "sync_result bridge_key ?D (bridges f) (bridges f') (es' = [])"
    using go_for_no_new_errs [OF 2] by (intro sync_resultI [OF bridges_keyed lv 1 refl 2]) auto
qed

end

section \<open>The cycle\<close>

lemma ri_Reconcile_phases:
  assumes "ri_Reconcile ord rt fw r overlays (s, f) = (None, s', f')"
  obtains s1 s2 s3 e1 e2 e3 e4 where
    "ri_reconcileVRFs (ro_vrfs ord) rt overlays (s, []) = (None, s1, e1)"
    "ri_reconcileRules (ro_rules ord) rt overlays (s1, e1) = (None, s2, e2)"
    "ri_reconcileAddrs (ro_addrs ord) (ri_nodeName r) rt overlays (s2, e2) = (s3, e3)"
    "ri_reconcileRoutes (ro_learned ord) r rt overlays (s3, e3) = (s', e4)"
    "ri_reconcileBridges (ro_bridges ord) (ri_nodeName r) fw overlays (f, e4) = (None, f', [])"
  using assms by (auto simp: ri_Reconcile_def Let_def split: prod.splits option.splits)

text \<open>The host as the internal node uses it: its routing and its firewall, on separate states.\<close>

locale host_contract = host: routes_contract rt vrfs rules addrs tables + fire: firewall_contract fw bridges
  for rt :: "'s routes" and vrfs rules addrs tables and fw :: "'f firewall" and bridges
begin

lemma ri_Reconcile_spec:
  assumes rec: "ri_Reconcile ord rt fw r overlays (s, f) = (None, s', f')" and wf: "gm_wf (ri_learned r)"
  shows "vrfs s' = synced v_Name (ri_desiredVRFs overlays) (vrfs s)"
    and "ru_TableID ` rules s' = {t. gm_has (ri_desiredRules overlays) t}"
    and "distinct (map ov_Name overlays) \<Longrightarrow> ov \<in> set overlays \<Longrightarrow> community ov \<noteq> [] \<Longrightarrow>
      {ip. (vrfName (ov_Name ov), ip) \<in> addrs s'} = {ip. gm_has (ri_desiredIPs (ri_nodeName r) ov) ip}"
    and "Some t \<in> ri_table ` set overlays \<Longrightarrow> tables s' t =
      {vrf_route t b | p b. gm_get (ri_learned r) p = Some b \<and> table_of (ri_communityMap overlays) b = Some t}"
    and "bridges f' = synced bridge_key (ri_desiredBridges (ri_nodeName r) overlays) (bridges f)"
proof -
  obtain s1 s2 s3 e1 e2 e3 e4 where
    1: "ri_reconcileVRFs (ro_vrfs ord) rt overlays (s, []) = (None, s1, e1)" and
    2: "ri_reconcileRules (ro_rules ord) rt overlays (s1, e1) = (None, s2, e2)" and
    3: "ri_reconcileAddrs (ro_addrs ord) (ri_nodeName r) rt overlays (s2, e2) = (s3, e3)" and
    4: "ri_reconcileRoutes (ro_learned ord) r rt overlays (s3, e3) = (s', e4)" and
    5: "ri_reconcileBridges (ro_bridges ord) (ri_nodeName r) fw overlays (f, e4) = (None, f', [])"
    by (rule ri_Reconcile_phases [OF rec])
  note 4 = 4 [unfolded ri_reconcileRoutes_def]
  have e4: "e4 = []" by (rule fire.Bridges_spec(2) [OF 5 refl])
  note F4 = host.syncTables_frame [OF 4] and F3 = host.Addrs_frame [OF 3]
  have e3: "e3 = []" using F4 e4 by blast
  have e2: "e2 = []" by (rule host.Addrs_errs [OF 3 e3])
  have e1: "e1 = []" by (rule host.Rules_spec(2) [OF 2 e2])
  have "vrfs s' = vrfs s1" using F4 F3 host.Rules_spec(3) [OF 2] by simp
  then show "vrfs s' = synced v_Name (ri_desiredVRFs overlays) (vrfs s)"
    using sync_resultD(4) [OF host.VRFs_spec(1) [OF 1]] e1 by simp
  have "rules s' = synced ru_TableID (ri_desiredRules overlays) (rules s1)"
    using F4 F3 sync_resultD(4) [OF host.Rules_spec(1) [OF 2]] e2 by simp
  then show "ru_TableID ` rules s' = {t. gm_has (ri_desiredRules overlays) t}"
    by (simp add: keys_synced [OF rules_keyed])
  show "{ip. (vrfName (ov_Name ov), ip) \<in> addrs s'} = {ip. gm_has (ri_desiredIPs (ri_nodeName r) ov) ip}"
    if "distinct (map ov_Name overlays)" "ov \<in> set overlays" "community ov \<noteq> []"
    using host.Addrs_spec [OF 3 [unfolded e3] that] F4 by simp
  show "bridges f' = synced bridge_key (ri_desiredBridges (ri_nodeName r) overlays) (bridges f)"
    using sync_resultD(4) [OF fire.Bridges_spec(1) [OF 5]] by simp
  show "tables s' t = {vrf_route t b | p b. gm_get (ri_learned r) p = Some b \<and> table_of (ri_communityMap overlays) b = Some t}"
    if "Some t \<in> ri_table ` set overlays"
    unfolding host.syncTables_spec [OF 4 [unfolded e4] that] routesByTable_eq set_map set_filter
    using gm.range_vals [OF wf, of "ro_learned ord"] by auto
qed

end

interpretation memhost: host_contract mem_routes "\<lambda>s. set (mh_vrfs s)" "\<lambda>s. set (mh_rules s)"
    "\<lambda>s. set (mh_addrs s)" "\<lambda>s t. set (mh_tables s t)" mem_firewall set
  by (intro host_contract.intro memr.routes_contract_axioms memf.firewall_contract_axioms)

interpretation nethost: host_contract netlinkRoutes vrfs rules addrs tables "firewall_of k" bridges
  for vrfs rules addrs tables k bridges
  by (cases k) (simp_all add: host_contract.intro netlink.routes_contract_axioms
      iptables.firewall_contract_axioms nftables.firewall_contract_axioms)

section \<open>Properties\<close>

definition ex_order :: ri_order where
  "ex_order = \<lparr>ro_vrfs = [1], ro_rules = [], ro_addrs = (\<lambda>_. []), ro_learned = [], ro_bridges = []\<rparr>"

definition ex_sync :: "go_error option \<times> mem_host \<times> bridge list" where
  "ex_sync = ri_Reconcile ex_order mem_routes mem_firewall (fold ri_ApplyEvent ex_events (ri_new ''node-1''))
     [ex_blue, ex_red] (mem_host0, [])"

text \<open>The bridge of a pod that has come back with another IP.\<close>

definition ex_old_bridge :: bridge where
  "ex_old_bridge = \<lparr>b_OverlayName = ''blue'', b_VirtualIP = ''10.200.0.5'', b_PodIP = ''10.244.1.3''\<rparr>"

definition ex_resync :: "go_error option \<times> mem_host \<times> bridge list" where
  "ex_resync = ri_Reconcile ex_order mem_routes mem_firewall (fold ri_ApplyEvent ex_events (ri_new ''node-1''))
     [ex_blue] (mem_host0, [ex_old_bridge])"

lemma ex_sync_ok: "fst ex_sync = None"
  by code_simp

lemma ex_sync_eq:
  "ri_Reconcile ex_order mem_routes mem_firewall (fold ri_ApplyEvent ex_events (ri_new ''node-1''))
     [ex_blue, ex_red] (mem_host0, []) = (None, fst (snd ex_sync), snd (snd ex_sync))"
  using pair_fst [OF ex_sync_ok] unfolding ex_sync_def [symmetric] by simp

text \<open>C3: An internal route sync that returns no error converges the host: the VRFs and the firewall
  bridges are those of the snapshot (an entity whose key is wanted is kept as it is, every other
  is removed, a missing one is created), and there is an ip rule for exactly the tables of the
  overlays with a community and a virtual CIDR. This holds for every iteration order of the
  maps.\<close>

theorem ri_converges:
  assumes "routes_contract rt vrfs rules addrs tables" "firewall_contract fw bridges"
    and "ri_Reconcile ord rt fw (fold ri_ApplyEvent evs (ri_new node)) overlays (s, f) = (None, s', f')"
  shows "vrfs s' = synced v_Name (ri_desiredVRFs overlays) (vrfs s)
    \<and> bridges f' = synced bridge_key (ri_desiredBridges node overlays) (bridges f)
    \<and> ru_TableID ` rules s' = {t. \<exists>ov \<in> set overlays. ri_table ov = Some t \<and> spec_VirtualCIDR (ov_Spec ov) \<noteq> []}"
proof -
  let ?r = "fold ri_ApplyEvent evs (ri_new node)"
  note spec = host_contract.ri_Reconcile_spec [OF host_contract.intro [OF assms(1,2)] assms(3)
      ri_learned_history [THEN conjunct1]]
  have n: "ri_nodeName ?r = node" by (simp add: ri_nodeName_history ri_new_def)
  have "gm_has (ri_desiredRules overlays) t \<longleftrightarrow>
      (\<exists>ov \<in> set overlays. ri_table ov = Some t \<and> spec_VirtualCIDR (ov_Spec ov) \<noteq> [])" for t
    unfolding rules_fold put_all_has by (force simp: in_map_filter rule_entry_def image_iff split: if_splits)
  then show ?thesis using spec(1,2,5) n by simp
qed

theorem ri_converges_witness:
  "ru_TableID ` set (mh_rules (fst (snd ex_sync))) = {10001, 10002}"
proof -
  have "ri_table ex_blue = Some 10001" "ri_table ex_red = Some 10002" by code_simp+
  moreover have "spec_VirtualCIDR (ov_Spec ex_blue) \<noteq> []" "spec_VirtualCIDR (ov_Spec ex_red) \<noteq> []" by code_simp+
  ultimately show ?thesis
    using ri_converges [OF memr.routes_contract_axioms memf.firewall_contract_axioms ex_sync_eq] by auto
qed

text \<open>C20: An internal route sync that returns no error leaves on the VRF of every overlay with a
  community exactly the virtual IPs of its ready edges on this node, provided the overlays have
  different names (they are cluster-scoped objects).\<close>

theorem ri_addresses_exact:
  assumes "routes_contract rt vrfs rules addrs tables" "firewall_contract fw bridges"
    and "ri_Reconcile ord rt fw (fold ri_ApplyEvent evs (ri_new node)) overlays (s, f) = (None, s', f')"
    and "distinct (map ov_Name overlays)" "ov \<in> set overlays" "community ov \<noteq> []"
  shows "(vrfName (ov_Name ov), ip) \<in> addrs s' \<longleftrightarrow>
    ip \<noteq> [] \<and> (\<exists>e \<in> set (edges_of ov). es_NodeName e = node \<and> es_Ready e \<and> es_VirtualIP e = ip)"
proof -
  let ?r = "fold ri_ApplyEvent evs (ri_new node)"
  have n: "ri_nodeName ?r = node" by (simp add: ri_nodeName_history ri_new_def)
  have "{ip. (vrfName (ov_Name ov), ip) \<in> addrs s'} = {ip. gm_has (ri_desiredIPs node ov) ip}"
    using host_contract.ri_Reconcile_spec(3) [OF host_contract.intro [OF assms(1,2)] assms(3)
      ri_learned_history [THEN conjunct1] assms(4-6)] n by simp
  then show ?thesis unfolding desiredIPs_has [symmetric] by blast
qed

theorem ri_addresses_exact_witness:
  "(vrfName ''blue'', ''10.200.0.5'') \<in> set (mh_addrs (fst (snd ex_sync)))
   \<and> (vrfName ''red'', ''10.200.0.6'') \<notin> set (mh_addrs (fst (snd ex_sync)))"
proof -
  have d: "distinct (map ov_Name [ex_blue, ex_red])" and b: "ov_Name ex_blue = ''blue''" "community ex_blue \<noteq> []"
    and r: "ov_Name ex_red = ''red''" "community ex_red \<noteq> []" by code_simp+
  note a = ri_addresses_exact [OF memr.routes_contract_axioms memf.firewall_contract_axioms ex_sync_eq d]
  show ?thesis
    unfolding a [OF list.set_intros(1) b(2), unfolded b(1)]
      a [OF list.set_intros(2) [OF list.set_intros(1)] r(2), unfolded r(1)]
    by code_simp
qed

text \<open>Routes are isolated per overlay. After any event history, a sync that returns no error
  leaves in the table of every overlay exactly the learned routes for which the first community
  known to the snapshot is one that has this table.\<close>

theorem ri_tables_exact:
  assumes "routes_contract rt vrfs rules addrs tables" "firewall_contract fw bridges"
    and "ri_Reconcile ord rt fw (fold ri_ApplyEvent evs (ri_new node)) overlays (s, f) = (None, s', f')"
    and "ov \<in> set overlays" "ri_table ov = Some t"
  shows "tables s' t =
    {vrf_route t b | p b c. learned_route p evs = Some b \<and>
       find (\<lambda>c. \<exists>ov \<in> set overlays. community ov = c \<and> ri_table ov \<noteq> None) (r_Communities b) = Some c \<and>
       vrfTableID c = Inr t}"
proof -
  have t: "Some t \<in> ri_table ` set overlays" using assms(4,5) by force
  show ?thesis
    unfolding host_contract.ri_Reconcile_spec(4) [OF host_contract.intro [OF assms(1,2)] assms(3)
      ri_learned_history [THEN conjunct1] t] ri_learned_history [THEN conjunct2] table_of_iff
    by blast
qed

theorem ri_tables_exact_witness:
  "vrf_route 10001 ex_route \<in> set (mh_tables (fst (snd ex_sync)) 10001)"
proof -
  have t: "ri_table ex_blue = Some 10001" by code_simp
  have l: "learned_route ''10.9.0.0/16'' ex_events = Some ex_route"
    by (simp add: learned_route_def last_event_def ex_events_def ex_added_def ex_route_def)
  have f: "find (\<lambda>c. \<exists>ov \<in> set [ex_blue, ex_red]. community ov = c \<and> ri_table ov \<noteq> None) (r_Communities ex_route)
      = Some ''65000:1''" and c: "vrfTableID ''65000:1'' = Inr 10001" by code_simp+
  show ?thesis
    unfolding ri_tables_exact [OF memr.routes_contract_axioms memf.firewall_contract_axioms ex_sync_eq list.set_intros(1) t]
    using l f c by blast
qed

text \<open>C36: Bridges in use are not disturbed, and not updated either: whatever the outcome of a sync, a
  bridge whose overlay and virtual IP are still wanted is there afterwards, and no bridge that
  was not there before takes its key. In particular a pod that comes back with a new IP keeps
  its old bridge.\<close>

theorem ri_bridge_kept:
  assumes "firewall_contract fw bridges"
    and "ri_Reconcile ord rt fw (fold ri_ApplyEvent evs (ri_new node)) overlays (s, f) = (e, s', f')"
    and "b \<in> bridges f" "gm_has (ri_desiredBridges node overlays) (bridge_key b)"
  shows "b \<in> bridges f' \<and> (\<forall>b'. b' \<in> bridges f' \<and> bridge_key b' = bridge_key b \<longrightarrow> b' \<in> bridges f)"
proof -
  let ?r = "fold ri_ApplyEvent evs (ri_new node)"
  have n: "ri_nodeName ?r = node" by (simp add: ri_nodeName_history ri_new_def)
  consider "f' = f" | e4 o4 e5 where
    "ri_reconcileBridges (ro_bridges ord) node fw overlays (f, e4) = (o4, f', e5)"
    using assms(2) unfolding ri_Reconcile_def Let_def n by (auto split: prod.splits option.splits)
  then show ?thesis
  proof cases
    case 1
    then show ?thesis using assms(3) by blast
  next
    case (2 e4 o4 e5)
    show ?thesis
    proof (cases o4)
      case None
      note sr = firewall_contract.Bridges_spec(1) [OF assms(1) 2 [unfolded None]]
      have "bridge_key b \<in> bridge_key ` bridges f" using assms(3) by (rule imageI)
      then show ?thesis using sync_resultD(1) [OF sr assms(3,4)] sync_resultD(2) [OF sr] by metis
    next
      case (Some err)
      then have "f' = f" using 2 by (auto simp: ri_reconcileBridges_def Let_def split: sum.splits)
      then show ?thesis using assms(3) by blast
    qed
  qed
qed

theorem ri_bridge_kept_witness:
  "ex_old_bridge \<in> set (snd (snd ex_resync))"
proof -
  have r: "ri_Reconcile ex_order mem_routes mem_firewall (fold ri_ApplyEvent ex_events (ri_new ''node-1'')) [ex_blue]
       (mem_host0, [ex_old_bridge]) = (fst ex_resync, fst (snd ex_resync), snd (snd ex_resync))"
    by (simp only: prod.collapse ex_resync_def)
  have k: "gm_has (ri_desiredBridges ''node-1'' [ex_blue]) (bridge_key ex_old_bridge)" by code_simp
  show ?thesis using ri_bridge_kept [OF memf.firewall_contract_axioms r _ k] by simp
qed

text \<open>C38: The VRF table of a community \<open>asn:n\<close> is \<open>n + 10000\<close> in 32-bit arithmetic, for every number
  that the parser accepts. Two communities share a table exactly if they have the same \<open>n\<close>, whatever
  their ASNs. The table is above 10000 exactly for \<open>n\<close> from 1 to 4294957295; from 4294957296 on it wraps
  around to the tables below 10000, those the system reserves among them: the comment in the code
  that the offset stays above them is wrong there.\<close>

theorem vrfTableID_value:
  assumes asn: "CHR '':'' \<notin> set asn" "CHR '':'' \<notin> set asn'" and n: "n < 2 ^ 32" "n' < 2 ^ 32"
  shows "\<exists>t t'. vrfTableID (asn @ '':'' @ dec n) = Inr t \<and> vrfTableID (asn' @ '':'' @ dec n') = Inr t' \<and>
    unat t = (n + 10000) mod 2 ^ 32 \<and> (t = t' \<longleftrightarrow> n = n') \<and>
    (10000 < unat t \<longleftrightarrow> n \<in> {1..<2 ^ 32 - 10000}) \<and> (unat t < 10000 \<longleftrightarrow> 2 ^ 32 - 10000 \<le> n)"
proof (intro exI conjI)
  have "(of_nat n :: u32) = of_nat n' \<longleftrightarrow> n = n'" using n by (simp add: word_unat_eq_iff unat_of_nat)
  then show "(of_nat n + 10000 :: u32) = of_nat n' + 10000 \<longleftrightarrow> n = n'" by simp
  have u: "unat (of_nat n + 10000 :: u32) = (if n < 2 ^ 32 - 10000 then n + 10000 else n + 10000 - 2 ^ 32)"
    unfolding table_unat using n(1) by (simp add: mod_if)
  show "10000 < unat (of_nat n + 10000 :: u32) \<longleftrightarrow> n \<in> {1..<2 ^ 32 - 10000}" unfolding u using n(1) by auto
  show "unat (of_nat n + 10000 :: u32) < 10000 \<longleftrightarrow> 2 ^ 32 - 10000 \<le> n" unfolding u using n(1) by auto
qed (rule vrfTableID_print [OF asn(1) n(1)] vrfTableID_print [OF asn(2) n(2)] table_unat)+

text \<open>A number that the parser accepts and that leads to table 254, the main table of the host.\<close>

theorem vrfTableID_value_witness:
  "\<exists>t t'. vrfTableID (''65000'' @ '':'' @ dec 4294957550) = Inr t \<and> vrfTableID (''65001'' @ '':'' @ dec 7) = Inr t' \<and>
     unat t = 254 \<and> t \<noteq> t'"
proof -
  have a: "CHR '':'' \<notin> set ''65000''" "CHR '':'' \<notin> set ''65001''" "(4294957550 :: nat) < 2 ^ 32" "(7 :: nat) < 2 ^ 32" by simp_all
  from vrfTableID_value [OF a] show ?thesis by (elim exE conjE, intro exI conjI) simp_all
qed

end
