(* ===== verification/Routes_Filtered.thy ===== *)
theory Routes_Filtered
  imports Routes_Internal_Correct
begin

text \<open>
  The internal node's cycle on a host that lists rules as the comment on \<open>libs/routes\<close> says: only those
  whose table belongs to a managed VRF. A cycle brings the VRFs in line before it lists the rules,
  so that the rule of an overlay that is gone is not listed any more when it should be removed.
\<close>

section \<open>The contract of the comment\<close>

locale filtered_rules = vrf_contract rt vrfs + rule: keyed_store ru_TableID rules "EnsureRule rt" "RemoveRule rt"
  for rt :: "'s routes" and vrfs and rules :: "'s \<Rightarrow> rule set" +
  assumes list_filtered: "ListRules rt s = Inr rs \<Longrightarrow> set rs = {r \<in> rules s. ru_TableID r \<in> v_TableID ` vrfs s}"
    and others_keep: "rules (snd (EnsureVRF rt n t s)) = rules s" "rules (snd (RemoveVRF rt n s)) = rules s"
      "rules (snd (EnsureAddr rt v ip s)) = rules s" "rules (snd (RemoveAddr rt v ip s)) = rules s"
      "rules (snd (SyncRoutes rt t ds s)) = rules s"
    and vrfs_keep: "vrfs (snd (EnsureRule rt r s)) = vrfs s" "vrfs (snd (RemoveRule rt r s)) = vrfs s"
      "vrfs (snd (EnsureAddr rt v ip s)) = vrfs s" "vrfs (snd (RemoveAddr rt v ip s)) = vrfs s"
      "vrfs (snd (SyncRoutes rt t ds s)) = vrfs s"

section \<open>The phases\<close>

lemma overlayAddrs_pres:
  assumes "\<And>v ip s. P (snd (EnsureAddr rt v ip s)) = P s" "\<And>v ip s. P (snd (RemoveAddr rt v ip s)) = P s"
  shows "P (fst (ri_overlayAddrs ns node rt ov st)) = P (fst st)"
  by (simp add: ri_overlayAddrs_def Let_def go_for_pres [where P = P] assms split: sum.split)

lemma go_for_errs_twice: "\<exists>new. snd (go_for k a w xs (go_for k' a' w' ys st)) = snd st @ new"
  using go_for_errs [of k a w xs "go_for k' a' w' ys st"] go_for_errs [of k' a' w' ys st] by auto

lemma go_for_twice_clean: "go_for k a w xs (go_for k' a' w' ys (s, es)) = (s', []) \<Longrightarrow> es = []"
  using go_for_errs_twice [of k a w xs k' a' w' ys "(s, es)"] by auto

lemma overlayAddrs_errs: "\<exists>new. snd (ri_overlayAddrs ns node rt ov st) = snd st @ new"
  by (cases "ListAddrs rt (vrfName (ov_Name ov)) (fst st)") (simp_all add: ri_overlayAddrs_def Let_def go_for_errs_twice)

lemma Addrs_pres:
  assumes "\<And>v ip s. P (snd (EnsureAddr rt v ip s)) = P s" "\<And>v ip s. P (snd (RemoveAddr rt v ip s)) = P s"
  shows "P (fst (ri_reconcileAddrs ch node rt ovs st)) = P (fst st) \<and> (\<exists>new. snd (ri_reconcileAddrs ch node rt ovs st) = snd st @ new)"
proof (induction ovs arbitrary: ch st)
  case (Cons ov ovs)
  let ?st = "ri_overlayAddrs (ch 0) node rt ov st"
  obtain new where "snd ?st = snd st @ new" using overlayAddrs_errs by blast
  then show ?case using Cons.IH [of "\<lambda>i. ch (Suc i)" ?st] overlayAddrs_pres [of P, OF assms] by auto
qed simp

lemma syncTables_pres:
  assumes "\<And>t ds s. P (snd (SyncRoutes rt t ds s)) = P s"
  shows "P (fst (ri_syncTables rt m ovs st)) = P (fst st) \<and> (\<exists>new. snd (ri_syncTables rt m ovs st) = snd st @ new)"
proof (induction ovs arbitrary: st)
  case (Cons ov ovs)
  obtain s es where st: "st = (s, es)" by force
  show ?case
  proof (cases "ri_table ov")
    case None
    then show ?thesis using Cons.IH [of "(s, es)"] by (simp add: st syncTables_step del: ri_syncTables.simps)
  next
    case (Some t)
    let ?s = "snd (SyncRoutes rt t (wanted_in m t) s)"
    obtain new where go: "ri_syncTables rt m (ov # ovs) (s, es) = ri_syncTables rt m ovs (?s, es @ new)"
      using Some by (cases "fst (SyncRoutes rt t (wanted_in m t) s)") (auto simp: syncTables_step simp del: ri_syncTables.simps intro: that [of "[]"])
    obtain new' where "P (fst (ri_syncTables rt m ovs (?s, es @ new))) = P ?s" "snd (ri_syncTables rt m ovs (?s, es @ new)) = (es @ new) @ new'"
      using Cons.IH [of "(?s, es @ new)"] by auto
    then show ?thesis unfolding st go by (simp add: assms)
  qed
qed simp

lemma desired_vrf_get:
  assumes "gm_get (ri_desiredVRFs overlays) k = Some v"
  shows "\<exists>ov \<in> set overlays. ri_table ov = Some (v_TableID v) \<and> k = vrfName (ov_Name ov)"
proof -
  obtain ov where "ov \<in> set overlays" "vrf_entry ov = Some (k, v)"
    using put_all_SomeD [OF assms [unfolded vrfs_fold]] unfolding in_map_filter ..
  then show ?thesis by (intro bexI [of _ ov]) (auto simp: vrf_entry_def)
qed

lemma desired_rule_get:
  assumes "gm_get (ri_desiredRules overlays) k = Some r"
  shows "\<exists>ov \<in> set overlays. ri_table ov = Some (ru_TableID r)"
proof -
  obtain ov where "ov \<in> set overlays" "rule_entry ov = Some (k, r)"
    using put_all_SomeD [OF assms [unfolded rules_fold]] unfolding in_map_filter ..
  then show ?thesis by (intro bexI [of _ ov]) (auto simp: rule_entry_def split: if_splits)
qed

context filtered_rules
begin

text \<open>After the VRF phase no VRF has the table of an overlay that is gone.\<close>

lemma VRFs_release:
  assumes "ri_reconcileVRFs ns rt overlays (s, es) = (None, s', [])"
    and "\<forall>ov \<in> set overlays. ri_table ov \<noteq> Some t"
    and "\<forall>v \<in> vrfs s. v_TableID v = t \<longrightarrow> v_Name v \<notin> (\<lambda>ov. vrfName (ov_Name ov)) ` set overlays"
  shows "t \<notin> v_TableID ` vrfs s'" "rules s' = rules s"
proof -
  have s: "vrfs s' = synced v_Name (ri_desiredVRFs overlays) (vrfs s)" using sync_resultD(4) [OF VRFs_spec(1) [OF assms(1)]] by simp
  have "v_TableID v \<noteq> t" if v: "v \<in> vrfs s'" for v
  proof -
    consider "v \<in> vrfs s" "gm_has (ri_desiredVRFs overlays) (v_Name v)" | "gm_get (ri_desiredVRFs overlays) (v_Name v) = Some v"
      using v unfolding s synced_def by blast
    then show ?thesis
    proof cases
      case 1
      then obtain w where "gm_get (ri_desiredVRFs overlays) (v_Name v) = Some w" by (auto simp: gm_has_iff)
      from desired_vrf_get [OF this] show ?thesis using assms(3) 1(1) by blast
    next
      case 2
      from desired_vrf_get [OF this] show ?thesis using assms(2) by blast
    qed
  qed
  then show "t \<notin> v_TableID ` vrfs s'" by blast
  obtain vs where l: "ListVRFs rt s = Inr vs" using assms(1) by (auto simp: ri_reconcileVRFs_def Let_def split: sum.splits)
  show "rules s' = rules s"
    using assms(1) l by (auto simp: ri_reconcileVRFs_def Let_def others_keep dest!: arg_cong [where f = "\<lambda>st. rules (fst st)"]
      simp: go_for_pres [where P = rules])
qed

lemma Rules_overlook:
  assumes rec: "ri_reconcileRules ns rt overlays (s, es) = (None, s', es')" and r: "r \<in> rules s"
    and t: "\<forall>ov \<in> set overlays. ri_table ov \<noteq> Some (ru_TableID r)" "ru_TableID r \<notin> v_TableID ` vrfs s"
  shows "r \<in> rules s'"
proof -
  let ?D = "ri_desiredRules overlays"
  obtain rs where l: "ListRules rt s = Inr rs" using rec by (auto simp: ri_reconcileRules_def Let_def split: sum.splits)
  have "ru_TableID r \<noteq> ru_TableID x" if "x \<in> set rs" for x using that t(2) unfolding list_filtered [OF l] by auto
  then have 1: "r \<in> rules (fst (go_for (\<lambda>r. gm_has ?D (ru_TableID r)) (RemoveRule rt)
      (\<lambda>r. Wrap (fmt_s ''remove ip rule table '' (show_u32 (ru_TableID r)))) rs (s, es)))" (is "r \<in> rules (fst ?st)")
    by (intro rule.rem_loop_frame) (simp_all add: r)
  have "ru_TableID r \<noteq> ru_TableID x" if "x \<in> set (map snd (gm_range ns ?D))" for x
  proof -
    from that obtain k where "gm_get ?D k = Some x" unfolding gm.range_vals [OF keyed_by_wf [OF rules_keyed]] by blast
    from desired_rule_get [OF this] show ?thesis using t(1) by auto
  qed
  then have "r \<in> rules (fst (go_for skip (EnsureRule rt) w (map snd (gm_range ns ?D)) ?st))" for skip w
    by (intro rule.add_loop_frame [OF 1]) blast
  from this [of "\<lambda>r. gm_has (go_index ru_TableID rs) (ru_TableID r)" "\<lambda>r. Wrap (fmt_s ''ensure ip rule table '' (show_u32 (ru_TableID r)))"]
  show ?thesis using rec l by (simp add: ri_reconcileRules_def Let_def)
qed

lemma Rules_keep_vrfs: "ri_reconcileRules ns rt overlays st = (None, st') \<Longrightarrow> vrfs (fst st') = vrfs (fst st)"
  by (auto simp: ri_reconcileRules_def Let_def go_for_pres [where P = vrfs] vrfs_keep split: sum.splits)

lemma orphan_kept:
  assumes rec: "ri_Reconcile ord rt fw r overlays (s, f) = (None, s', f')" and ru: "ru \<in> rules s"
    and gone: "\<forall>ov \<in> set overlays. ri_table ov \<noteq> Some (ru_TableID ru)"
      "\<forall>v \<in> vrfs s. v_TableID v = ru_TableID ru \<longrightarrow> v_Name v \<notin> (\<lambda>ov. vrfName (ov_Name ov)) ` set overlays"
  shows "ru \<in> rules s' \<and> ru_TableID ru \<notin> v_TableID ` vrfs s'"
proof -
  obtain s1 s2 s3 e1 e2 e3 e4 where
    1: "ri_reconcileVRFs (ro_vrfs ord) rt overlays (s, []) = (None, s1, e1)" and
    2: "ri_reconcileRules (ro_rules ord) rt overlays (s1, e1) = (None, s2, e2)" and
    3: "ri_reconcileAddrs (ro_addrs ord) (ri_nodeName r) rt overlays (s2, e2) = (s3, e3)" and
    4: "ri_reconcileRoutes (ro_learned ord) r rt overlays (s3, e3) = (s', e4)" and
    5: "ri_reconcileBridges (ro_bridges ord) (ri_nodeName r) fw overlays (f, e4) = (None, f', [])"
    by (rule ri_Reconcile_phases [OF rec])
  have "e4 = []" using 5 by (auto simp: ri_reconcileBridges_def Let_def split: sum.splits dest: go_for_twice_clean)
  moreover have a: "rules s' = rules s3" "\<exists>new. e4 = e3 @ new" "rules s3 = rules s2" "\<exists>new. e3 = e2 @ new"
    using syncTables_pres [of rules rt, OF others_keep(5)] Addrs_pres [of rules rt, OF others_keep(3,4)] 3 4
    unfolding ri_reconcileRoutes_def by (metis fst_conv snd_conv)+
  moreover have "e1 = []" if "e2 = []" using 2 that by (auto simp: ri_reconcileRules_def Let_def split: sum.splits dest: go_for_twice_clean)
  ultimately have "e1 = []" by auto
  note v = VRFs_release [OF 1 [unfolded this] gone]
  have "ru \<in> rules s1" using ru v(2) by simp
  moreover have "vrfs s' = vrfs s3" "vrfs s3 = vrfs s2"
    using syncTables_pres [of vrfs rt, OF vrfs_keep(5)] Addrs_pres [of vrfs rt, OF vrfs_keep(3,4)] 3 4
    unfolding ri_reconcileRoutes_def by (metis fst_conv)+
  ultimately show ?thesis using Rules_overlook [OF 2 _ gone(1) v(1)] a v(1) Rules_keep_vrfs [OF 2] by simp
qed

end

section \<open>A host in memory that filters\<close>

definition filtering_routes :: "mem_host routes" where
  "filtering_routes = mem_routes\<lparr>ListRules := \<lambda>s. Inr (filter (\<lambda>r. ru_TableID r \<in> v_TableID ` set (mh_vrfs s)) (mh_rules s))\<rparr>"

interpretation memfr: filtered_rules filtering_routes "\<lambda>s. set (mh_vrfs s)" "\<lambda>s. set (mh_rules s)"
  by unfold_locales (auto simp: filtering_routes_def mem_routes_def image_iff)

section \<open>Properties\<close>

text \<open>C39: On a host that lists only the rules of managed VRFs, as the comment on the interface says, the
  rule of an overlay that is gone is never removed: when no overlay of the snapshot has the rule's
  table and no VRF with that table carries the name of one, a cycle that returns no error leaves
  the rule in place and no VRF with its table, so that it is not listed afterwards either.\<close>

theorem ri_orphan_rule_kept:
  assumes "filtered_rules rt vrfs rules"
    and "ri_Reconcile ord rt fw r overlays (s, f) = (None, s', f')" and "ru \<in> rules s"
    and "\<forall>ov \<in> set overlays. ri_table ov \<noteq> Some (ru_TableID ru)"
    and "\<forall>v \<in> vrfs s. v_TableID v = ru_TableID ru \<longrightarrow> v_Name v \<notin> (\<lambda>ov. vrfName (ov_Name ov)) ` set overlays"
  shows "ru \<in> rules s' \<and> ru_TableID ru \<notin> v_TableID ` vrfs s'"
  by (rule filtered_rules.orphan_kept [OF assms])

definition ex_gone_vrf :: vrf where
  "ex_gone_vrf = \<lparr>v_Name = vrfName ''gone'', v_TableID = 10009\<rparr>"

definition ex_gone_rule :: rule where
  "ex_gone_rule = \<lparr>ru_From = [], ru_To = ''10.209.0.0/24'', ru_TableID = 10009, ru_Iif = [], ru_Oif = []\<rparr>"

definition ex_filtered :: "go_error option \<times> mem_host \<times> bridge list" where
  "ex_filtered = ri_Reconcile ex_order filtering_routes mem_firewall (ri_new ''node-1'') [ex_blue]
     (mem_host0\<lparr>mh_vrfs := [ex_gone_vrf], mh_rules := [ex_gone_rule]\<rparr>, [])"

theorem ri_orphan_rule_kept_witness:
  "map v_Name (mh_vrfs (fst (snd ex_filtered))) = [vrfName ''blue''] \<and> ex_gone_rule \<in> set (mh_rules (fst (snd ex_filtered)))"
proof
  show "map v_Name (mh_vrfs (fst (snd ex_filtered))) = [vrfName ''blue'']" by code_simp
  have "fst ex_filtered = None" by code_simp
  then have r: "ri_Reconcile ex_order filtering_routes mem_firewall (ri_new ''node-1'') [ex_blue]
      (mem_host0\<lparr>mh_vrfs := [ex_gone_vrf], mh_rules := [ex_gone_rule]\<rparr>, []) = (None, fst (snd ex_filtered), snd (snd ex_filtered))"
    unfolding ex_filtered_def by (metis prod.collapse)
  have t: "ri_table ex_blue \<noteq> Some (ru_TableID ex_gone_rule)" "v_Name ex_gone_vrf \<noteq> vrfName (ov_Name ex_blue)" by code_simp+
  show "ex_gone_rule \<in> set (mh_rules (fst (snd ex_filtered)))"
    by (rule ri_orphan_rule_kept [OF memfr.filtered_rules_axioms r, THEN conjunct1]) (use t in simp_all)
qed

end
