(* ===== verification/Routes_Updater.thy ===== *)
theory Routes_Updater
  imports Routes_Internal_Correct
begin

text \<open>
  The routes updater of \<open>internal/bgp/routes_updater.go\<close>: the loop that selects between overlay
  snapshots, BGP route events and cancellation, as a step relation over its channels. The
  reconciler it drives is the interface \<open>routes_reconciler\<close>, interpreted on the gateway's and on
  the internal node's reconciler.
\<close>

section \<open>The loop\<close>

text \<open>
  A \<open>RoutesReconciler\<close>: its learned state \<open>'r\<close>, the host \<open>'s\<close> it works on, and the iteration
  order \<open>'o\<close> of the maps in one call of \<open>Reconcile\<close>.
\<close>

record ('r, 's, 'o) routes_rec =
  ApplyEvent :: "route_event \<Rightarrow> 'r \<Rightarrow> 'r"
  Reconcile :: "'o \<Rightarrow> 'r \<Rightarrow> overlay list \<Rightarrow> 's \<Rightarrow> go_error option \<times> 's"

text \<open>
  The updater: \<open>latest\<close>, the reconciler and the host, the results of the calls of \<open>Reconcile\<close> (an
  error is logged, nothing else), and whether \<open>Run\<close> has returned.
\<close>

record ('r, 's) updater =
  up_latest :: "overlay list"
  up_rec :: 'r
  up_host :: 's
  up_results :: "go_error option list"
  up_returned :: bool

definition NewRoutesUpdater :: "'r \<Rightarrow> 's \<Rightarrow> ('r, 's) updater" where
  "NewRoutesUpdater r s = \<lparr>up_latest = [], up_rec = r, up_host = s, up_results = [], up_returned = False\<rparr>"

definition up_reconcile :: "('r, 's, 'o) routes_rec \<Rightarrow> 'o \<Rightarrow> ('r, 's) updater \<Rightarrow> ('r, 's) updater" where
  "up_reconcile rr ord u =
     (case Reconcile rr ord (up_rec u) (up_latest u) (up_host u) of
        (e, s') \<Rightarrow> u\<lparr>up_host := s', up_results := up_results u @ [e]\<rparr>)"

definition on_snapshot :: "('r, 's, 'o) routes_rec \<Rightarrow> 'o \<Rightarrow> overlay list \<Rightarrow> ('r, 's) updater \<Rightarrow> ('r, 's) updater" where
  "on_snapshot rr ord snapshot u = up_reconcile rr ord (u\<lparr>up_latest := snapshot\<rparr>)"

definition on_event :: "('r, 's, 'o) routes_rec \<Rightarrow> 'o \<Rightarrow> route_event \<Rightarrow> ('r, 's) updater \<Rightarrow> ('r, 's) updater" where
  "on_event rr ord ev u = up_reconcile rr ord (u\<lparr>up_rec := ApplyEvent rr ev (up_rec u)\<rparr>)"

definition on_return :: "('r, 's) updater \<Rightarrow> ('r, 's) updater" where
  "on_return u = u\<lparr>up_returned := True\<rparr>"

text \<open>What is in the channels, whether they are closed, and whether the context is cancelled.\<close>

record channels =
  ch_snapshots :: "overlay list list"
  ch_snapshots_closed :: bool
  ch_events :: "route_event list"
  ch_events_closed :: bool
  ch_cancelled :: bool

text \<open>
  One round of the \<open>for/select\<close> loop. Any case that is ready may be chosen; a receive on a
  closed channel is ready once the channel is drained.
\<close>

inductive select :: "('r, 's, 'o) routes_rec \<Rightarrow> channels \<times> ('r, 's) updater \<Rightarrow> channels \<times> ('r, 's) updater \<Rightarrow> bool"
  for rr :: "('r, 's, 'o) routes_rec" where
  snapshot: "\<not> up_returned u \<Longrightarrow> ch_snapshots c = x # xs \<Longrightarrow>
    select rr (c, u) (c\<lparr>ch_snapshots := xs\<rparr>, on_snapshot rr ord x u)"
| event: "\<not> up_returned u \<Longrightarrow> ch_events c = ev # evs \<Longrightarrow>
    select rr (c, u) (c\<lparr>ch_events := evs\<rparr>, on_event rr ord ev u)"
| snapshots_closed: "\<not> up_returned u \<Longrightarrow> ch_snapshots c = [] \<Longrightarrow> ch_snapshots_closed c \<Longrightarrow>
    select rr (c, u) (c, on_return u)"
| events_closed: "\<not> up_returned u \<Longrightarrow> ch_events c = [] \<Longrightarrow> ch_events_closed c \<Longrightarrow>
    select rr (c, u) (c, on_return u)"
| cancelled: "\<not> up_returned u \<Longrightarrow> ch_cancelled c \<Longrightarrow> select rr (c, u) (c, on_return u)"

text \<open>Closing a channel and cancelling the context.\<close>

inductive shut :: "channels \<Rightarrow> channels \<Rightarrow> bool" where
  close_snapshots: "shut c (c\<lparr>ch_snapshots_closed := True\<rparr>)"
| close_events: "shut c (c\<lparr>ch_events_closed := True\<rparr>)"
| cancel: "shut c (c\<lparr>ch_cancelled := True\<rparr>)"

definition open_channels :: channels where
  "open_channels = \<lparr>ch_snapshots = [], ch_snapshots_closed = False, ch_events = [], ch_events_closed = False,
     ch_cancelled = False\<rparr>"

text \<open>
  The states of the updater that any interleaving of the loop with its surroundings can reach (the
  mediator sends snapshots, the BGP server sends route events, either may close its channel, the
  caller may cancel), with all that has been sent so far: the snapshots and the events, in the
  order of their channels.
\<close>

inductive reaches :: "('r, 's, 'o) routes_rec \<Rightarrow> ('r, 's) updater \<Rightarrow> overlay list list \<Rightarrow> route_event list
    \<Rightarrow> channels \<times> ('r, 's) updater \<Rightarrow> bool"
  for rr :: "('r, 's, 'o) routes_rec" and u0 :: "('r, 's) updater" where
  start: "reaches rr u0 [] [] (open_channels, u0)"
| loop: "reaches rr u0 snaps evs cu \<Longrightarrow> select rr cu cu' \<Longrightarrow> reaches rr u0 snaps evs cu'"
| snap: "reaches rr u0 snaps evs (c, u) \<Longrightarrow> \<not> ch_snapshots_closed c \<Longrightarrow>
    reaches rr u0 (snaps @ [x]) evs (c\<lparr>ch_snapshots := ch_snapshots c @ [x]\<rparr>, u)"
| route: "reaches rr u0 snaps evs (c, u) \<Longrightarrow> \<not> ch_events_closed c \<Longrightarrow>
    reaches rr u0 snaps (evs @ [ev]) (c\<lparr>ch_events := ch_events c @ [ev]\<rparr>, u)"
| shutting: "reaches rr u0 snaps evs (c, u) \<Longrightarrow> shut c c' \<Longrightarrow> reaches rr u0 snaps evs (c', u)"

section \<open>What the loop keeps\<close>

definition last_or_nil :: "overlay list list \<Rightarrow> overlay list" where
  "last_or_nil xs = (if xs = [] then [] else last xs)"

lemma up_reconcile_frame [simp]:
  "up_latest (up_reconcile rr ord u) = up_latest u" "up_rec (up_reconcile rr ord u) = up_rec u"
  "up_returned (up_reconcile rr ord u) = up_returned u"
  by (simp_all add: up_reconcile_def split: prod.splits)

lemma up_reconcile_last:
  "Reconcile rr ord (up_rec u) (up_latest u) (up_host u) =
     (last (up_results (up_reconcile rr ord u)), up_host (up_reconcile rr ord u))"
  "up_results (up_reconcile rr ord u) \<noteq> []"
  by (simp_all add: up_reconcile_def split: prod.splits)

text \<open>
  The invariant: the loop has taken a prefix of each channel's history, in order, the reconciler
  has seen exactly the events taken, \<open>latest\<close> is the last snapshot taken, and as soon as
  anything has been taken the host is the result of reconciling just this state.
\<close>

definition upd_inv :: "('r, 's, 'o) routes_rec \<Rightarrow> 'r \<Rightarrow> overlay list list \<Rightarrow> route_event list
    \<Rightarrow> channels \<times> ('r, 's) updater \<Rightarrow> bool" where
  "upd_inv rr r0 snaps evs cu = (case cu of (c, u) \<Rightarrow>
     \<exists>ts te. snaps = ts @ ch_snapshots c \<and> evs = te @ ch_events c \<and>
       up_rec u = fold (ApplyEvent rr) te r0 \<and> up_latest u = last_or_nil ts \<and>
       (ts = [] \<and> te = [] \<or> up_results u \<noteq> [] \<and>
          (\<exists>ord s. Reconcile rr ord (up_rec u) (up_latest u) s = (last (up_results u), up_host u))))"

lemma upd_invE:
  assumes "upd_inv rr r0 snaps evs (c, u)"
  obtains ts te where "snaps = ts @ ch_snapshots c" "evs = te @ ch_events c"
    "up_rec u = fold (ApplyEvent rr) te r0" "up_latest u = last_or_nil ts"
    "ts = [] \<and> te = [] \<or> up_results u \<noteq> [] \<and>
       (\<exists>ord s. Reconcile rr ord (up_rec u) (up_latest u) s = (last (up_results u), up_host u))"
  using assms unfolding upd_inv_def prod.case by (elim exE conjE)

lemma upd_inv_select:
  assumes "select rr cu cu'" "upd_inv rr r0 snaps evs cu"
  shows "upd_inv rr r0 snaps evs cu'"
  using assms
proof (induction rule: select.induct)
  case (snapshot u c x xs ord)
  obtain ts te where I: "snaps = ts @ ch_snapshots c" "evs = te @ ch_events c"
    "up_rec u = fold (ApplyEvent rr) te r0" by (rule upd_invE [OF snapshot.prems])
  show ?case unfolding upd_inv_def prod.case
    by (rule exI [of _ "ts @ [x]"], rule exI [of _ te])
      (use I snapshot up_reconcile_last [of rr ord "u\<lparr>up_latest := x\<rparr>"] in \<open>auto simp: on_snapshot_def last_or_nil_def\<close>)
next
  case (event u c ev es ord)
  obtain ts te where I: "snaps = ts @ ch_snapshots c" "evs = te @ ch_events c"
    "up_rec u = fold (ApplyEvent rr) te r0" "up_latest u = last_or_nil ts" by (rule upd_invE [OF event.prems])
  show ?case unfolding upd_inv_def prod.case
    by (rule exI [of _ ts], rule exI [of _ "te @ [ev]"])
      (use I event up_reconcile_last [of rr ord "u\<lparr>up_rec := ApplyEvent rr ev (up_rec u)\<rparr>"] in \<open>auto simp: on_event_def\<close>)
qed (simp_all add: upd_inv_def on_return_def)

lemma reaches_inv:
  "reaches rr u0 snaps evs cu \<Longrightarrow> u0 = NewRoutesUpdater r0 s0 \<Longrightarrow> upd_inv rr r0 snaps evs cu"
proof (induction rule: reaches.induct)
  case start
  then show ?case by (simp add: upd_inv_def open_channels_def NewRoutesUpdater_def last_or_nil_def)
next
  case (loop snaps evs cu cu')
  then show ?case by (blast intro: upd_inv_select)
next
  case (snap snaps evs c u x)
  then show ?case by (auto simp: upd_inv_def)
next
  case (route snaps evs c u ev)
  then show ?case by (auto simp: upd_inv_def)
next
  case (shutting snaps evs c u c')
  have "ch_snapshots c' = ch_snapshots c" "ch_events c' = ch_events c"
    using shutting.hyps by (auto elim: shut.cases)
  then show ?case using shutting.IH [OF shutting.prems] by (simp add: upd_inv_def)
qed

section \<open>The contract of the reconciler\<close>

text \<open>
  \<open>post evs overlays s\<close>: what a successful \<open>Reconcile\<close> establishes on the host when the events
  \<open>evs\<close> have been applied and \<open>overlays\<close> is the snapshot.
\<close>

locale routes_reconciler =
  fixes rr :: "('r, 's, 'o) routes_rec" and r0 :: 'r
    and post :: "route_event list \<Rightarrow> overlay list \<Rightarrow> 's \<Rightarrow> bool"
  assumes reconcile_post:
    "Reconcile rr ord (fold (ApplyEvent rr) evs r0) overlays s = (None, s') \<Longrightarrow> post evs overlays s'"
begin

text \<open>Once the channels are drained, the host reflects everything that was sent.\<close>

lemma updater_settled:
  assumes "reaches rr (NewRoutesUpdater r0 s0) snaps evs (c, u)"
    and "ch_snapshots c = []" "ch_events c = []" "snaps \<noteq> [] \<or> evs \<noteq> []" "last (up_results u) = None"
  shows "post evs (last_or_nil snaps) (up_host u)"
proof -
  have "upd_inv rr r0 snaps evs (c, u)" by (rule reaches_inv [OF assms(1) refl])
  then obtain ord s where "up_rec u = fold (ApplyEvent rr) evs r0" "up_latest u = last_or_nil snaps"
    "Reconcile rr ord (up_rec u) (up_latest u) s = (last (up_results u), up_host u)"
    unfolding upd_inv_def using assms(2-4) by auto
  then show ?thesis using reconcile_post [of ord evs "last_or_nil snaps" s "up_host u"] assms(5) by simp
qed

end

definition gw_rec :: "'s routes \<Rightarrow> (rt_gateway, 's, nat list) routes_rec" where
  "gw_rec rt = \<lparr>ApplyEvent = rg_ApplyEvent, Reconcile = (\<lambda>ns r overlays s. rg_Reconcile ns rt r overlays s)\<rparr>"

definition int_rec :: "'s routes \<Rightarrow> 'f firewall \<Rightarrow> (rt_internal, 's \<times> 'f, ri_order) routes_rec" where
  "int_rec rt fw = \<lparr>ApplyEvent = ri_ApplyEvent, Reconcile = (\<lambda>ord r overlays sf. ri_Reconcile ord rt fw r overlays sf)\<rparr>"

sublocale routes_contract \<subseteq> gw: routes_reconciler "gw_rec rt" rg_new
  "\<lambda>evs overlays s. tables s 0 =
      {\<lparr>rr_TableID = 0, rr_Dst = p, rr_Gw = r_NextHop b, rr_Dev = []\<rparr> | p b.
         learned_route p evs = Some b \<and>
         (\<exists>ov \<in> set overlays. community ov \<noteq> [] \<and> community ov \<in> set (r_Communities b))}"
  by unfold_locales (simp add: gw_rec_def rg_main_table(1))

definition int_post :: "string \<Rightarrow> ('s \<Rightarrow> (string \<times> string) set) \<Rightarrow> ('s \<Rightarrow> u32 \<Rightarrow> rt_route set) \<Rightarrow> ('f \<Rightarrow> bridge set)
    \<Rightarrow> route_event list \<Rightarrow> overlay list \<Rightarrow> 's \<times> 'f \<Rightarrow> bool" where
  "int_post node addrs tables bridges evs overlays sf = (case sf of (s, f) \<Rightarrow>
     (\<forall>ov \<in> set overlays. \<forall>t. ri_table ov = Some t \<longrightarrow> tables s t =
        {vrf_route t b | p b. learned_route p evs = Some b \<and> table_of (ri_communityMap overlays) b = Some t}) \<and>
     (distinct (map ov_Name overlays) \<longrightarrow> (\<forall>ov \<in> set overlays. community ov \<noteq> [] \<longrightarrow>
        {ip. (vrfName (ov_Name ov), ip) \<in> addrs s} = {ip. gm_has (ri_desiredIPs node ov) ip})) \<and>
     bridge_key ` bridges f = {k. gm_has (ri_desiredBridges node overlays) k})"

sublocale host_contract \<subseteq> node: routes_reconciler "int_rec rt fw" "ri_new node" "int_post node addrs tables bridges" for node
proof unfold_locales
  fix ord evs overlays sf sf'
  let ?r = "fold ri_ApplyEvent evs (ri_new node)"
  assume a: "Reconcile (int_rec rt fw) ord (fold (ApplyEvent (int_rec rt fw)) evs (ri_new node)) overlays sf = (None, sf')"
  obtain s f s' f' where sf: "sf = (s, f)" "sf' = (s', f')" by (cases sf, cases sf') auto
  have rec: "ri_Reconcile ord rt fw ?r overlays (s, f) = (None, s', f')" using a by (simp add: int_rec_def sf)
  note spec = ri_Reconcile_spec [OF rec ri_learned_history [THEN conjunct1]]
  have n: "ri_nodeName ?r = node" by (simp add: ri_nodeName_history ri_new_def)
  have "bridge_key ` bridges f' = {k. gm_has (ri_desiredBridges node overlays) k}"
    unfolding spec(5) n by (rule keys_synced [OF bridges_keyed])
  moreover have "tables s' t =
      {vrf_route t b | p b. learned_route p evs = Some b \<and> table_of (ri_communityMap overlays) b = Some t}"
    if "ov \<in> set overlays" "ri_table ov = Some t" for ov t
  proof -
    have "Some t \<in> ri_table ` set overlays" using that by force
    from spec(4) [OF this] show ?thesis unfolding ri_learned_history [THEN conjunct2] .
  qed
  ultimately show "int_post node addrs tables bridges evs overlays sf'"
    unfolding int_post_def sf prod.case using spec(3) [unfolded n] by (intro conjI ballI allI impI)
qed

context routes_contract
begin

lemmas gateway_settled = gw.updater_settled

end

context host_contract
begin

lemmas internal_settled = node.updater_settled

end

section \<open>Progress\<close>

lemma select_ready:
  "(\<exists>cu'. select rr (c, u) cu') \<longleftrightarrow> \<not> up_returned u \<and> (ch_snapshots c \<noteq> [] \<or> ch_events c \<noteq> [] \<or>
     ch_snapshots_closed c \<or> ch_events_closed c \<or> ch_cancelled c)"
  by (cases "ch_snapshots c"; cases "ch_events c") (auto intro: select.intros elim: select.cases)

lemma select_drains:
  "\<not> up_returned u \<Longrightarrow> \<exists>c' u'. (select rr)\<^sup>*\<^sup>* (c, u) (c', u') \<and> ch_snapshots c' = [] \<and> ch_events c' = [] \<and> \<not> up_returned u'"
proof (induction "length (ch_snapshots c) + length (ch_events c)" arbitrary: c u)
  case 0
  then show ?case by auto
next
  case (Suc n)
  obtain c1 u1 where s: "select rr (c, u) (c1, u1)" "\<not> up_returned u1"
    and n: "n = length (ch_snapshots c1) + length (ch_events c1)"
  proof (cases "ch_snapshots c")
    case (Cons x xs)
    show thesis by (rule that [OF select.snapshot [OF Suc.prems Cons]])
        (use Cons Suc.hyps(2) Suc.prems in \<open>simp_all add: on_snapshot_def\<close>)
  next
    case Nil
    then obtain ev es where ev: "ch_events c = ev # es" using Suc.hyps(2) by (cases "ch_events c") auto
    show thesis by (rule that [OF select.event [OF Suc.prems ev]])
        (use Nil ev Suc.hyps(2) Suc.prems in \<open>simp_all add: on_event_def\<close>)
  qed
  from Suc.hyps(1) [OF n s(2)] show ?case using s(1) by (meson converse_rtranclp_into_rtranclp)
qed

section \<open>Properties\<close>

text \<open>The gateway's main table follows the channels, whatever the interleaving of snapshots, route
  events, closing and cancelling: when both channels are drained and the last sync returned no
  error, the table holds exactly the routes learned from all the events sent whose community
  belongs to an overlay of the last snapshot.\<close>

theorem gateway_updater_settles:
  assumes "routes_contract rt vrfs rules addrs tables"
    and "reaches (gw_rec rt) (NewRoutesUpdater rg_new s0) snaps evs (c, u)"
    and "ch_snapshots c = []" "ch_events c = []" "snaps \<noteq> [] \<or> evs \<noteq> []" "last (up_results u) = None"
  shows "tables (up_host u) 0 =
      {\<lparr>rr_TableID = 0, rr_Dst = p, rr_Gw = r_NextHop b, rr_Dev = []\<rparr> | p b.
         learned_route p evs = Some b \<and>
         (\<exists>ov \<in> set (last_or_nil snaps). community ov \<noteq> [] \<and> community ov \<in> set (r_Communities b))}"
  by (rule routes_contract.gateway_settled [OF assms])

definition ex_updater :: "(rt_gateway, mem_host) updater" where
  "ex_updater = on_snapshot (gw_rec mem_routes) [] [ex_blue]
     (on_event (gw_rec mem_routes) [] ex_added (NewRoutesUpdater rg_new mem_host0))"

lemma ex_updater_reached:
  "\<exists>c. reaches (gw_rec mem_routes) (NewRoutesUpdater rg_new mem_host0) [[ex_blue]] [ex_added] (c, ex_updater)
     \<and> ch_snapshots c = [] \<and> ch_events c = []"
proof -
  let ?rr = "gw_rec mem_routes" and ?u0 = "NewRoutesUpdater rg_new mem_host0"
  let ?c1 = "open_channels\<lparr>ch_snapshots := [[ex_blue]]\<rparr>"
  let ?c2 = "?c1\<lparr>ch_events := [ex_added]\<rparr>"
  have 1: "reaches ?rr ?u0 [[ex_blue]] [] (?c1, ?u0)"
    using reaches.snap [OF reaches.start, of ?rr ?u0 "[ex_blue]"] by (simp add: open_channels_def)
  have 2: "reaches ?rr ?u0 [[ex_blue]] [ex_added] (?c2, ?u0)"
    using reaches.route [OF 1, of ex_added] by (simp add: open_channels_def)
  have 3: "reaches ?rr ?u0 [[ex_blue]] [ex_added] (?c2\<lparr>ch_events := []\<rparr>, on_event ?rr [] ex_added ?u0)"
    by (rule reaches.loop [OF 2 select.event]) (simp_all add: NewRoutesUpdater_def open_channels_def)
  have "reaches ?rr ?u0 [[ex_blue]] [ex_added]
      (?c2\<lparr>ch_events := [], ch_snapshots := []\<rparr>, on_snapshot ?rr [] [ex_blue] (on_event ?rr [] ex_added ?u0))"
    by (rule reaches.loop [OF 3 select.snapshot]) (simp_all add: NewRoutesUpdater_def open_channels_def on_event_def)
  then show ?thesis unfolding ex_updater_def by (intro exI conjI) (assumption, simp_all)
qed

theorem gateway_updater_settles_witness:
  "\<lparr>rr_TableID = 0, rr_Dst = ''10.9.0.0/16'', rr_Gw = ''203.0.113.7'', rr_Dev = []\<rparr>
     \<in> set (mh_tables (up_host ex_updater) 0)"
proof -
  obtain c where c: "reaches (gw_rec mem_routes) (NewRoutesUpdater rg_new mem_host0) [[ex_blue]] [ex_added] (c, ex_updater)"
    "ch_snapshots c = []" "ch_events c = []" using ex_updater_reached by blast
  have ne: "[[ex_blue]] \<noteq> [] \<or> [ex_added] \<noteq> []" by simp
  have ok: "last (up_results ex_updater) = None" by code_simp
  note t = gateway_updater_settles [OF memr.routes_contract_axioms c ne ok]
  have "learned_route ''10.9.0.0/16'' [ex_added] = Some ex_route"
    by (simp add: learned_route_def last_event_def ex_added_def ex_route_def)
  then show ?thesis unfolding t last_or_nil_def by (auto simp: ex_route_def ex_defs)
qed

text \<open>The internal node follows the channels in the same way: drained and without an error of the
  last sync, every overlay's table holds exactly its routes from all the events sent, every
  VRF the virtual IPs of the last snapshot on this node, and the firewall a bridge for exactly
  the wanted pairs of overlay and virtual IP.\<close>

theorem internal_updater_settles:
  assumes "routes_contract rt vrfs rules addrs tables" "firewall_contract fw bridges"
    and "reaches (int_rec rt fw) (NewRoutesUpdater (ri_new node) s0) snaps evs (c, u)"
    and "ch_snapshots c = []" "ch_events c = []" "snaps \<noteq> [] \<or> evs \<noteq> []" "last (up_results u) = None"
  shows "int_post node addrs tables bridges evs (last_or_nil snaps) (up_host u)"
  by (rule host_contract.internal_settled [OF host_contract.intro [OF assms(1,2)] assms(3-)])

definition ex_node :: "(rt_internal, mem_host \<times> bridge list) updater" where
  "ex_node = on_snapshot (int_rec mem_routes mem_firewall) ex_order [ex_blue]
     (NewRoutesUpdater (ri_new ''node-1'') (mem_host0, []))"

theorem internal_updater_settles_witness:
  "bridge_key ` set (snd (up_host ex_node)) = {(''blue'', ''10.200.0.5'')}"
proof -
  let ?rr = "int_rec mem_routes mem_firewall" and ?u0 = "NewRoutesUpdater (ri_new ''node-1'') (mem_host0, [] :: bridge list)"
  let ?c1 = "open_channels\<lparr>ch_snapshots := [[ex_blue]]\<rparr>"
  have 1: "reaches ?rr ?u0 [[ex_blue]] [] (?c1, ?u0)"
    using reaches.snap [OF reaches.start, of ?rr ?u0 "[ex_blue]"] by (simp add: open_channels_def)
  have 2: "reaches ?rr ?u0 [[ex_blue]] [] (?c1\<lparr>ch_snapshots := []\<rparr>, ex_node)"
    unfolding ex_node_def by (rule reaches.loop [OF 1 select.snapshot]) (simp_all add: NewRoutesUpdater_def open_channels_def)
  have ok: "last (up_results ex_node) = None" by code_simp
  have "int_post ''node-1'' (\<lambda>s. set (mh_addrs s)) (\<lambda>s t. set (mh_tables s t)) set [] (last_or_nil [[ex_blue]]) (up_host ex_node)"
    by (rule internal_updater_settles [OF memr.routes_contract_axioms memf.firewall_contract_axioms 2 _ _ _ ok])
      (simp_all add: open_channels_def)
  then have "bridge_key ` set (snd (up_host ex_node)) = {k. gm_has (ri_desiredBridges ''node-1'' [ex_blue]) k}"
    unfolding int_post_def last_or_nil_def by (auto split: prod.splits)
  moreover have "map fst (ri_desiredBridges ''node-1'' [ex_blue]) = [(''blue'', ''10.200.0.5'')]" by code_simp
  ultimately show ?thesis unfolding gm_keys by simp
qed

text \<open>The loop blocks only when nothing is ready: a round is possible exactly when \<open>Run\<close> has not
  returned and a channel has something to deliver or is closed, or the context is cancelled.\<close>

theorem updater_progress:
  "(\<exists>cu'. select rr (c, u) cu') \<longleftrightarrow> \<not> up_returned u \<and> (ch_snapshots c \<noteq> [] \<or> ch_events c \<noteq> [] \<or>
     ch_snapshots_closed c \<or> ch_events_closed c \<or> ch_cancelled c)"
  by (rule select_ready)

theorem updater_progress_witness:
  "\<exists>cu'. select (gw_rec mem_routes) (open_channels\<lparr>ch_cancelled := True\<rparr>, NewRoutesUpdater rg_new mem_host0) cu'"
  unfolding updater_progress by (simp add: NewRoutesUpdater_def)

text \<open>Errors of the reconciler never stop the loop: as long as \<open>Run\<close> has not returned, whatever
  the reconciler answers, there are rounds that take everything out of both channels.\<close>

theorem updater_drains:
  assumes "\<not> up_returned u"
  shows "\<exists>c' u'. (select rr)\<^sup>*\<^sup>* (c, u) (c', u') \<and> ch_snapshots c' = [] \<and> ch_events c' = [] \<and> \<not> up_returned u'"
  by (rule select_drains [OF assms])

theorem updater_drains_witness:
  "\<exists>c' u'. (select (gw_rec mem_routes))\<^sup>*\<^sup>*
     (open_channels\<lparr>ch_events := [ex_added]\<rparr>, NewRoutesUpdater rg_new mem_host0) (c', u') \<and> ch_events c' = []"
  using updater_drains [of "NewRoutesUpdater rg_new mem_host0" "gw_rec mem_routes" "open_channels\<lparr>ch_events := [ex_added]\<rparr>"]
  by (auto simp: NewRoutesUpdater_def)

end
