(* ===== verification/Bgp_Gateway.thy ===== *)
theory Bgp_Gateway
  imports Bgp_Lib Go_Strings Example
begin

text \<open>
  The gateway's BGP reconciler (\<open>reconcilers/bgp/gateway.go\<close>): the neighbors and policies wanted
  for a snapshot of overlays, and the reconcile cycle against a BGP server. The lemmas give the
  wanted neighbors in closed form (the first candidate of an address wins), show that every
  policy a wanted neighbor names is wanted too, and prove the cycle correct against the server
  contract.
\<close>

record bgp_gateway =
  bg_asn :: u32
  bg_routerID :: string
  bg_isSecondary :: bool

text \<open>The order in which a call visits its maps.\<close>

record bgp_order =
  ord_policies :: "nat list"
  ord_neighbors :: "nat list"
  ord_ads :: "nat list"

section \<open>The wanted state\<close>

definition peerAddress :: "string \<Rightarrow> go_error + string" where
  "peerAddress endpoint =
     (case SplitHostPort endpoint of
        Inr (host, port) \<Rightarrow> Inr host
      | Inl err \<Rightarrow>
          if ParseIP_ok endpoint then Inr endpoint
          else Inl (Wrap (fmt_q ''parse endpoint '' endpoint) err))"

definition bg_policyNames :: "bgp_gateway \<Rightarrow> overlay \<Rightarrow> string list" where
  "bg_policyNames r ov =
     [importName (ov_Name ov), exportName (ov_Name ov)]
     @ (if bg_isSecondary r then [prependName (ov_Name ov)] else [])"

definition bg_peerNeighbor :: "bgp_gateway \<Rightarrow> overlay \<Rightarrow> peer \<Rightarrow> string \<Rightarrow> neighbor" where
  "bg_peerNeighbor r ov p addr =
     \<lparr>n_Name = ''pntfx-peer-'' @ ov_Name ov @ ''-'' @ peer_Name p, n_Address = addr,
      n_ASN = peer_ASN p, n_IsIBGP = False, n_NextHop = [], n_Policies = bg_policyNames r ov\<rparr>"

definition bg_edgeNeighbor :: "bgp_gateway \<Rightarrow> edge_status \<Rightarrow> neighbor" where
  "bg_edgeNeighbor r e =
     \<lparr>n_Name = ''pntfx-internal-'' @ es_NodeIP e, n_Address = es_NodeIP e,
      n_ASN = bg_asn r, n_IsIBGP = True, n_NextHop = [], n_Policies = []\<rparr>"

definition bg_addPeer ::
  "bgp_gateway \<Rightarrow> overlay \<Rightarrow> peer \<Rightarrow> (string, neighbor) gomap \<Rightarrow> (string, neighbor) gomap" where
  "bg_addPeer r ov p desired =
     (case peerAddress (peer_Endpoint p) of
        Inl err \<Rightarrow> desired
      | Inr addr \<Rightarrow>
          if gm_has desired addr then desired
          else gm_put addr (bg_peerNeighbor r ov p addr) desired)"

definition bg_addEdge ::
  "bgp_gateway \<Rightarrow> edge_status \<Rightarrow> (string, neighbor) gomap \<Rightarrow> (string, neighbor) gomap" where
  "bg_addEdge r e desired =
     (if \<not> es_Ready e \<or> es_NodeIP e = [] then desired
      else if gm_has desired (es_NodeIP e) then desired
      else gm_put (es_NodeIP e) (bg_edgeNeighbor r e) desired)"

definition bg_buildDesiredNeighbors :: "bgp_gateway \<Rightarrow> overlay list \<Rightarrow> (string, neighbor) gomap" where
  "bg_buildDesiredNeighbors r overlays =
     fold (\<lambda>ov desired.
       if community ov = [] then desired
       else fold (bg_addEdge r) (edges_of ov) (fold (bg_addPeer r ov) (peers_of ov) desired))
     overlays gm_empty"

definition bg_importPolicy :: "overlay \<Rightarrow> policy" where
  "bg_importPolicy ov =
     \<lparr>p_Name = importName (ov_Name ov), p_Direction = PolicyImport, p_Match = ''any'',
      p_Action = ''community-set:'' @ community ov\<rparr>"

definition bg_exportPolicy :: "overlay \<Rightarrow> policy" where
  "bg_exportPolicy ov =
     \<lparr>p_Name = exportName (ov_Name ov), p_Direction = PolicyExport,
      p_Match = ''community:'' @ community ov, p_Action = ''accept''\<rparr>"

definition bg_prependPolicy :: "overlay \<Rightarrow> policy" where
  "bg_prependPolicy ov =
     \<lparr>p_Name = prependName (ov_Name ov), p_Direction = PolicyExport,
      p_Match = ''community:'' @ community ov, p_Action = ''prepend-asn:3''\<rparr>"

definition bg_buildDesiredPolicies :: "bgp_gateway \<Rightarrow> overlay list \<Rightarrow> (string, policy) gomap" where
  "bg_buildDesiredPolicies r overlays =
     fold (\<lambda>ov desired.
       if community ov = [] then desired
       else
         let d1 = gm_put (importName (ov_Name ov)) (bg_importPolicy ov) desired;
             d2 = gm_put (exportName (ov_Name ov)) (bg_exportPolicy ov) d1
         in if bg_isSecondary r
            then gm_put (prependName (ov_Name ov)) (bg_prependPolicy ov) d2
            else d2)
     overlays gm_empty"

section \<open>The reconcile cycle\<close>

definition bg_Reconcile :: "bgp_gateway \<Rightarrow> bgp_order \<Rightarrow> 's bgp_server \<Rightarrow> overlay list \<Rightarrow> 's
    \<Rightarrow> go_error option \<times> 's" where
  "bg_Reconcile r ord srv overlays s =
     (let desiredNeighbors = bg_buildDesiredNeighbors r overlays;
          desiredPolicies = bg_buildDesiredPolicies r overlays
      in case ListNeighbors srv s of
        Inl err \<Rightarrow> (Some (Wrap ''list bgp neighbors'' err), s)
      | Inr actualNeighbors \<Rightarrow>
      (case ListPolicies srv s of
        Inl err \<Rightarrow> (Some (Wrap ''list bgp policies'' err), s)
      | Inr actualPolicies \<Rightarrow>
        let st1 = go_for (\<lambda>n. gm_has desiredNeighbors (n_Address n))
                    (\<lambda>n. RemoveNeighbor srv (n_Address n))
                    (\<lambda>n. Wrap (fmt_s ''remove neighbor '' (n_Address n))) actualNeighbors (s, []);
            st2 = go_for (\<lambda>p. gm_has desiredPolicies (p_Name p))
                    (\<lambda>p. RemovePolicy srv (p_Name p))
                    (\<lambda>p. Wrap (fmt_s ''remove policy '' (p_Name p))) actualPolicies st1;
            actualNeighborAddrs = go_index n_Address actualNeighbors;
            actualPolicyNames = go_index p_Name actualPolicies;
            st3 = go_for (\<lambda>p. gm_has actualPolicyNames (p_Name p)) (AddPolicy srv)
                    (\<lambda>p. Wrap (fmt_s ''add policy '' (p_Name p)))
                    (map snd (gm_range (ord_policies ord) desiredPolicies)) st2;
            st4 = go_for (\<lambda>n. gm_has actualNeighborAddrs (n_Address n)) (AddNeighbor srv)
                    (\<lambda>n. Wrap (fmt_s ''add neighbor '' (n_Address n)))
                    (map snd (gm_range (ord_neighbors ord) desiredNeighbors)) st3
        in (join_errs (snd st4), fst st4)))"

section \<open>The wanted neighbors in closed form\<close>

definition bg_peerCands :: "bgp_gateway \<Rightarrow> overlay \<Rightarrow> (string \<times> neighbor) list" where
  "bg_peerCands r ov = concat (map (\<lambda>p. case peerAddress (peer_Endpoint p) of
     Inl _ \<Rightarrow> [] | Inr a \<Rightarrow> [(a, bg_peerNeighbor r ov p a)]) (peers_of ov))"

definition bg_edgeCands :: "bgp_gateway \<Rightarrow> overlay \<Rightarrow> (string \<times> neighbor) list" where
  "bg_edgeCands r ov = map (\<lambda>e. (es_NodeIP e, bg_edgeNeighbor r e))
     (filter (\<lambda>e. es_Ready e \<and> es_NodeIP e \<noteq> []) (edges_of ov))"

definition bg_candidates :: "bgp_gateway \<Rightarrow> overlay list \<Rightarrow> (string \<times> neighbor) list" where
  "bg_candidates r overlays =
     concat (map (\<lambda>ov. bg_peerCands r ov @ bg_edgeCands r ov) (filter (\<lambda>ov. community ov \<noteq> []) overlays))"

lemma bg_peerCands_fold:
  "fold (\<lambda>(k, v). put_new k v) (bg_peerCands r ov) m = fold (bg_addPeer r ov) (peers_of ov) m"
proof -
  have "fold (\<lambda>(k, v). put_new k v) (case peerAddress (peer_Endpoint p) of
          Inl _ \<Rightarrow> [] | Inr a \<Rightarrow> [(a, bg_peerNeighbor r ov p a)]) = bg_addPeer r ov p" for p
    by (auto simp: fun_eq_iff bg_addPeer_def put_new_def split: sum.splits)
  then show ?thesis by (simp add: bg_peerCands_def fold_concat_map)
qed

lemma bg_edgeCands_fold:
  "fold (\<lambda>(k, v). put_new k v) (bg_edgeCands r ov) m = fold (bg_addEdge r) (edges_of ov) m"
proof -
  have "fold (\<lambda>(k, v). put_new k v)
          (map (\<lambda>e. (es_NodeIP e, bg_edgeNeighbor r e)) (filter (\<lambda>e. es_Ready e \<and> es_NodeIP e \<noteq> []) es)) m
        = fold (bg_addEdge r) es m" for es
    by (induction es arbitrary: m) (auto simp: bg_addEdge_def put_new_def)
  then show ?thesis by (simp add: bg_edgeCands_def)
qed

lemma bg_candidates_fold:
  "bg_buildDesiredNeighbors r overlays = fold (\<lambda>(k, v). put_new k v) (bg_candidates r overlays) gm_empty"
proof -
  have "fold (\<lambda>(k, v). put_new k v)
          (concat (map (\<lambda>ov. bg_peerCands r ov @ bg_edgeCands r ov) (filter (\<lambda>ov. community ov \<noteq> []) overlays))) m
      = fold (\<lambda>ov desired. if community ov = [] then desired
          else fold (bg_addEdge r) (edges_of ov) (fold (bg_addPeer r ov) (peers_of ov) desired)) overlays m" for m
    by (induction overlays arbitrary: m) (auto simp: bg_peerCands_fold bg_edgeCands_fold)
  then show ?thesis by (simp add: bg_candidates_def bg_buildDesiredNeighbors_def)
qed

text \<open>The candidate that comes first for an address is the neighbor.\<close>

lemma bg_neighbors_get: "gm_get (bg_buildDesiredNeighbors r overlays) a = map_of (bg_candidates r overlays) a"
  by (simp add: bg_candidates_fold put_new_all_get)

lemma bg_candidates_keyed: "(a, n) \<in> set (bg_candidates r overlays) \<Longrightarrow> n_Address n = a"
  by (auto simp: bg_candidates_def bg_peerCands_def bg_edgeCands_def bg_peerNeighbor_def
      bg_edgeNeighbor_def split: sum.splits)

lemma bg_neighbors_keyed: "keyed_by n_Address (bg_buildDesiredNeighbors r overlays)"
proof (rule keyed_byI)
  show "gm_wf (bg_buildDesiredNeighbors r overlays)"
    by (simp add: bg_candidates_fold put_new_all_wf)
next
  fix k v assume "gm_get (bg_buildDesiredNeighbors r overlays) k = Some v"
  then show "n_Address v = k"
    by (auto simp: bg_neighbors_get dest!: map_of_SomeD bg_candidates_keyed)
qed

section \<open>The wanted policies\<close>

definition bg_policyList :: "bgp_gateway \<Rightarrow> overlay \<Rightarrow> policy list" where
  "bg_policyList r ov = [bg_importPolicy ov, bg_exportPolicy ov]
     @ (if bg_isSecondary r then [bg_prependPolicy ov] else [])"

lemmas bg_policy_defs = bg_importPolicy_def bg_exportPolicy_def bg_prependPolicy_def

lemma bg_policies_fold:
  "bg_buildDesiredPolicies r overlays = fold (\<lambda>(k, v). gm_put k v)
     (map (\<lambda>p. (p_Name p, p))
       (concat (map (bg_policyList r) (filter (\<lambda>ov. community ov \<noteq> []) overlays)))) gm_empty"
proof -
  have "fold (\<lambda>(k, v). gm_put k v) (map (\<lambda>p. (p_Name p, p))
          (concat (map (bg_policyList r) (filter (\<lambda>ov. community ov \<noteq> []) overlays)))) m
      = fold (\<lambda>ov desired. if community ov = [] then desired
          else let d1 = gm_put (importName (ov_Name ov)) (bg_importPolicy ov) desired;
                   d2 = gm_put (exportName (ov_Name ov)) (bg_exportPolicy ov) d1
               in if bg_isSecondary r
                  then gm_put (prependName (ov_Name ov)) (bg_prependPolicy ov) d2 else d2) overlays m" for m
    by (induction overlays arbitrary: m) (auto simp: bg_policyList_def bg_policy_defs)
  then show ?thesis by (simp add: bg_buildDesiredPolicies_def)
qed

lemma bg_policies_keyed: "keyed_by p_Name (bg_buildDesiredPolicies r overlays)"
proof (rule keyed_byI)
  show "gm_wf (bg_buildDesiredPolicies r overlays)"
    by (simp add: bg_policies_fold gm.wf_put_all)
next
  fix k v assume "gm_get (bg_buildDesiredPolicies r overlays) k = Some v"
  from put_all_SomeD [OF this [unfolded bg_policies_fold]] show "p_Name v = k" by force
qed

lemma bg_policies_has:
  "gm_has (bg_buildDesiredPolicies r overlays) x \<longleftrightarrow>
     (\<exists>ov \<in> set overlays. community ov \<noteq> [] \<and> x \<in> set (bg_policyNames r ov))"
proof -
  have "gm_has (bg_buildDesiredPolicies r overlays) x \<longleftrightarrow>
      (\<exists>ov \<in> set overlays. community ov \<noteq> [] \<and> x \<in> p_Name ` set (bg_policyList r ov))"
    unfolding bg_policies_fold put_all_has by (simp add: image_image image_UN conj_commute) blast
  moreover have "p_Name ` set (bg_policyList r ov) = set (bg_policyNames r ov)" for ov
    by (auto simp: bg_policyList_def bg_policy_defs bg_policyNames_def)
  ultimately show ?thesis by simp
qed

lemma bg_neighbors_resolve:
  "gm_get (bg_buildDesiredNeighbors r overlays) a = Some n \<Longrightarrow> x \<in> set (n_Policies n) \<Longrightarrow>
     gm_has (bg_buildDesiredPolicies r overlays) x"
proof -
  assume n: "gm_get (bg_buildDesiredNeighbors r overlays) a = Some n" and x: "x \<in> set (n_Policies n)"
  have "(a, n) \<in> set (bg_candidates r overlays)" using n by (simp add: bg_neighbors_get map_of_SomeD)
  then obtain ov where ov: "ov \<in> set overlays" "community ov \<noteq> []"
      "(a, n) \<in> set (bg_peerCands r ov) \<or> (a, n) \<in> set (bg_edgeCands r ov)"
    by (auto simp: bg_candidates_def)
  then have "x \<in> set (bg_policyNames r ov)"
    using x by (auto simp: bg_peerCands_def bg_edgeCands_def bg_peerNeighbor_def bg_edgeNeighbor_def
        split: sum.splits)
  with ov show ?thesis by (auto simp: bg_policies_has)
qed

section \<open>The cycle against the contract\<close>

context bgp_contract
begin

text \<open>The outcome of a cycle whose two List calls succeed, with or without errors after that.\<close>

lemma bg_Reconcile_spec:
  assumes rec: "bg_Reconcile r ord srv overlays s = (res, s')"
    and l: "ListNeighbors srv s = Inr ns" "ListPolicies srv s = Inr ps"
  shows "sync_result n_Address (bg_buildDesiredNeighbors r overlays) (nbrs s) (nbrs s') (res = None) \<and>
    sync_result p_Name (bg_buildDesiredPolicies r overlays) (pols s) (pols s') (res = None) \<and> ads s' = ads s"
proof -
  let ?DN = "bg_buildDesiredNeighbors r overlays" and ?DP = "bg_buildDesiredPolicies r overlays"
  have ln: "set ns = nbrs s" and lp: "set ps = pols s"
    using list_nbrs [OF l(1)] list_pols [OF l(2)] by simp_all
  obtain s1 e1 where 1: "go_for (\<lambda>n. gm_has ?DN (n_Address n)) (\<lambda>n. RemoveNeighbor srv (n_Address n))
      (\<lambda>n. Wrap (fmt_s ''remove neighbor '' (n_Address n))) ns (s, []) = (s1, e1)" by (rule prod.exhaust)
  obtain s2 e2 where 2: "go_for (\<lambda>p. gm_has ?DP (p_Name p)) (\<lambda>p. RemovePolicy srv (p_Name p))
      (\<lambda>p. Wrap (fmt_s ''remove policy '' (p_Name p))) ps (s1, e1) = (s2, e2)" by (rule prod.exhaust)
  obtain s3 e3 where 3: "go_for (\<lambda>p. p_Name p \<in> p_Name ` pols s) (AddPolicy srv)
      (\<lambda>p. Wrap (fmt_s ''add policy '' (p_Name p))) (map snd (gm_range (ord_policies ord) ?DP)) (s2, e2) = (s3, e3)"
    by (rule prod.exhaust)
  obtain s4 e4 where 4: "go_for (\<lambda>n. n_Address n \<in> n_Address ` nbrs s) (AddNeighbor srv)
      (\<lambda>n. Wrap (fmt_s ''add neighbor '' (n_Address n))) (map snd (gm_range (ord_neighbors ord) ?DN)) (s3, e3) = (s4, e4)"
    by (rule prod.exhaust)
  have r: "res = join_errs e4" "s' = s4"
    using rec l 1 2 3 4 ln lp by (simp_all add: bg_Reconcile_def Let_def)
  have f1: "pols s1 = pols s" "ads s1 = ads s" by (rule go_for_frame [OF 1], simp add: nbr_frame)+
  have f2: "nbrs s2 = nbrs s1" "ads s2 = ads s1" by (rule go_for_frame [OF 2], simp add: pol_frame)+
  have f3: "nbrs s3 = nbrs s2" "ads s3 = ads s2" by (rule go_for_frame [OF 3], simp add: pol_frame)+
  have f4: "pols s4 = pols s3" "ads s4 = ads s3" by (rule go_for_frame [OF 4], simp add: nbr_frame)+
  have ok: "e4 = [] \<and> e3 = [] \<and> e2 = [] \<and> e1 = []" if "res = None"
    using that r(1) go_for_no_new_errs [OF 2] go_for_no_new_errs [OF 3] go_for_no_new_errs [OF 4] by simp
  have "sync_result n_Address ?DN (nbrs s) (nbrs s4) (res = None)"
    using ok by (intro nbr.sync_resultI [OF bg_neighbors_keyed ln 1 _ 4]) (auto simp: f2 f3)
  moreover have "sync_result p_Name ?DP (pols s1) (pols s3) (res = None)"
    using ok by (intro pol.sync_resultI [OF bg_policies_keyed _ 2 refl 3 [folded f1(1)]]) (auto simp: lp f1)
  ultimately show ?thesis by (simp add: r f1 f2 f3 f4)
qed

lemma bg_Reconcile_lists:
  assumes "bg_Reconcile r ord srv overlays s = (None, s')"
  obtains ns ps where "ListNeighbors srv s = Inr ns" "ListPolicies srv s = Inr ps"
  using assms by (auto simp: bg_Reconcile_def Let_def split: sum.splits)

lemma bg_Reconcile_again:
  assumes rec: "bg_Reconcile r ord srv overlays s = (None, s')"
    and l: "ListNeighbors srv s' = Inr ns" "ListPolicies srv s' = Inr ps"
  shows "bg_Reconcile r ord' srv overlays s' = (None, s')"
proof -
  obtain ns0 ps0 where "ListNeighbors srv s = Inr ns0" "ListPolicies srv s = Inr ps0"
    by (rule bg_Reconcile_lists [OF rec])
  from bg_Reconcile_spec [OF rec this]
  have v: "nbrs s' = synced n_Address (bg_buildDesiredNeighbors r overlays) (nbrs s)"
    "pols s' = synced p_Name (bg_buildDesiredPolicies r overlays) (pols s)"
    by (simp_all add: sync_result_def)
  show ?thesis
    using list_nbrs [OF l(1)] list_pols [OF l(2)]
    by (simp add: bg_Reconcile_def l sync_rem_noop [OF bg_neighbors_keyed v(1)]
        sync_rem_noop [OF bg_policies_keyed v(2)] sync_add_noop [OF bg_neighbors_keyed v(1)]
        sync_add_noop [OF bg_policies_keyed v(2)])
qed

text \<open>A server that refuses a neighbor only for naming an unknown policy refuses nothing.\<close>

lemma bg_Reconcile_resolves:
  assumes l: "ListNeighbors srv s = Inr ns" "ListPolicies srv s = Inr ps"
    and rn: "\<And>a s. fst (RemoveNeighbor srv a s) = None" and rp: "\<And>x s. fst (RemovePolicy srv x s) = None"
    and ap: "\<And>p s. fst (AddPolicy srv p s) = None"
    and an: "\<And>n s. set (n_Policies n) \<subseteq> p_Name ` pols s \<Longrightarrow> fst (AddNeighbor srv n s) = None"
  shows "fst (bg_Reconcile r ord srv overlays s) = None"
proof -
  let ?DN = "bg_buildDesiredNeighbors r overlays" and ?DP = "bg_buildDesiredPolicies r overlays"
  let ?st1 = "go_for (\<lambda>n. gm_has ?DN (n_Address n)) (\<lambda>n. RemoveNeighbor srv (n_Address n))
      (\<lambda>n. Wrap (fmt_s ''remove neighbor '' (n_Address n))) ns (s, [])"
  let ?st2 = "go_for (\<lambda>p. gm_has ?DP (p_Name p)) (\<lambda>p. RemovePolicy srv (p_Name p))
      (\<lambda>p. Wrap (fmt_s ''remove policy '' (p_Name p))) ps ?st1"
  let ?st3 = "go_for (\<lambda>p. p_Name p \<in> p_Name ` pols s) (AddPolicy srv)
      (\<lambda>p. Wrap (fmt_s ''add policy '' (p_Name p))) (map snd (gm_range (ord_policies ord) ?DP)) ?st2"
  have e1: "snd ?st1 = []" by (subst go_for_total) (simp_all add: rn)
  have e2: "snd ?st2 = []" by (subst go_for_total) (simp_all add: rp e1)
  have e3: "snd ?st3 = []" by (subst go_for_total) (simp_all add: ap e2)
  have p1: "pols (fst ?st1) = pols s" by (subst go_for_pres) (simp_all add: nbr_frame)
  have st: "(fst ?st1, []) = ?st1" "(fst ?st2, []) = ?st2" "(fst ?st3, []) = ?st3"
    by (simp_all add: e1 e2 e3 prod_eq_iff)
  have r2: "go_for (\<lambda>p. gm_has ?DP (p_Name p)) (\<lambda>p. RemovePolicy srv (p_Name p))
      (\<lambda>p. Wrap (fmt_s ''remove policy '' (p_Name p))) ps (fst ?st1, []) = (fst ?st2, [])"
    and r3: "go_for (\<lambda>p. p_Name p \<in> p_Name ` pols (fst ?st1)) (AddPolicy srv)
      (\<lambda>p. Wrap (fmt_s ''add policy '' (p_Name p))) (map snd (gm_range (ord_policies ord) ?DP))
      (fst ?st2, []) = (fst ?st3, [])"
    by (simp_all only: st p1)
  have "pols (fst ?st3) = synced p_Name ?DP (pols (fst ?st1))"
    by (rule pol.sync_view [OF bg_policies_keyed _ r2 refl r3]) (simp only: p1 list_pols [OF l(2)])
  then have names: "p_Name ` pols (fst ?st3) = {x. gm_has ?DP x}"
    by (simp add: keys_synced [OF bg_policies_keyed])
  have "snd (go_for (\<lambda>n. n_Address n \<in> n_Address ` nbrs s) (AddNeighbor srv)
      (\<lambda>n. Wrap (fmt_s ''add neighbor '' (n_Address n))) (map snd (gm_range (ord_neighbors ord) ?DN)) ?st3) = snd ?st3"
  proof (rule go_for_total_inv [where I = "\<lambda>t. p_Name ` pols t = {x. gm_has ?DP x}"])
    fix n t assume I: "p_Name ` pols t = {x. gm_has ?DP x}"
      and "n \<in> set (map snd (gm_range (ord_neighbors ord) ?DN))"
    then have "set (n_Policies n) \<subseteq> p_Name ` pols t"
      using gm.range_vals [OF keyed_by_wf [OF bg_neighbors_keyed]] bg_neighbors_resolve by blast
    then show "fst (AddNeighbor srv n t) = None \<and> p_Name ` pols (snd (AddNeighbor srv n t)) = {x. gm_has ?DP x}"
      by (simp add: an nbr_frame I)
  qed (rule names)
  then show ?thesis
    using list_nbrs [OF l(1)] list_pols [OF l(2)] e3 by (simp add: bg_Reconcile_def Let_def l)
qed

end

section \<open>Properties\<close>

definition ex_bg :: bgp_gateway where
  "ex_bg = \<lparr>bg_asn = 65000, bg_routerID = ''10.0.0.1'', bg_isSecondary = True\<rparr>"

definition ex_ord :: bgp_order where
  "ex_ord = \<lparr>ord_policies = [2, 1], ord_neighbors = [1], ord_ads = []\<rparr>"

text \<open>The orphan and the stale neighbor the example daemon starts with.\<close>

definition ex_bgp_state :: mem_bgp where
  "ex_bgp_state = \<lparr>
     mb_nbrs = [\<lparr>n_Name = ''old'', n_Address = ''192.0.2.1'', n_ASN = 1, n_IsIBGP = False, n_NextHop = [], n_Policies = []\<rparr>,
                \<lparr>n_Name = ''east'', n_Address = ''203.0.113.7'', n_ASN = 64999, n_IsIBGP = False, n_NextHop = [], n_Policies = []\<rparr>],
     mb_pols = [], mb_ads = []\<rparr>"

text \<open>C4: A gateway BGP cycle that returns no error leaves the daemon with exactly the wanted
  neighbor addresses and policy names: the entries that were there under a wanted key are kept,
  all others are removed, and the missing ones are created as built from the snapshot.
  Advertisements are not touched. This holds for every iteration order of the maps.\<close>

theorem bg_converges:
  assumes "bgp_contract srv nbrs pols ads"
    and "bg_Reconcile r ord srv overlays s = (None, s')"
  shows "nbrs s' = synced n_Address (bg_buildDesiredNeighbors r overlays) (nbrs s)
    \<and> pols s' = synced p_Name (bg_buildDesiredPolicies r overlays) (pols s)
    \<and> n_Address ` nbrs s' = {a. gm_has (bg_buildDesiredNeighbors r overlays) a}
    \<and> p_Name ` pols s' = {x. gm_has (bg_buildDesiredPolicies r overlays) x}
    \<and> ads s' = ads s"
proof -
  obtain ns ps where "ListNeighbors srv s = Inr ns" "ListPolicies srv s = Inr ps"
    by (rule bgp_contract.bg_Reconcile_lists [OF assms])
  from bgp_contract.bg_Reconcile_spec [OF assms this] show ?thesis
    by (simp add: sync_result_def keys_synced [OF bg_neighbors_keyed] keys_synced [OF bg_policies_keyed])
qed

theorem bg_converges_witness:
  "n_Address ` set (mb_nbrs (snd (bg_Reconcile ex_bg ex_ord mem_bgp_server [ex_blue, ex_red, ex_new] ex_bgp_state)))
     = {''203.0.113.7'', ''10.0.0.21'', ''10.0.0.22''}"
proof -
  have "fst (bg_Reconcile ex_bg ex_ord mem_bgp_server [ex_blue, ex_red, ex_new] ex_bgp_state) = None"
    by code_simp
  note c = bg_converges [OF mem.bgp_contract_axioms pair_fst [OF this], unfolded gm_keys]
  have "map fst (bg_buildDesiredNeighbors ex_bg [ex_blue, ex_red, ex_new]) = [''203.0.113.7'', ''10.0.0.21'', ''10.0.0.22'']"
    by code_simp
  with c show ?thesis by (metis list.simps(15) set_empty)
qed

text \<open>C32: Whatever fails during a gateway BGP cycle, a session that is up under a wanted address
  stays up unchanged, no neighbor appears that the snapshot does not ask for, and an address
  that has a session is never given a different one: a changed peer configuration under the
  same address is not applied.\<close>

theorem bg_sessions_kept:
  assumes "bgp_contract srv nbrs pols ads"
    and "bg_Reconcile r ord srv overlays s = (res, s')"
  shows "(\<forall>n \<in> nbrs s. gm_has (bg_buildDesiredNeighbors r overlays) (n_Address n) \<longrightarrow> n \<in> nbrs s')
    \<and> (\<forall>n \<in> nbrs s'. n \<in> nbrs s \<or> gm_get (bg_buildDesiredNeighbors r overlays) (n_Address n) = Some n)
    \<and> (\<forall>n \<in> nbrs s'. n_Address n \<in> n_Address ` nbrs s \<longrightarrow> n \<in> nbrs s)"
proof (cases "\<exists>ns ps. ListNeighbors srv s = Inr ns \<and> ListPolicies srv s = Inr ps")
  case True
  then have "sync_result n_Address (bg_buildDesiredNeighbors r overlays) (nbrs s) (nbrs s') (res = None)"
    using bgp_contract.bg_Reconcile_spec [OF assms] by blast
  then show ?thesis by (simp add: sync_result_def)
next
  case False
  then have "s' = s" using assms(2) by (auto simp: bg_Reconcile_def Let_def split: sum.splits)
  then show ?thesis by blast
qed

theorem bg_sessions_kept_witness:
  "\<lparr>n_Name = ''east'', n_Address = ''203.0.113.7'', n_ASN = 64999, n_IsIBGP = False, n_NextHop = [], n_Policies = []\<rparr>
     \<in> set (mb_nbrs (snd (bg_Reconcile ex_bg ex_ord mem_bgp_server [ex_blue] ex_bgp_state)))"
proof -
  note k = bg_sessions_kept [OF mem.bgp_contract_axioms prod.collapse [symmetric],
      where r = ex_bg and ord = ex_ord and overlays = "[ex_blue]" and s = ex_bgp_state]
  have "gm_has (bg_buildDesiredNeighbors ex_bg [ex_blue]) ''203.0.113.7''" by code_simp
  with k show ?thesis by (simp add: ex_bgp_state_def)
qed

text \<open>A gateway BGP cycle is idempotent: run again on the state a successful cycle left, with
  the same snapshot and whatever iteration order, it succeeds and changes nothing.\<close>

theorem bg_idempotent:
  assumes "bgp_contract srv nbrs pols ads"
    and "bg_Reconcile r ord srv overlays s = (None, s')"
    and "ListNeighbors srv s' = Inr ns" "ListPolicies srv s' = Inr ps"
  shows "bg_Reconcile r ord' srv overlays s' = (None, s')"
  by (rule bgp_contract.bg_Reconcile_again [OF assms])

theorem bg_idempotent_witness:
  "let s' = snd (bg_Reconcile ex_bg ex_ord mem_bgp_server [ex_blue, ex_red] ex_bgp_state)
   in bg_Reconcile ex_bg \<lparr>ord_policies = [], ord_neighbors = [0, 1], ord_ads = []\<rparr> mem_bgp_server [ex_blue, ex_red] s' = (None, s')"
proof -
  have "fst (bg_Reconcile ex_bg ex_ord mem_bgp_server [ex_blue, ex_red] ex_bgp_state) = None"
    by code_simp
  from bg_idempotent [OF mem.bgp_contract_axioms pair_fst [OF this]]
  show ?thesis by (simp add: mem_bgp_server_def Let_def)
qed

text \<open>The neighbors a gateway wants, in closed form: list the peers with a parsable endpoint
  and then the ready edge nodes of every overlay that has a community, in snapshot order; an
  address belongs to the first of them. Peers carry the peer's ASN and the overlay's policies,
  edge nodes the cluster's ASN.\<close>

theorem bg_first_candidate_wins:
  "gm_get (bg_buildDesiredNeighbors r overlays) a =
     map_of (concat (map (\<lambda>ov.
         concat (map (\<lambda>p. case peerAddress (peer_Endpoint p) of
            Inl _ \<Rightarrow> [] | Inr addr \<Rightarrow> [(addr, bg_peerNeighbor r ov p addr)]) (peers_of ov))
         @ map (\<lambda>e. (es_NodeIP e, bg_edgeNeighbor r e)) (filter (\<lambda>e. es_Ready e \<and> es_NodeIP e \<noteq> []) (edges_of ov)))
       (filter (\<lambda>ov. community ov \<noteq> []) overlays))) a"
  by (simp add: bg_neighbors_get bg_candidates_def bg_peerCands_def bg_edgeCands_def)

text \<open>Policies are created before the neighbors that name them: with a daemon that refuses a
  neighbor only because a policy it names is missing, and refuses nothing else, a gateway cycle
  returns no error.\<close>

theorem bg_policies_before_neighbors:
  assumes "bgp_contract srv nbrs pols ads"
    and "ListNeighbors srv s = Inr ns" "ListPolicies srv s = Inr ps"
    and "\<And>a s. fst (RemoveNeighbor srv a s) = None" "\<And>x s. fst (RemovePolicy srv x s) = None"
    and "\<And>p s. fst (AddPolicy srv p s) = None"
    and "\<And>n s. set (n_Policies n) \<subseteq> p_Name ` pols s \<Longrightarrow> fst (AddNeighbor srv n s) = None"
  shows "fst (bg_Reconcile r ord srv overlays s) = None"
  by (rule bgp_contract.bg_Reconcile_resolves [OF assms])

theorem bg_policies_before_neighbors_witness:
  "fst (bg_Reconcile ex_bg ex_ord strict_bgp_server [ex_blue, ex_red] ex_bgp_state) = None"
  by (rule bg_policies_before_neighbors [OF strict.bgp_contract_axioms])
    (simp_all add: strict_bgp_server_def mem_bgp_server_def)

end
