(* ===== verification/Bgp_Internal.thy ===== *)
theory Bgp_Internal
  imports Bgp_Gateway
begin

text \<open>
  The internal node's BGP reconciler (\<open>reconcilers/bgp/internalnode.go\<close>): one iBGP neighbor per
  gateway address, an export and an import policy per overlay, one advertisement per ready edge
  on this node, and the reconcile cycle over the three kinds. The lemmas give the wanted
  advertisements in closed form and prove the cycle correct against the server contract.
\<close>

record bgp_internal =
  bi_asn :: u32
  bi_routerID :: string
  bi_nodeName :: string

section \<open>The wanted state\<close>

definition bi_gatewayNeighbor :: "bgp_internal \<Rightarrow> gateway \<Rightarrow> neighbor" where
  "bi_gatewayNeighbor r gw =
     \<lparr>n_Name = ''pntfx-gateway-'' @ gw_NodeIP gw, n_Address = gw_NodeIP gw, n_ASN = bi_asn r,
      n_IsIBGP = True, n_NextHop = [], n_Policies = []\<rparr>"

definition bi_addGateway ::
  "bgp_internal \<Rightarrow> gateway \<Rightarrow> (string, neighbor) gomap \<Rightarrow> (string, neighbor) gomap" where
  "bi_addGateway r gw desired =
     (if gw_NodeIP gw = [] then desired
      else if gm_has desired (gw_NodeIP gw) then desired
      else gm_put (gw_NodeIP gw) (bi_gatewayNeighbor r gw) desired)"

definition bi_buildDesiredNeighbors :: "bgp_internal \<Rightarrow> overlay list \<Rightarrow> (string, neighbor) gomap" where
  "bi_buildDesiredNeighbors r overlays =
     fold (\<lambda>ov desired. fold (bi_addGateway r) (gateways_of ov) desired) overlays gm_empty"

definition bi_exportPolicy :: "overlay \<Rightarrow> policy" where
  "bi_exportPolicy ov =
     \<lparr>p_Name = exportName (ov_Name ov), p_Direction = PolicyExport, p_Match = ''any'',
      p_Action = ''community-set:'' @ community ov\<rparr>"

definition bi_importPolicy :: "overlay \<Rightarrow> policy" where
  "bi_importPolicy ov =
     \<lparr>p_Name = importName (ov_Name ov), p_Direction = PolicyImport,
      p_Match = ''community:'' @ community ov, p_Action = ''accept''\<rparr>"

definition bi_buildDesiredPolicies :: "bgp_internal \<Rightarrow> overlay list \<Rightarrow> (string, policy) gomap" where
  "bi_buildDesiredPolicies r overlays =
     fold (\<lambda>ov desired.
       if community ov = [] then desired
       else gm_put (importName (ov_Name ov)) (bi_importPolicy ov)
              (gm_put (exportName (ov_Name ov)) (bi_exportPolicy ov) desired))
     overlays gm_empty"

definition bi_prefix :: "edge_status \<Rightarrow> string" where
  "bi_prefix e = es_VirtualIP e @ ''/32''"

definition bi_addEdge :: "bgp_internal \<Rightarrow> overlay \<Rightarrow> edge_status \<Rightarrow> (string, bgp_route) gomap
    \<Rightarrow> (string, bgp_route) gomap" where
  "bi_addEdge r ov e desired =
     (if es_NodeName e \<noteq> bi_nodeName r \<or> \<not> es_Ready e \<or> es_VirtualIP e = [] then desired
      else gm_put (bi_prefix e)
             \<lparr>r_Prefix = bi_prefix e, r_NextHop = [], r_Communities = [community ov]\<rparr> desired)"

definition bi_buildDesiredAdvertisements :: "bgp_internal \<Rightarrow> overlay list \<Rightarrow> (string, bgp_route) gomap" where
  "bi_buildDesiredAdvertisements r overlays =
     fold (\<lambda>ov desired. if community ov = [] then desired
                        else fold (bi_addEdge r ov) (edges_of ov) desired) overlays gm_empty"

section \<open>The reconcile cycle\<close>

definition bi_Reconcile :: "bgp_internal \<Rightarrow> bgp_order \<Rightarrow> 's bgp_server \<Rightarrow> overlay list \<Rightarrow> 's
    \<Rightarrow> go_error option \<times> 's" where
  "bi_Reconcile r ord srv overlays s =
     (let desiredNeighbors = bi_buildDesiredNeighbors r overlays;
          desiredPolicies = bi_buildDesiredPolicies r overlays;
          desiredAds = bi_buildDesiredAdvertisements r overlays
      in case ListNeighbors srv s of
        Inl err \<Rightarrow> (Some (Wrap ''list bgp neighbors'' err), s)
      | Inr actualNeighbors \<Rightarrow>
      (case ListPolicies srv s of
        Inl err \<Rightarrow> (Some (Wrap ''list bgp policies'' err), s)
      | Inr actualPolicies \<Rightarrow>
      (case ListAdvertised srv s of
        Inl err \<Rightarrow> (Some (Wrap ''list bgp advertised'' err), s)
      | Inr actualAdvertised \<Rightarrow>
        let st1 = go_for (\<lambda>n. gm_has desiredNeighbors (n_Address n))
                    (\<lambda>n. RemoveNeighbor srv (n_Address n))
                    (\<lambda>n. Wrap (fmt_s ''remove neighbor '' (n_Address n))) actualNeighbors (s, []);
            st2 = go_for (\<lambda>p. gm_has desiredPolicies (p_Name p))
                    (\<lambda>p. RemovePolicy srv (p_Name p))
                    (\<lambda>p. Wrap (fmt_s ''remove policy '' (p_Name p))) actualPolicies st1;
            st3 = go_for (\<lambda>rt. gm_has desiredAds (r_Prefix rt))
                    (\<lambda>rt. Withdraw srv (r_Prefix rt))
                    (\<lambda>rt. Wrap (fmt_s ''withdraw '' (r_Prefix rt))) actualAdvertised st2;
            actualNeighborAddrs = go_index n_Address actualNeighbors;
            actualPolicyNames = go_index p_Name actualPolicies;
            actualPrefixes = go_index r_Prefix actualAdvertised;
            st4 = go_for (\<lambda>p. gm_has actualPolicyNames (p_Name p)) (AddPolicy srv)
                    (\<lambda>p. Wrap (fmt_s ''add policy '' (p_Name p)))
                    (map snd (gm_range (ord_policies ord) desiredPolicies)) st3;
            st5 = go_for (\<lambda>n. gm_has actualNeighborAddrs (n_Address n)) (AddNeighbor srv)
                    (\<lambda>n. Wrap (fmt_s ''add neighbor '' (n_Address n)))
                    (map snd (gm_range (ord_neighbors ord) desiredNeighbors)) st4;
            st6 = go_for (\<lambda>ad. gm_has actualPrefixes (r_Prefix ad))
                    (\<lambda>ad. Advertise srv (r_Prefix ad) (r_Communities ad))
                    (\<lambda>ad. Wrap (fmt_s ''advertise '' (r_Prefix ad)))
                    (map snd (gm_range (ord_ads ord) desiredAds)) st5
        in (join_errs (snd st6), fst st6))))"

section \<open>The wanted state in closed form\<close>

lemma bi_neighbors_fold:
  "bi_buildDesiredNeighbors r overlays = fold (\<lambda>(k, v). put_new k v)
     (map (\<lambda>gw. (gw_NodeIP gw, bi_gatewayNeighbor r gw))
       (filter (\<lambda>gw. gw_NodeIP gw \<noteq> []) (concat (map gateways_of overlays)))) gm_empty"
proof -
  have g: "fold (\<lambda>(k, v). put_new k v) (map (\<lambda>gw. (gw_NodeIP gw, bi_gatewayNeighbor r gw))
        (filter (\<lambda>gw. gw_NodeIP gw \<noteq> []) gws)) m = fold (bi_addGateway r) gws m" for gws m
    by (induction gws arbitrary: m) (auto simp: bi_addGateway_def put_new_def)
  show ?thesis by (simp only: g bi_buildDesiredNeighbors_def fold_concat_map)
qed

lemma bi_neighbors_keyed: "keyed_by n_Address (bi_buildDesiredNeighbors r overlays)"
proof (rule keyed_byI)
  show "gm_wf (bi_buildDesiredNeighbors r overlays)"
    by (simp add: bi_neighbors_fold put_new_all_wf)
next
  fix k v assume "gm_get (bi_buildDesiredNeighbors r overlays) k = Some v"
  then have "map_of (map (\<lambda>gw. (gw_NodeIP gw, bi_gatewayNeighbor r gw))
       (filter (\<lambda>gw. gw_NodeIP gw \<noteq> []) (concat (map gateways_of overlays)))) k = Some v"
    by (simp add: bi_neighbors_fold put_new_all_get)
  from map_of_SomeD [OF this] show "n_Address v = k" by (auto simp: bi_gatewayNeighbor_def)
qed

lemma bi_neighbors_has:
  "gm_has (bi_buildDesiredNeighbors r overlays) a \<longleftrightarrow>
     a \<noteq> [] \<and> (\<exists>ov \<in> set overlays. a \<in> gw_NodeIP ` set (gateways_of ov))"
  by (auto simp: gm_has_def bi_neighbors_fold put_new_all_get map_of_eq_None_iff image_iff)

lemma bi_policies_fold:
  "bi_buildDesiredPolicies r overlays = fold (\<lambda>(k, v). gm_put k v)
     (concat (map (\<lambda>ov. [(exportName (ov_Name ov), bi_exportPolicy ov), (importName (ov_Name ov), bi_importPolicy ov)])
       (filter (\<lambda>ov. community ov \<noteq> []) overlays))) gm_empty"
proof -
  have "fold (\<lambda>(k, v). gm_put k v) (concat (map (\<lambda>ov. [(exportName (ov_Name ov), bi_exportPolicy ov),
          (importName (ov_Name ov), bi_importPolicy ov)]) (filter (\<lambda>ov. community ov \<noteq> []) overlays))) m
      = fold (\<lambda>ov desired. if community ov = [] then desired
          else gm_put (importName (ov_Name ov)) (bi_importPolicy ov)
              (gm_put (exportName (ov_Name ov)) (bi_exportPolicy ov) desired)) overlays m" for m
    by (induction overlays arbitrary: m) auto
  then show ?thesis by (simp add: bi_buildDesiredPolicies_def)
qed

lemma bi_policies_keyed: "keyed_by p_Name (bi_buildDesiredPolicies r overlays)"
proof (rule keyed_byI)
  show "gm_wf (bi_buildDesiredPolicies r overlays)"
    by (simp add: bi_policies_fold gm.wf_put_all)
next
  fix k v assume "gm_get (bi_buildDesiredPolicies r overlays) k = Some v"
  from put_all_SomeD [OF this [unfolded bi_policies_fold]] show "p_Name v = k"
    by (auto simp: bi_exportPolicy_def bi_importPolicy_def)
qed

text \<open>The edges this node advertises, with their overlays, in snapshot order.\<close>

definition bi_localEdges :: "bgp_internal \<Rightarrow> overlay list \<Rightarrow> (overlay \<times> edge_status) list" where
  "bi_localEdges r overlays = concat (map (\<lambda>ov. map (Pair ov) (filter (\<lambda>e.
     es_NodeName e = bi_nodeName r \<and> es_Ready e \<and> es_VirtualIP e \<noteq> []) (edges_of ov)))
     (filter (\<lambda>ov. community ov \<noteq> []) overlays))"

definition bi_adOf :: "overlay \<times> edge_status \<Rightarrow> bgp_route" where
  "bi_adOf = (\<lambda>(ov, e). \<lparr>r_Prefix = bi_prefix e, r_NextHop = [], r_Communities = [community ov]\<rparr>)"

lemma bi_ads_fold:
  "bi_buildDesiredAdvertisements r overlays =
     fold (\<lambda>(k, v). gm_put k v) (map (\<lambda>x. (r_Prefix (bi_adOf x), bi_adOf x)) (bi_localEdges r overlays)) gm_empty"
proof -
  have g: "fold (\<lambda>(k, v). gm_put k v) (map (\<lambda>x. (r_Prefix (bi_adOf x), bi_adOf x)) (map (Pair ov) (filter (\<lambda>e.
        es_NodeName e = bi_nodeName r \<and> es_Ready e \<and> es_VirtualIP e \<noteq> []) es))) m = fold (bi_addEdge r ov) es m"
    for ov es m
    by (induction es arbitrary: m) (auto simp: bi_addEdge_def bi_adOf_def)
  have "fold (\<lambda>(k, v). gm_put k v) (map (\<lambda>x. (r_Prefix (bi_adOf x), bi_adOf x)) (bi_localEdges r overlays)) m
      = fold (\<lambda>ov desired. if community ov = [] then desired
          else fold (bi_addEdge r ov) (edges_of ov) desired) overlays m" for m
    unfolding bi_localEdges_def
    by (induction overlays arbitrary: m) (simp_all add: g del: map_map)
  then show ?thesis by (simp add: bi_buildDesiredAdvertisements_def)
qed

lemma bi_ads_get:
  "gm_get (bi_buildDesiredAdvertisements r overlays) x =
     map_of (rev (map (\<lambda>x. (r_Prefix (bi_adOf x), bi_adOf x)) (bi_localEdges r overlays))) x"
  by (simp add: bi_ads_fold put_all_get)

lemma bi_ads_keyed: "keyed_by r_Prefix (bi_buildDesiredAdvertisements r overlays)"
proof (rule keyed_byI)
  show "gm_wf (bi_buildDesiredAdvertisements r overlays)"
    by (simp add: bi_ads_fold gm.wf_put_all)
next
  fix k v assume "gm_get (bi_buildDesiredAdvertisements r overlays) k = Some v"
  from put_all_SomeD [OF this [unfolded bi_ads_fold]] show "r_Prefix v = k" by auto
qed

definition bi_session :: "bgp_internal \<Rightarrow> string \<Rightarrow> neighbor" where
  "bi_session r a =
     \<lparr>n_Name = ''pntfx-gateway-'' @ a, n_Address = a, n_ASN = bi_asn r, n_IsIBGP = True, n_NextHop = [], n_Policies = []\<rparr>"

lemma bi_session_address [simp]: "n_Address (bi_session r a) = a"
  by (simp add: bi_session_def)

lemma bi_neighbors_getD: "gm_get (bi_buildDesiredNeighbors r overlays) a = Some n \<Longrightarrow> n = bi_session r a"
  by (auto simp: bi_neighbors_fold put_new_all_get bi_gatewayNeighbor_def bi_session_def dest!: map_of_SomeD)

lemma bi_policies_has:
  "gm_has (bi_buildDesiredPolicies r overlays) x \<longleftrightarrow>
     (\<exists>ov \<in> set overlays. community ov \<noteq> [] \<and> x \<in> {exportName (ov_Name ov), importName (ov_Name ov)})"
  by (auto simp: bi_policies_fold put_all_has image_iff)

lemma bi_policies_getD:
  assumes "gm_get (bi_buildDesiredPolicies r overlays) x = Some p"
  shows "\<exists>ov \<in> set overlays. community ov \<noteq> [] \<and> p \<in> {bi_exportPolicy ov, bi_importPolicy ov}"
  using put_all_SomeD [OF assms [unfolded bi_policies_fold]] by auto

text \<open>An internal node asks to advertise exactly the ready edges on this very node, of overlays that
  have a community, as a /32 with that community.\<close>

lemma bi_localEdges_iff:
  "(ov, e) \<in> set (bi_localEdges r overlays) \<longleftrightarrow> ov \<in> set overlays \<and> community ov \<noteq> [] \<and> e \<in> set (edges_of ov) \<and>
     es_NodeName e = bi_nodeName r \<and> es_Ready e \<and> es_VirtualIP e \<noteq> []"
  by (auto simp: bi_localEdges_def)

lemma bi_ads_has:
  "gm_has (bi_buildDesiredAdvertisements r overlays) x \<longleftrightarrow>
     (\<exists>ov e. (ov, e) \<in> set (bi_localEdges r overlays) \<and> x = es_VirtualIP e @ ''/32'')"
  unfolding bi_ads_fold put_all_has by (force simp: bi_adOf_def bi_prefix_def image_iff)

lemma bi_ads_getD:
  assumes "gm_get (bi_buildDesiredAdvertisements r overlays) x = Some rt"
  shows "\<exists>ov e. (ov, e) \<in> set (bi_localEdges r overlays) \<and>
    rt = \<lparr>r_Prefix = es_VirtualIP e @ ''/32'', r_NextHop = [], r_Communities = [community ov]\<rparr>"
  using put_all_SomeD [OF assms [unfolded bi_ads_fold]] by (auto simp: bi_adOf_def bi_prefix_def)

abbreviation bi_ads :: "bgp_internal \<Rightarrow> overlay list \<Rightarrow> (string, string \<times> string list) gomap" where
  "bi_ads r overlays \<equiv> map_vals ad_of (bi_buildDesiredAdvertisements r overlays)"

lemma bi_ads_keyed_fst: "keyed_by fst (bi_ads r overlays)"
proof (rule keyed_byI)
  show "gm_wf (bi_ads r overlays)" using keyed_by_wf [OF bi_ads_keyed] by simp
  show "gm_get (bi_ads r overlays) k = Some v \<Longrightarrow> fst v = k" for k v
    using keyed_byD [OF bi_ads_keyed] by auto
qed

section \<open>The cycle against the contract\<close>

context bgp_contract
begin

lemma bi_Reconcile_spec:
  assumes rec: "bi_Reconcile r ord srv overlays s = (res, s')"
    and l: "ListNeighbors srv s = Inr ns" "ListPolicies srv s = Inr ps" "ListAdvertised srv s = Inr rts"
  shows "sync_result n_Address (bi_buildDesiredNeighbors r overlays) (nbrs s) (nbrs s') (res = None) \<and>
    sync_result p_Name (bi_buildDesiredPolicies r overlays) (pols s) (pols s') (res = None) \<and>
    sync_result fst (bi_ads r overlays) (ads s) (ads s') (res = None)"
proof -
  let ?DN = "bi_buildDesiredNeighbors r overlays" and ?DP = "bi_buildDesiredPolicies r overlays"
  let ?DA = "bi_buildDesiredAdvertisements r overlays"
  have ln: "set ns = nbrs s" and lp: "set ps = pols s" and la: "ad_of ` set rts = ads s"
    using list_nbrs [OF l(1)] list_pols [OF l(2)] list_ads [OF l(3)] by simp_all
  have la': "r_Prefix ` set rts = fst ` ads s" by (simp add: image_image flip: la)
  obtain s1 e1 where 1: "go_for (\<lambda>n. gm_has ?DN (n_Address n)) (\<lambda>n. RemoveNeighbor srv (n_Address n))
      (\<lambda>n. Wrap (fmt_s ''remove neighbor '' (n_Address n))) ns (s, []) = (s1, e1)" by (rule prod.exhaust)
  obtain s2 e2 where 2: "go_for (\<lambda>p. gm_has ?DP (p_Name p)) (\<lambda>p. RemovePolicy srv (p_Name p))
      (\<lambda>p. Wrap (fmt_s ''remove policy '' (p_Name p))) ps (s1, e1) = (s2, e2)" by (rule prod.exhaust)
  obtain s3 e3 where 3: "go_for (\<lambda>a. gm_has (bi_ads r overlays) (fst a)) (\<lambda>a. Withdraw srv (fst a))
      (\<lambda>a. Wrap (fmt_s ''withdraw '' (fst a))) (map ad_of rts) (s2, e2) = (s3, e3)" by (rule prod.exhaust)
  obtain s4 e4 where 4: "go_for (\<lambda>p. p_Name p \<in> p_Name ` pols s) (AddPolicy srv)
      (\<lambda>p. Wrap (fmt_s ''add policy '' (p_Name p))) (map snd (gm_range (ord_policies ord) ?DP)) (s3, e3) = (s4, e4)"
    by (rule prod.exhaust)
  obtain s5 e5 where 5: "go_for (\<lambda>n. n_Address n \<in> n_Address ` nbrs s) (AddNeighbor srv)
      (\<lambda>n. Wrap (fmt_s ''add neighbor '' (n_Address n))) (map snd (gm_range (ord_neighbors ord) ?DN)) (s4, e4) = (s5, e5)"
    by (rule prod.exhaust)
  obtain s6 e6 where 6: "go_for (\<lambda>a. fst a \<in> fst ` ads s) (\<lambda>a. Advertise srv (fst a) (snd a))
      (\<lambda>a. Wrap (fmt_s ''advertise '' (fst a))) (map snd (gm_range (ord_ads ord) (bi_ads r overlays))) (s5, e5) = (s6, e6)"
    by (rule prod.exhaust)
  have m: "go_for (\<lambda>rt. gm_has ?DA (r_Prefix rt)) (\<lambda>rt. Withdraw srv (r_Prefix rt))
      (\<lambda>rt. Wrap (fmt_s ''withdraw '' (r_Prefix rt))) rts (s2, e2) = (s3, e3)"
    "go_for (\<lambda>ad. r_Prefix ad \<in> r_Prefix ` set rts) (\<lambda>ad. Advertise srv (r_Prefix ad) (r_Communities ad))
      (\<lambda>ad. Wrap (fmt_s ''advertise '' (r_Prefix ad))) (map snd (gm_range (ord_ads ord) ?DA)) (s5, e5) = (s6, e6)"
    using 3 6 by (simp_all add: go_for_map map_vals_range ad_of_def la' del: map_map)
  have r: "res = join_errs e6" "s' = s6"
    using rec l 1 2 4 5 m ln lp by (simp_all add: bi_Reconcile_def Let_def)
  have f1: "pols s1 = pols s" "ads s1 = ads s" by (rule go_for_frame [OF 1], simp add: nbr_frame)+
  have f2: "nbrs s2 = nbrs s1" "ads s2 = ads s1" by (rule go_for_frame [OF 2], simp add: pol_frame)+
  have f3: "nbrs s3 = nbrs s2" "pols s3 = pols s2" by (rule go_for_frame [OF 3], simp add: adv_frame)+
  have f4: "nbrs s4 = nbrs s3" "ads s4 = ads s3" by (rule go_for_frame [OF 4], simp add: pol_frame)+
  have f5: "pols s5 = pols s4" "ads s5 = ads s4" by (rule go_for_frame [OF 5], simp add: nbr_frame)+
  have f6: "nbrs s6 = nbrs s5" "pols s6 = pols s5" by (rule go_for_frame [OF 6], simp add: adv_frame)+
  have ok: "e6 = [] \<and> e5 = [] \<and> e4 = [] \<and> e3 = [] \<and> e2 = [] \<and> e1 = []" if "res = None"
    using that r(1) go_for_no_new_errs [OF 2] go_for_no_new_errs [OF 3] go_for_no_new_errs [OF 4]
      go_for_no_new_errs [OF 5] go_for_no_new_errs [OF 6] by simp
  have "sync_result n_Address ?DN (nbrs s) (nbrs s5) (res = None)"
    using ok by (intro nbr.sync_resultI [OF bi_neighbors_keyed ln 1 _ 5]) (auto simp: f2 f3 f4)
  moreover have "sync_result p_Name ?DP (pols s1) (pols s4) (res = None)"
    using ok by (intro pol.sync_resultI [OF bi_policies_keyed _ 2 f3(2) 4 [folded f1(1)]]) (auto simp: lp f1)
  moreover have "sync_result fst (bi_ads r overlays) (ads s2) (ads s6) (res = None)"
    using ok by (intro adv.sync_resultI [OF bi_ads_keyed_fst _ 3 _ 6 [folded f1(2), folded f2(2)]])
      (auto simp: la f1 f2 f4 f5)
  ultimately show ?thesis by (simp add: r f1 f2 f3 f4 f5 f6)
qed

lemma bi_Reconcile_lists:
  assumes "bi_Reconcile r ord srv overlays s = (None, s')"
  obtains ns ps rts where "ListNeighbors srv s = Inr ns" "ListPolicies srv s = Inr ps" "ListAdvertised srv s = Inr rts"
  using assms by (auto simp: bi_Reconcile_def Let_def split: sum.splits)

end

section \<open>Properties\<close>

definition ex_bi :: bgp_internal where
  "ex_bi = \<lparr>bi_asn = 65000, bi_routerID = ''10.0.0.21'', bi_nodeName = ''node-1''\<rparr>"

text \<open>C12: An internal node's BGP cycle that returns no error leaves the daemon in sync with the
  snapshot in all three kinds, whatever was there and in whatever order the maps are visited. Its
  neighbors have exactly the gateways' addresses, its policies exactly the export and import names
  of the overlays with a community, its advertisements exactly the /32 of the virtual IPs of the
  ready edges on this node, of overlays with a community. What was there under a wanted key is
  kept as it is; everything else is new and is the iBGP session with the gateway, the policy of
  such an overlay, and the prefix of such an edge with the community of its overlay.\<close>

theorem bi_converges:
  assumes srv: "bgp_contract srv nbrs pols ads"
    and run: "bi_Reconcile r ord srv overlays s = (None, s')"
  defines "A \<equiv> {a. a \<noteq> [] \<and> (\<exists>ov \<in> set overlays. a \<in> gw_NodeIP ` set (gateways_of ov))}"
    and "C \<equiv> {ov \<in> set overlays. community ov \<noteq> []}"
    and "L \<equiv> \<lambda>ov. {e \<in> set (edges_of ov). es_NodeName e = bi_nodeName r \<and> es_Ready e \<and> es_VirtualIP e \<noteq> []}"
  shows "nbrs s' = {n \<in> nbrs s. n_Address n \<in> A} \<union>
      {\<lparr>n_Name = ''pntfx-gateway-'' @ a, n_Address = a, n_ASN = bi_asn r, n_IsIBGP = True, n_NextHop = [], n_Policies = []\<rparr> |
        a. a \<in> A \<and> a \<notin> n_Address ` nbrs s}
    \<and> p_Name ` pols s' = (\<Union>ov \<in> C. {''pntfx-export-'' @ ov_Name ov, ''pntfx-import-'' @ ov_Name ov})
    \<and> {p \<in> pols s. p_Name p \<in> p_Name ` pols s'} \<subseteq> pols s'
    \<and> (\<forall>p \<in> pols s' - pols s. p_Name p \<notin> p_Name ` pols s \<and> (\<exists>ov \<in> C. p \<in>
        {\<lparr>p_Name = ''pntfx-export-'' @ ov_Name ov, p_Direction = PolicyExport, p_Match = ''any'', p_Action = ''community-set:'' @ community ov\<rparr>,
         \<lparr>p_Name = ''pntfx-import-'' @ ov_Name ov, p_Direction = PolicyImport, p_Match = ''community:'' @ community ov, p_Action = ''accept''\<rparr>}))
    \<and> fst ` ads s' = (\<Union>ov \<in> C. (\<lambda>e. es_VirtualIP e @ ''/32'') ` L ov)
    \<and> {a \<in> ads s. fst a \<in> fst ` ads s'} \<subseteq> ads s'
    \<and> (\<forall>a \<in> ads s' - ads s. fst a \<notin> fst ` ads s \<and> (\<exists>ov \<in> C. \<exists>e \<in> L ov. a = (es_VirtualIP e @ ''/32'', [community ov])))"
proof -
  obtain ns ps rts where
    "ListNeighbors srv s = Inr ns" "ListPolicies srv s = Inr ps" "ListAdvertised srv s = Inr rts"
    by (rule bgp_contract.bi_Reconcile_lists [OF srv run])
  from bgp_contract.bi_Reconcile_spec [OF srv run this]
  have v: "nbrs s' = synced n_Address (bi_buildDesiredNeighbors r overlays) (nbrs s)"
    "pols s' = synced p_Name (bi_buildDesiredPolicies r overlays) (pols s)"
    "ads s' = synced fst (bi_ads r overlays) (ads s)"
    by (simp_all add: sync_result_def)
  let ?P = "\<Union>ov \<in> C. {exportName (ov_Name ov), importName (ov_Name ov)}" and ?W = "\<Union>ov \<in> C. (\<lambda>e. es_VirtualIP e @ ''/32'') ` L ov"
  have A: "gm_has (bi_buildDesiredNeighbors r overlays) a \<longleftrightarrow> a \<in> A" for a unfolding bi_neighbors_has A_def by simp
  have g: "gm_get (bi_buildDesiredNeighbors r overlays) (n_Address n) = Some n \<longleftrightarrow> n_Address n \<in> A \<and> n = bi_session r (n_Address n)" for n
    using bi_neighbors_getD [of r overlays "n_Address n"] unfolding A [symmetric] gm_has_iff by metis
  have n: "nbrs s' = {n \<in> nbrs s. n_Address n \<in> A} \<union> {bi_session r a | a. a \<in> A \<and> a \<notin> n_Address ` nbrs s}"
    unfolding v(1) synced_def A g by (rule arg_cong2 [where f = "(\<union>)", OF refl]) force
  have P: "gm_has (bi_buildDesiredPolicies r overlays) x \<longleftrightarrow> x \<in> ?P" for x unfolding bi_policies_has C_def by blast
  have "\<exists>ov \<in> C. p \<in> {bi_exportPolicy ov, bi_importPolicy ov}" if "gm_get (bi_buildDesiredPolicies r overlays) x = Some p" for x p
    using bi_policies_getD [OF that] unfolding C_def by blast
  then have "\<forall>x p. gm_get (bi_buildDesiredPolicies r overlays) x = Some p \<longrightarrow> (\<exists>ov \<in> C. p \<in> {bi_exportPolicy ov, bi_importPolicy ov})" by blast
  note p = synced_explicit [OF bi_policies_keyed P this, where V = "pols s", folded v(2)]
  have W: "gm_has (bi_ads r overlays) x \<longleftrightarrow> x \<in> ?W" for x unfolding map_vals_has bi_ads_has bi_localEdges_iff C_def L_def by blast
  have "\<exists>ov \<in> C. \<exists>e \<in> L ov. a = (es_VirtualIP e @ ''/32'', [community ov])" if a: "gm_get (bi_ads r overlays) x = Some a" for x a
  proof -
    obtain rt where rt: "gm_get (bi_buildDesiredAdvertisements r overlays) x = Some rt" "a = ad_of rt" using a by auto
    obtain ov e where "(ov, e) \<in> set (bi_localEdges r overlays)"
      and "rt = \<lparr>r_Prefix = es_VirtualIP e @ ''/32'', r_NextHop = [], r_Communities = [community ov]\<rparr>"
      using bi_ads_getD [OF rt(1)] by (elim exE conjE)
    then show ?thesis using rt(2) unfolding bi_localEdges_iff C_def L_def by (intro bexI [of _ ov] bexI [of _ e]) (simp_all add: ad_of_def)
  qed
  then have "\<forall>x a. gm_get (bi_ads r overlays) x = Some a \<longrightarrow> (\<exists>ov \<in> C. \<exists>e \<in> L ov. a = (es_VirtualIP e @ ''/32'', [community ov]))" by blast
  note a = synced_explicit [OF bi_ads_keyed_fst W this, where V = "ads s", folded v(3)]
  have "{p \<in> pols s. p_Name p \<in> p_Name ` pols s'} \<subseteq> pols s'" "{a \<in> ads s. fst a \<in> fst ` ads s'} \<subseteq> ads s'"
    using p(2) a(2) unfolding p(1) a(1) .
  moreover have "\<forall>p \<in> pols s' - pols s. p_Name p \<notin> p_Name ` pols s \<and> (\<exists>ov \<in> C. p \<in> {bi_exportPolicy ov, bi_importPolicy ov})"
    "\<forall>a \<in> ads s' - ads s. fst a \<notin> fst ` ads s \<and> (\<exists>ov \<in> C. \<exists>e \<in> L ov. a = (es_VirtualIP e @ ''/32'', [community ov]))"
    using p(3) a(3) by blast+
  ultimately show ?thesis
    using n p(1) a(1) unfolding bi_session_def exportName_def importName_def bi_exportPolicy_def bi_importPolicy_def
    by (intro conjI)
qed

text \<open>A daemon that still advertises an edge of another node, and one of this node under an old community.\<close>

definition ex_bgp_stale :: mem_bgp where
  "ex_bgp_stale = mem_bgp0\<lparr>mb_ads := [(''10.200.0.9/32'', []), (''10.200.0.5/32'', [''65000:9''])]\<rparr>"

definition ex_bgp_synced :: "go_error option \<times> mem_bgp" where
  "ex_bgp_synced = bi_Reconcile ex_bi ex_ord mem_bgp_server [ex_blue, ex_red, ex_new] ex_bgp_stale"

theorem bi_converges_witness:
  "(''10.200.0.5/32'', [''65000:9'']) \<in> set (mb_ads (snd ex_bgp_synced)) \<and>
   fst ` set (mb_ads (snd ex_bgp_synced)) = (\<Union>ov \<in> {ov \<in> set [ex_blue, ex_red, ex_new]. community ov \<noteq> []}. (\<lambda>e. es_VirtualIP e @ ''/32'') `
     {e \<in> set (edges_of ov). es_NodeName e = ''node-1'' \<and> es_Ready e \<and> es_VirtualIP e \<noteq> []})"
proof -
  have "fst ex_bgp_synced = None" by code_simp
  from pair_fst [OF this] have r: "bi_Reconcile ex_bi ex_ord mem_bgp_server [ex_blue, ex_red, ex_new] ex_bgp_stale = (None, snd ex_bgp_synced)"
    unfolding ex_bgp_synced_def .
  note c = bi_converges [OF mem.bgp_contract_axioms r, THEN conjunct2, THEN conjunct2, THEN conjunct2, THEN conjunct2]
  have k: "''10.200.0.5/32'' \<in> fst ` set (mb_ads (snd ex_bgp_synced))" unfolding set_map [symmetric] by code_simp
  have "(''10.200.0.5/32'', [''65000:9'']) \<in> set (mb_ads ex_bgp_stale)" by (simp add: ex_bgp_stale_def)
  then have "(''10.200.0.5/32'', [''65000:9'']) \<in> {a \<in> set (mb_ads ex_bgp_stale). fst a \<in> fst ` set (mb_ads (snd ex_bgp_synced))}" using k by simp
  then have "(''10.200.0.5/32'', [''65000:9'']) \<in> set (mb_ads (snd ex_bgp_synced))" by (rule subsetD [OF conjunct1 [OF conjunct2 [OF c]]])
  moreover have "bi_nodeName ex_bi = ''node-1''" by (simp add: ex_bi_def)
  ultimately show ?thesis using conjunct1 [OF c] by metis
qed

end
