(* ===== verification/Agent_Config.thy ===== *)
theory Agent_Config
  imports Prelude
begin

text \<open>
  The configuration of the agents (\<open>agent/internal/config\<close>): the two structs, their defaults and
  loading. The YAML library is an argument of the loaders: opening the file (with the environment
  expanded), then populating the struct.
\<close>

record gateway_config =
  gc_NodeName :: string
  gc_IsSecondary :: bool
  gc_WGListenPort :: int
  gc_WGKeyDir :: string
  gc_LogLevel :: string
  gc_ASN :: u32
  gc_RouterID :: string

record internal_config =
  ic_NodeName :: string
  ic_Firewall :: string
  ic_LogLevel :: string
  ic_ASN :: u32
  ic_RouterID :: string

definition applyGatewayDefaults :: "gateway_config \<Rightarrow> gateway_config" where
  "applyGatewayDefaults cfg =
     (let c1 = (if gc_WGListenPort cfg = 0 then cfg\<lparr>gc_WGListenPort := 51820\<rparr> else cfg);
          c2 = (if gc_WGKeyDir c1 = [] then c1\<lparr>gc_WGKeyDir := ''/etc/pontifex/wg''\<rparr> else c1)
      in if gc_LogLevel c2 = [] then c2\<lparr>gc_LogLevel := ''info''\<rparr> else c2)"

definition applyInternalNodeDefaults :: "internal_config \<Rightarrow> internal_config" where
  "applyInternalNodeDefaults cfg =
     (let c1 = (if ic_Firewall cfg = [] then cfg\<lparr>ic_Firewall := ''auto''\<rparr> else cfg)
      in if ic_LogLevel c1 = [] then c1\<lparr>ic_LogLevel := ''info''\<rparr> else c1)"

definition LoadGateway :: "(string \<Rightarrow> go_error + 'p) \<Rightarrow> ('p \<Rightarrow> go_error + gateway_config) \<Rightarrow> string \<Rightarrow> go_error + gateway_config" where
  "LoadGateway NewYAML Populate path =
     (case NewYAML path of
        Inl err \<Rightarrow> Inl (Wrap (fmt_q ''load gateway config from '' path) err)
      | Inr provider \<Rightarrow>
          (case Populate provider of
             Inl err \<Rightarrow> Inl (Wrap ''populate gateway config'' err)
           | Inr cfg \<Rightarrow> Inr (applyGatewayDefaults cfg)))"

definition LoadInternalNode :: "(string \<Rightarrow> go_error + 'p) \<Rightarrow> ('p \<Rightarrow> go_error + internal_config) \<Rightarrow> string \<Rightarrow> go_error + internal_config" where
  "LoadInternalNode NewYAML Populate path =
     (case NewYAML path of
        Inl err \<Rightarrow> Inl (Wrap (fmt_q ''load internal-node config from '' path) err)
      | Inr provider \<Rightarrow>
          (case Populate provider of
             Inl err \<Rightarrow> Inl (Wrap ''populate internal-node config'' err)
           | Inr cfg \<Rightarrow> Inr (applyInternalNodeDefaults cfg)))"

lemma gateway_defaults:
  "gc_WGListenPort (applyGatewayDefaults cfg) \<noteq> 0" "gc_WGKeyDir (applyGatewayDefaults cfg) \<noteq> []"
  "gc_LogLevel (applyGatewayDefaults cfg) \<noteq> []"
  "applyGatewayDefaults (applyGatewayDefaults cfg) = applyGatewayDefaults cfg"
  by (simp_all add: applyGatewayDefaults_def)

lemma internal_defaults:
  "ic_Firewall (applyInternalNodeDefaults cfg) \<noteq> []" "ic_LogLevel (applyInternalNodeDefaults cfg) \<noteq> []"
  "applyInternalNodeDefaults (applyInternalNodeDefaults cfg) = applyInternalNodeDefaults cfg"
  by (simp_all add: applyInternalNodeDefaults_def)

end
