(* ===== verification/Cluster.thy ===== *)
theory Cluster
  imports Api_Types
begin

text \<open>
  The observer and the mediator of an agent (\<open>agent/internal/cluster\<close>). Both are skeletons: the
  observer emits nothing, the mediator keeps its subscribers and sends nothing on their channels.
  A channel is the list of the values in its buffer; \<open>Run\<close> waits for the cancellation of its
  context, and \<open>None\<close> is a call that has not returned.
\<close>

datatype event_type = EventAdd | EventUpdate | EventDelete

record event =
  e_Type :: event_type
  e_Object :: overlay

record observer =
  ob_out :: "event list"

definition NewObserver :: observer where
  "NewObserver = \<lparr>ob_out = []\<rparr>"

definition Events :: "observer \<Rightarrow> event list" where
  "Events o1 = ob_out o1"

definition ob_Run :: "bool \<Rightarrow> observer \<Rightarrow> (go_error option \<times> observer) option" where
  "ob_Run cancelled o1 = (if cancelled then Some (None, o1) else None)"

record mediator =
  md_observer :: observer
  md_subscribers :: "overlay list list list"

definition NewMediator :: "observer \<Rightarrow> mediator" where
  "NewMediator obs = \<lparr>md_observer = obs, md_subscribers = []\<rparr>"

text \<open>The new channel is given by its position among the subscribers.\<close>

definition Subscribe :: "mediator \<Rightarrow> nat \<times> mediator" where
  "Subscribe m = (length (md_subscribers m), m\<lparr>md_subscribers := md_subscribers m @ [[]]\<rparr>)"

definition md_Run :: "bool \<Rightarrow> mediator \<Rightarrow> (go_error option \<times> mediator) option" where
  "md_Run cancelled m = (if cancelled then Some (None, m) else None)"

text \<open>A subscription is a channel of its own, empty, and leaves the others as they are.\<close>

lemma Subscribe_fresh:
  assumes "Subscribe m = (i, m')"
  shows "md_subscribers m' ! i = []" "i \<notin> {..<length (md_subscribers m)}"
    "j < length (md_subscribers m) \<Longrightarrow> md_subscribers m' ! j = md_subscribers m ! j"
  using assms by (auto simp: Subscribe_def nth_append)

end
