(* ===== verification/Managers.thy ===== *)
theory Managers
  imports Routes_Updater Bgp_Internal Agent_Config Cluster
begin

text \<open>
  The managers of the two agent modes (\<open>controllers/gateway/manager.go\<close>,
  \<open>controllers/internalnode/manager.go\<close>). \<open>Run\<close> builds the reconcilers from the configuration,
  subscribes twice to the mediator and starts three goroutines: the mediator, the BGP loop and
  the routes updater. A manager is a step relation in which these run interleaved; it projects
  onto the updater's own relation, and the BGP loop is driven in the same way, so that the
  contracts of the two reconcilers give the state of the whole host.
\<close>

section \<open>The goroutines\<close>

record ('r, 'h, 'b) manager =
  mg_channels :: channels
  mg_updater :: "('r, 'h) updater"
  mg_bgpSnapshots :: "overlay list list"
  mg_bgp :: 'b
  mg_bgp_results :: "go_error option list"
  mg_bgp_returned :: bool
  mg_mediator :: mediator
  mg_mediator_returned :: bool
  mg_returned :: bool

type_synonym 'b bgp_rec = "bgp_order \<Rightarrow> overlay list \<Rightarrow> 'b \<Rightarrow> go_error option \<times> 'b"

definition mg_reconcileBGP :: "'b bgp_rec \<Rightarrow> bgp_order \<Rightarrow> overlay list \<Rightarrow> ('r, 'h, 'b) manager \<Rightarrow> ('r, 'h, 'b) manager" where
  "mg_reconcileBGP brec ord snap m =
     (case brec ord snap (mg_bgp m) of (e, b) \<Rightarrow> m\<lparr>mg_bgp := b, mg_bgp_results := mg_bgp_results m @ [e]\<rparr>)"

text \<open>The state when the goroutines are started; the channels are new and empty.\<close>

definition mg_start :: "'r \<Rightarrow> 'h \<Rightarrow> 'b \<Rightarrow> ('r, 'h, 'b) manager" where
  "mg_start r h b =
     (let med = NewMediator NewObserver;
          (updaterCh, med1) = Subscribe med;
          (bgpCh, med2) = Subscribe med1
      in \<lparr>mg_channels = open_channels\<lparr>ch_snapshots := md_subscribers med2 ! updaterCh\<rparr>,
          mg_updater = NewRoutesUpdater r h, mg_bgpSnapshots = md_subscribers med2 ! bgpCh, mg_bgp = b,
          mg_bgp_results = [], mg_bgp_returned = False, mg_mediator = med2, mg_mediator_returned = False, mg_returned = False\<rparr>)"

text \<open>
  One step of one goroutine. The BGP loop takes a snapshot or returns on cancellation (its channel
  is never closed); an error of the reconciler is logged. The mediator and \<open>Run\<close> itself wait for
  the cancellation.
\<close>

inductive mgr_step :: "('r, 'h, 'o) routes_rec \<Rightarrow> 'b bgp_rec \<Rightarrow> ('r, 'h, 'b) manager \<Rightarrow> ('r, 'h, 'b) manager \<Rightarrow> bool"
  for rr :: "('r, 'h, 'o) routes_rec" and brec :: "'b bgp_rec" where
  updater: "select rr (mg_channels m, mg_updater m) (c, u) \<Longrightarrow> mgr_step rr brec m (m\<lparr>mg_channels := c, mg_updater := u\<rparr>)"
| bgp: "\<not> mg_bgp_returned m \<Longrightarrow> mg_bgpSnapshots m = x # xs \<Longrightarrow>
    mgr_step rr brec m (mg_reconcileBGP brec ord x (m\<lparr>mg_bgpSnapshots := xs\<rparr>))"
| bgp_cancelled: "\<not> mg_bgp_returned m \<Longrightarrow> ch_cancelled (mg_channels m) \<Longrightarrow> mgr_step rr brec m (m\<lparr>mg_bgp_returned := True\<rparr>)"
| mediator: "\<not> mg_mediator_returned m \<Longrightarrow> md_Run (ch_cancelled (mg_channels m)) (mg_mediator m) = Some (e, med) \<Longrightarrow>
    mgr_step rr brec m (m\<lparr>mg_mediator := med, mg_mediator_returned := True\<rparr>)"
| return: "\<not> mg_returned m \<Longrightarrow> ch_cancelled (mg_channels m) \<Longrightarrow> mgr_step rr brec m (m\<lparr>mg_returned := True\<rparr>)"

text \<open>
  The states a manager can reach, with what has been sent to it: the snapshots on the updater's and
  on the BGP loop's channel and the route events. A mediator may serve its subscribers at different
  times.
\<close>

inductive mgr_reach :: "('r, 'h, 'o) routes_rec \<Rightarrow> 'b bgp_rec \<Rightarrow> ('r, 'h, 'b) manager \<Rightarrow>
    overlay list list \<Rightarrow> overlay list list \<Rightarrow> route_event list \<Rightarrow> ('r, 'h, 'b) manager \<Rightarrow> bool"
  for rr :: "('r, 'h, 'o) routes_rec" and brec :: "'b bgp_rec" and m0 where
  start: "mgr_reach rr brec m0 [] [] [] m0"
| step: "mgr_reach rr brec m0 us bs evs m \<Longrightarrow> mgr_step rr brec m m' \<Longrightarrow> mgr_reach rr brec m0 us bs evs m'"
| to_updater: "mgr_reach rr brec m0 us bs evs m \<Longrightarrow> mg_channels m = c \<Longrightarrow> \<not> ch_snapshots_closed c \<Longrightarrow>
    mgr_reach rr brec m0 (us @ [x]) bs evs (m\<lparr>mg_channels := c\<lparr>ch_snapshots := ch_snapshots c @ [x]\<rparr>\<rparr>)"
| to_bgp: "mgr_reach rr brec m0 us bs evs m \<Longrightarrow>
    mgr_reach rr brec m0 us (bs @ [x]) evs (m\<lparr>mg_bgpSnapshots := mg_bgpSnapshots m @ [x]\<rparr>)"
| route: "mgr_reach rr brec m0 us bs evs m \<Longrightarrow> mg_channels m = c \<Longrightarrow> \<not> ch_events_closed c \<Longrightarrow>
    mgr_reach rr brec m0 us bs (evs @ [ev]) (m\<lparr>mg_channels := c\<lparr>ch_events := ch_events c @ [ev]\<rparr>\<rparr>)"
| shutting: "mgr_reach rr brec m0 us bs evs m \<Longrightarrow> shut (mg_channels m) c \<Longrightarrow>
    mgr_reach rr brec m0 us bs evs (m\<lparr>mg_channels := c\<rparr>)"

inductive_cases mgr_stepE: "mgr_step rr brec m m'"

section \<open>Projection on the updater, and the BGP loop\<close>

lemma mg_start_fields:
  "mg_channels (mg_start r h b) = open_channels" "mg_updater (mg_start r h b) = NewRoutesUpdater r h"
  "mg_bgpSnapshots (mg_start r h b) = []" "mg_bgp (mg_start r h b) = b" "mg_bgp_results (mg_start r h b) = []"
  by (simp_all add: mg_start_def Subscribe_def NewMediator_def open_channels_def)

lemma mg_reconcileBGP_frame [simp]:
  "mg_channels (mg_reconcileBGP brec ord x m) = mg_channels m" "mg_updater (mg_reconcileBGP brec ord x m) = mg_updater m"
  "mg_bgpSnapshots (mg_reconcileBGP brec ord x m) = mg_bgpSnapshots m"
  "mg_bgp_returned (mg_reconcileBGP brec ord x m) = mg_bgp_returned m"
  by (simp_all add: mg_reconcileBGP_def split: prod.splits)

lemma mgr_reach_updater:
  "mgr_reach rr brec m0 us bs evs m \<Longrightarrow> m0 = mg_start r h b \<Longrightarrow>
     reaches rr (NewRoutesUpdater r h) us evs (mg_channels m, mg_updater m)"
proof (induction rule: mgr_reach.induct)
  case start
  then show ?case by (simp add: mg_start_fields reaches.start)
next
  case (step us bs evs m m')
  from step.hyps(2) show ?case using step.IH [OF step.prems] by cases (auto intro: reaches.loop)
qed (auto intro: reaches.intros)

definition bgp_loop_inv :: "'b bgp_rec \<Rightarrow> overlay list list \<Rightarrow> ('r, 'h, 'b) manager \<Rightarrow> bool" where
  "bgp_loop_inv brec bs m \<longleftrightarrow> (\<exists>ts. bs = ts @ mg_bgpSnapshots m \<and>
     (ts = [] \<or> mg_bgp_results m \<noteq> [] \<and> (\<exists>ord b. brec ord (last ts) b = (last (mg_bgp_results m), mg_bgp m))))"

lemma bgp_loop_inv_step:
  assumes "mgr_step rr brec m m'" "bgp_loop_inv brec bs m"
  shows "bgp_loop_inv brec bs m'"
  using assms
proof cases
  case (bgp x xs ord)
  obtain ts where ts: "bs = ts @ mg_bgpSnapshots m" using assms(2) by (auto simp: bgp_loop_inv_def)
  have "brec ord x (mg_bgp m) = (last (mg_bgp_results m'), mg_bgp m')" "mg_bgp_results m' \<noteq> []"
    unfolding bgp(1) mg_reconcileBGP_def by (simp_all split: prod.splits)
  then show ?thesis unfolding bgp_loop_inv_def
    by (intro exI [of _ "ts @ [x]"]) (use ts bgp in auto)
qed (simp_all add: bgp_loop_inv_def)

lemma mgr_reach_bgp:
  "mgr_reach rr brec m0 us bs evs m \<Longrightarrow> m0 = mg_start r h b \<Longrightarrow> bgp_loop_inv brec bs m"
proof (induction rule: mgr_reach.induct)
  case start
  then show ?case by (simp add: bgp_loop_inv_def mg_start_fields)
next
  case (step us bs evs m m')
  then show ?case by (blast intro: bgp_loop_inv_step)
qed (auto simp: bgp_loop_inv_def)

section \<open>Stopping\<close>

definition mg_stopped :: "('r, 'h, 'b) manager \<Rightarrow> bool" where
  "mg_stopped m \<longleftrightarrow> up_returned (mg_updater m) \<and> mg_bgp_returned m \<and> mg_mediator_returned m \<and> mg_returned m"

lemma mg_stopped_final: "mg_stopped m \<Longrightarrow> \<not> mgr_step rr brec m m'"
  by (auto simp: mg_stopped_def elim: mgr_stepE select.cases)

text \<open>Each goroutine that is left returns in one step; the steps in their order.\<close>

lemma step_or_same: "(\<not> P x \<Longrightarrow> S x (f x)) \<Longrightarrow> (P x \<Longrightarrow> f x = x) \<Longrightarrow> S\<^sup>*\<^sup>* x (f x)"
  by (cases "P x") auto

lemma mgr_stops:
  assumes c: "ch_cancelled (mg_channels m)"
  shows "\<exists>m'. (mgr_step rr brec)\<^sup>*\<^sup>* m m' \<and> mg_stopped m'"
proof -
  let ?S = "mgr_step rr brec"
  let ?m1 = "m\<lparr>mg_updater := on_return (mg_updater m)\<rparr>"
  let ?m2 = "?m1\<lparr>mg_bgp_returned := True\<rparr>" let ?m3 = "?m2\<lparr>mg_mediator_returned := True\<rparr>"
  have "?S m ?m1" if "\<not> up_returned (mg_updater m)"
    using mgr_step.updater [OF select.cancelled, of m rr brec] that c by simp
  then have "?S\<^sup>*\<^sup>* m ?m1"
    by (rule step_or_same [where P = "\<lambda>m. up_returned (mg_updater m)"]) (simp_all add: on_return_def)
  also have "?S\<^sup>*\<^sup>* ?m1 ?m2"
    by (rule step_or_same [where P = mg_bgp_returned]) (auto intro: mgr_step.bgp_cancelled simp: c)
  also have "?S\<^sup>*\<^sup>* ?m2 ?m3"
  proof (rule step_or_same [where P = mg_mediator_returned])
    show "?S ?m2 ?m3" if "\<not> mg_mediator_returned ?m2"
      using mgr_step.mediator [OF that, of None "mg_mediator m" rr brec] c by (simp add: md_Run_def)
  qed simp
  also have "?S\<^sup>*\<^sup>* ?m3 (?m3\<lparr>mg_returned := True\<rparr>)"
    by (rule step_or_same [where P = mg_returned]) (auto intro: mgr_step.return simp: c)
  finally show ?thesis by (intro exI conjI) (assumption, simp add: mg_stopped_def on_return_def)
qed

section \<open>The contract of a manager's parts\<close>

locale bgp_reconciler =
  fixes brec :: "'b bgp_rec" and bpost :: "overlay list \<Rightarrow> 'b \<Rightarrow> bool"
  assumes bgp_post: "brec ord overlays b = (None, b') \<Longrightarrow> bpost overlays b'"
begin

lemma bgp_settled:
  assumes "mgr_reach rr brec (mg_start r h b) us bs evs m"
    and "mg_bgpSnapshots m = []" "bs \<noteq> []" "last (mg_bgp_results m) = None"
  shows "bpost (last bs) (mg_bgp m)"
proof -
  obtain ord b1 where "brec ord (last bs) b1 = (last (mg_bgp_results m), mg_bgp m)"
    using mgr_reach_bgp [OF assms(1) refl] assms(2,3) by (auto simp: bgp_loop_inv_def)
  then show ?thesis using bgp_post assms(4) by simp
qed

end

locale manager_contract = routes_reconciler rr r0 post + bgp_reconciler brec bpost
  for rr :: "('r, 'h, 'o) routes_rec" and r0 post and brec :: "'b bgp_rec" and bpost
begin

text \<open>Once everything sent has been taken, both halves of the host reflect the last snapshot.\<close>

lemma manager_settled:
  assumes reach: "mgr_reach rr brec (mg_start r0 h b) us bs evs m"
    and drained: "ch_snapshots (mg_channels m) = []" "ch_events (mg_channels m) = []" "mg_bgpSnapshots m = []"
    and sent: "us \<noteq> []" "last us = snap" "bs \<noteq> []" "last bs = snap"
    and ok: "last (up_results (mg_updater m)) = None" "last (mg_bgp_results m) = None"
  shows "post evs snap (up_host (mg_updater m)) \<and> bpost snap (mg_bgp m)"
proof
  have "post evs (last_or_nil us) (up_host (mg_updater m))"
    by (rule updater_settled [OF mgr_reach_updater [OF reach refl] drained(1,2) _ ok(1)]) (simp add: sent)
  then show "post evs snap (up_host (mg_updater m))" using sent by (simp add: last_or_nil_def)
  show "bpost snap (mg_bgp m)" using bgp_settled [OF reach drained(3) sent(3) ok(2)] sent(4) by simp
qed

end

section \<open>The two managers\<close>

definition gm_reconciler :: "gateway_config \<Rightarrow> bgp_gateway" where
  "gm_reconciler cfg = \<lparr>bg_asn = gc_ASN cfg, bg_routerID = gc_RouterID cfg, bg_isSecondary = gc_IsSecondary cfg\<rparr>"

definition im_reconciler :: "internal_config \<Rightarrow> bgp_internal" where
  "im_reconciler cfg = \<lparr>bi_asn = ic_ASN cfg, bi_routerID = ic_RouterID cfg, bi_nodeName = ic_NodeName cfg\<rparr>"

definition im_firewall :: "internal_config \<Rightarrow> firewall_kind" where
  "im_firewall cfg = (if ic_Firewall cfg = ''nftables'' then NFTables else IPTables)"

text \<open>
  The default \<open>auto\<close> never asks \<open>Detect\<close>: it is iptables, also where \<open>Detect\<close> picks nftables.
\<close>

lemma auto_is_iptables:
  "ic_Firewall cfg \<in> {[], ''auto''} \<Longrightarrow> im_firewall (applyInternalNodeDefaults cfg) = IPTables"
  "Detect True BackendAuto = NFTables"
  by (auto simp: im_firewall_def applyInternalNodeDefaults_def Let_def)

text \<open>\<open>Run\<close>: the start and the goroutines, for any server, routes and firewall.\<close>

definition gm_bgp :: "gateway_config \<Rightarrow> 'b bgp_server \<Rightarrow> 'b bgp_rec" where
  "gm_bgp cfg srv ord snap b = bg_Reconcile (gm_reconciler cfg) ord srv snap b"

definition gm_Run :: "gateway_config \<Rightarrow> 'b bgp_server \<Rightarrow> 's routes \<Rightarrow> 's \<Rightarrow> 'b \<Rightarrow>
    overlay list list \<Rightarrow> overlay list list \<Rightarrow> route_event list \<Rightarrow> (rt_gateway, 's, 'b) manager \<Rightarrow> bool" where
  "gm_Run cfg srv rt s b = mgr_reach (gw_rec rt) (gm_bgp cfg srv) (mg_start rg_new s b)"

definition im_bgp :: "internal_config \<Rightarrow> 'b bgp_server \<Rightarrow> 'b bgp_rec" where
  "im_bgp cfg srv ord snap b = bi_Reconcile (im_reconciler cfg) ord srv snap b"

definition im_Run :: "internal_config \<Rightarrow> 'b bgp_server \<Rightarrow> 's routes \<Rightarrow> 'f firewall \<Rightarrow> 's \<times> 'f \<Rightarrow> 'b \<Rightarrow>
    overlay list list \<Rightarrow> overlay list list \<Rightarrow> route_event list \<Rightarrow> (rt_internal, 's \<times> 'f, 'b) manager \<Rightarrow> bool" where
  "im_Run cfg srv rt fw sf b = mgr_reach (int_rec rt fw) (im_bgp cfg srv) (mg_start (ri_new (ic_NodeName cfg)) sf b)"

definition gm_bpost :: "gateway_config \<Rightarrow> ('b \<Rightarrow> neighbor set) \<Rightarrow> ('b \<Rightarrow> policy set) \<Rightarrow> overlay list \<Rightarrow> 'b \<Rightarrow> bool" where
  "gm_bpost cfg nbrs pols overlays b \<longleftrightarrow>
     n_Address ` nbrs b = {a. gm_has (bg_buildDesiredNeighbors (gm_reconciler cfg) overlays) a} \<and>
     p_Name ` pols b = {x. gm_has (bg_buildDesiredPolicies (gm_reconciler cfg) overlays) x}"

definition im_bpost :: "internal_config \<Rightarrow> ('b \<Rightarrow> neighbor set) \<Rightarrow> ('b \<Rightarrow> policy set) \<Rightarrow> ('b \<Rightarrow> (string \<times> string list) set) \<Rightarrow> overlay list \<Rightarrow> 'b \<Rightarrow> bool" where
  "im_bpost cfg nbrs pols ads overlays b \<longleftrightarrow>
     n_Address ` nbrs b = {a. gm_has (bi_buildDesiredNeighbors (im_reconciler cfg) overlays) a} \<and>
     p_Name ` pols b = {x. gm_has (bi_buildDesiredPolicies (im_reconciler cfg) overlays) x} \<and>
     fst ` ads b = {x. gm_has (bi_buildDesiredAdvertisements (im_reconciler cfg) overlays) x}"

sublocale bgp_contract \<subseteq> gwb: bgp_reconciler "gm_bgp cfg srv" "gm_bpost cfg nbrs pols" for cfg
proof
  fix ord overlays b b' assume "gm_bgp cfg srv ord overlays b = (None, b')"
  then have r: "bg_Reconcile (gm_reconciler cfg) ord srv overlays b = (None, b')" by (simp add: gm_bgp_def)
  obtain ns ps where "ListNeighbors srv b = Inr ns" "ListPolicies srv b = Inr ps" by (rule bg_Reconcile_lists [OF r])
  from bg_Reconcile_spec [OF r this] show "gm_bpost cfg nbrs pols overlays b'"
    by (simp add: gm_bpost_def sync_result_def keys_synced [OF bg_neighbors_keyed] keys_synced [OF bg_policies_keyed])
qed

sublocale bgp_contract \<subseteq> nodeb: bgp_reconciler "im_bgp cfg srv" "im_bpost cfg nbrs pols ads" for cfg
proof
  fix ord overlays b b' assume "im_bgp cfg srv ord overlays b = (None, b')"
  then have r: "bi_Reconcile (im_reconciler cfg) ord srv overlays b = (None, b')" by (simp add: im_bgp_def)
  obtain ns ps rts where "ListNeighbors srv b = Inr ns" "ListPolicies srv b = Inr ps" "ListAdvertised srv b = Inr rts"
    by (rule bi_Reconcile_lists [OF r])
  from bi_Reconcile_spec [OF r this] show "im_bpost cfg nbrs pols ads overlays b'"
    by (simp add: im_bpost_def sync_result_def keys_synced [OF bi_neighbors_keyed] keys_synced [OF bi_policies_keyed] keys_synced [OF bi_ads_keyed_fst])
qed

text \<open>A host of each mode: the BGP server, the routes and the firewall keep their contracts.\<close>

locale gateway_host =
  bgp_contract srv nbrs pols ads + routes_contract rt vrfs rules addrs tables
  for srv :: "'b bgp_server" and nbrs pols ads and rt :: "'s routes" and vrfs rules addrs tables

locale node_host =
  bgp_contract srv nbrs pols ads + host_contract rt vrfs rules addrs tables fw bridges
  for srv :: "'b bgp_server" and nbrs pols ads and rt :: "'s routes" and vrfs rules addrs tables
    and fw :: "'f firewall" and bridges

sublocale gateway_host \<subseteq> gm: manager_contract "gw_rec rt" rg_new
  "\<lambda>evs overlays s. tables s 0 =
      {\<lparr>rr_TableID = 0, rr_Dst = p, rr_Gw = r_NextHop b, rr_Dev = []\<rparr> | p b.
         learned_route p evs = Some b \<and>
         (\<exists>ov \<in> set overlays. community ov \<noteq> [] \<and> community ov \<in> set (r_Communities b))}"
  "gm_bgp cfg srv" "gm_bpost cfg nbrs pols" for cfg ..

sublocale node_host \<subseteq> im: manager_contract "int_rec rt fw" "ri_new node" "int_post node addrs tables bridges"
  "im_bgp cfg srv" "im_bpost cfg nbrs pols ads" for node cfg ..

interpretation memgw: gateway_host mem_bgp_server "\<lambda>s. set (mb_nbrs s)" "\<lambda>s. set (mb_pols s)" "\<lambda>s. set (mb_ads s)"
  mem_routes "\<lambda>s. set (mh_vrfs s)" "\<lambda>s. set (mh_rules s)" "\<lambda>s. set (mh_addrs s)" "\<lambda>s t. set (mh_tables s t)" ..

interpretation memnode: node_host mem_bgp_server "\<lambda>s. set (mb_nbrs s)" "\<lambda>s. set (mb_pols s)" "\<lambda>s. set (mb_ads s)"
  mem_routes "\<lambda>s. set (mh_vrfs s)" "\<lambda>s. set (mh_rules s)" "\<lambda>s. set (mh_addrs s)" "\<lambda>s t. set (mh_tables s t)" mem_firewall set ..

context gateway_host
begin

lemmas gateway_manager_settled = gm.manager_settled

end

context node_host
begin

lemmas node_manager_settled = im.manager_settled

end

section \<open>Properties\<close>

text \<open>A gateway agent as a whole follows its overlays: under any interleaving of its goroutines,
  with the mediator serving the two subscribers at any times, once everything sent has been taken,
  both loops have last seen the snapshot \<open>snap\<close> and their last reconcile returned no error, the BGP
  daemon has exactly the neighbor addresses and policies of \<open>snap\<close>, and the main table exactly
  the routes learned from all events whose community belongs to an overlay of \<open>snap\<close>.\<close>

theorem gateway_manager_settles:
  assumes "gateway_host srv nbrs pols ads rt vrfs rules addrs tables"
    and "gm_Run cfg srv rt s b us bs evs m"
    and "ch_snapshots (mg_channels m) = []" "ch_events (mg_channels m) = []" "mg_bgpSnapshots m = []"
    and "us \<noteq> []" "last us = snap" "bs \<noteq> []" "last bs = snap"
    and "last (up_results (mg_updater m)) = None" "last (mg_bgp_results m) = None"
  shows "tables (up_host (mg_updater m)) 0 =
      {\<lparr>rr_TableID = 0, rr_Dst = p, rr_Gw = r_NextHop rt, rr_Dev = []\<rparr> | p rt.
         learned_route p evs = Some rt \<and> (\<exists>ov \<in> set snap. community ov \<noteq> [] \<and> community ov \<in> set (r_Communities rt))}
    \<and> n_Address ` nbrs (mg_bgp m) = {a. gm_has (bg_buildDesiredNeighbors (gm_reconciler cfg) snap) a}
    \<and> p_Name ` pols (mg_bgp m) = {x. gm_has (bg_buildDesiredPolicies (gm_reconciler cfg) snap) x}"
  using gateway_host.gateway_manager_settled [OF assms(1) assms(2) [unfolded gm_Run_def] assms(3-)]
  unfolding gm_bpost_def .

definition ex_gc :: gateway_config where
  "ex_gc = \<lparr>gc_NodeName = ''gw-a'', gc_IsSecondary = False, gc_WGListenPort = 51820, gc_WGKeyDir = ''/etc/pontifex/wg'',
     gc_LogLevel = ''info'', gc_ASN = 65000, gc_RouterID = ''10.0.0.1''\<rparr>"

text \<open>One snapshot sent to both loops of an agent, then taken by the updater and by the BGP loop.\<close>

definition ex_taken :: "('r, 'h, 'o) routes_rec \<Rightarrow> 'b bgp_rec \<Rightarrow> 'o \<Rightarrow> overlay list \<Rightarrow> ('r, 'h, 'b) manager \<Rightarrow> ('r, 'h, 'b) manager" where
  "ex_taken rr brec ord snap m =
     mg_reconcileBGP brec ex_ord snap (m\<lparr>mg_updater := on_snapshot rr ord snap (mg_updater m)\<rparr>)"

definition ex_waiting :: "overlay list \<Rightarrow> ('r, 'h, 'b) manager \<Rightarrow> ('r, 'h, 'b) manager" where
  "ex_waiting snap m = m\<lparr>mg_channels := open_channels\<lparr>ch_snapshots := [snap]\<rparr>, mg_bgpSnapshots := [snap]\<rparr>"

lemma ex_waiting_reached: "mgr_reach rr brec (mg_start r h b) [snap] [snap] [] (ex_waiting snap (mg_start r h b))"
proof -
  let ?m0 = "mg_start r h b" and ?c = "open_channels\<lparr>ch_snapshots := [snap]\<rparr>"
  have c: "open_channels\<lparr>ch_snapshots := ch_snapshots open_channels @ [snap]\<rparr> = ?c" by (simp add: open_channels_def)
  have 1: "mgr_reach rr brec ?m0 [snap] [] [] (?m0\<lparr>mg_channels := ?c\<rparr>)"
    using mgr_reach.to_updater [OF mgr_reach.start mg_start_fields(1), of rr brec r h b snap] unfolding c by (simp add: open_channels_def)
  show ?thesis using mgr_reach.to_bgp [OF 1, of snap] by (simp add: mg_start_fields ex_waiting_def)
qed

lemma ex_waiting_steps:
  "(mgr_step rr brec)\<^sup>*\<^sup>* (ex_waiting snap (mg_start r h b)) (ex_taken rr brec ord snap (mg_start r h b))"
proof -
  let ?m0 = "mg_start r h b" and ?c = "open_channels\<lparr>ch_snapshots := [snap]\<rparr>" and ?u = "on_snapshot rr ord snap (NewRoutesUpdater r h)"
  have "select rr (?c, NewRoutesUpdater r h) (?c\<lparr>ch_snapshots := []\<rparr>, ?u)"
    by (rule select.snapshot) (simp_all add: NewRoutesUpdater_def)
  moreover have "?c\<lparr>ch_snapshots := []\<rparr> = open_channels" by (simp add: open_channels_def)
  ultimately have 1: "mgr_step rr brec (ex_waiting snap ?m0) (ex_waiting snap ?m0\<lparr>mg_channels := open_channels, mg_updater := ?u\<rparr>)"
    by (intro mgr_step.updater) (simp add: mg_start_fields ex_waiting_def)
  have n: "\<not> mg_bgp_returned (ex_waiting snap ?m0\<lparr>mg_channels := open_channels, mg_updater := ?u\<rparr>)"
    by (simp add: mg_start_def Subscribe_def NewMediator_def ex_waiting_def)
  have e: "mg_start r h b\<lparr>mg_channels := open_channels, mg_updater := u, mg_bgpSnapshots := []\<rparr> = mg_start r h b\<lparr>mg_updater := u\<rparr>" for u
    by (simp add: mg_start_def Subscribe_def NewMediator_def open_channels_def)
  from mgr_step.bgp [OF n, of snap "[]" rr brec ex_ord]
  have 2: "mgr_step rr brec (ex_waiting snap ?m0\<lparr>mg_channels := open_channels, mg_updater := ?u\<rparr>) (ex_taken rr brec ord snap ?m0)"
    by (simp add: ex_waiting_def ex_taken_def mg_start_fields e)
  show ?thesis using 1 2 by (blast intro: rtranclp.rtrancl_into_rtrancl)
qed

lemma mgr_reach_steps: "(mgr_step rr brec)\<^sup>*\<^sup>* m m' \<Longrightarrow> mgr_reach rr brec m0 us bs evs m \<Longrightarrow> mgr_reach rr brec m0 us bs evs m'"
  by (induction rule: rtranclp_induct) (auto intro: mgr_reach.step)

lemma ex_taken_reached:
  "mgr_reach rr brec (mg_start r h b) [snap] [snap] [] (ex_taken rr brec ord snap (mg_start r h b))"
  by (rule mgr_reach_steps [OF ex_waiting_steps ex_waiting_reached])

definition ex_gm :: "(rt_gateway, mem_host, mem_bgp) manager" where
  "ex_gm = ex_taken (gw_rec mem_routes) (gm_bgp ex_gc mem_bgp_server) [] [ex_blue] (mg_start rg_new mem_host0 mem_bgp0)"

lemma ex_taken_drained:
  "ch_snapshots (mg_channels (ex_taken rr brec ord snap (mg_start r h b))) = []"
  "ch_events (mg_channels (ex_taken rr brec ord snap (mg_start r h b))) = []"
  "mg_bgpSnapshots (ex_taken rr brec ord snap (mg_start r h b)) = []"
  by (simp_all add: ex_taken_def mg_start_fields open_channels_def)

theorem gateway_manager_settles_witness:
  "n_Address ` set (mb_nbrs (mg_bgp ex_gm)) = {''203.0.113.7'', ''10.0.0.21''}"
proof -
  let ?snap = "[ex_blue]"
  have r: "gm_Run ex_gc mem_bgp_server mem_routes mem_host0 mem_bgp0 [?snap] [?snap] [] ex_gm"
    unfolding gm_Run_def ex_gm_def by (rule ex_taken_reached)
  have drained: "ch_snapshots (mg_channels ex_gm) = []" "ch_events (mg_channels ex_gm) = []" "mg_bgpSnapshots ex_gm = []"
    unfolding ex_gm_def by (rule ex_taken_drained)+
  have ok: "last (up_results (mg_updater ex_gm)) = None" "last (mg_bgp_results ex_gm) = None" by code_simp+
  have sent: "[?snap] \<noteq> []" "last [?snap] = ?snap" by simp_all
  have "map fst (bg_buildDesiredNeighbors (gm_reconciler ex_gc) ?snap) = [''203.0.113.7'', ''10.0.0.21'']" by code_simp
  then have k: "{a. gm_has (bg_buildDesiredNeighbors (gm_reconciler ex_gc) ?snap) a} = {''203.0.113.7'', ''10.0.0.21''}"
    unfolding gm_keys by (simp only: list.set)
  from gateway_manager_settles [OF memgw.gateway_host_axioms r drained sent sent ok]
  show ?thesis unfolding k by (rule conjunct1 [OF conjunct2])
qed

text \<open>An internal agent as a whole follows its overlays in the same way: drained and without an
  error of the last two reconciles, it has a session with exactly the node addresses of the
  gateways of the snapshot's overlays and the policies of those, advertises exactly the wanted virtual IPs, and has the tables, addresses and bridges of the
  snapshot.\<close>

theorem internal_manager_settles:
  assumes "node_host srv nbrs pols ads rt vrfs rules addrs tables fw bridges"
    and "im_Run cfg srv rt fw sf b us bs evs m"
    and "ch_snapshots (mg_channels m) = []" "ch_events (mg_channels m) = []" "mg_bgpSnapshots m = []"
    and "us \<noteq> []" "last us = snap" "bs \<noteq> []" "last bs = snap"
    and "last (up_results (mg_updater m)) = None" "last (mg_bgp_results m) = None"
  shows "int_post (ic_NodeName cfg) addrs tables bridges evs snap (up_host (mg_updater m)) \<and> im_bpost cfg nbrs pols ads snap (mg_bgp m)"
  using node_host.node_manager_settled [OF assms(1) assms(2) [unfolded im_Run_def] assms(3-)] .

definition ex_ic :: internal_config where
  "ex_ic = \<lparr>ic_NodeName = ''node-1'', ic_Firewall = ''auto'', ic_LogLevel = ''info'', ic_ASN = 65000, ic_RouterID = ''10.0.0.21''\<rparr>"

definition ex_im :: "(rt_internal, mem_host \<times> bridge list, mem_bgp) manager" where
  "ex_im = ex_taken (int_rec mem_routes mem_firewall) (im_bgp ex_ic mem_bgp_server) ex_order [ex_blue]
     (mg_start (ri_new (ic_NodeName ex_ic)) (mem_host0, []) mem_bgp0)"

theorem internal_manager_settles_witness:
  "fst ` set (mb_ads (mg_bgp ex_im)) = {''10.200.0.5/32''}"
proof -
  let ?snap = "[ex_blue]"
  have r: "im_Run ex_ic mem_bgp_server mem_routes mem_firewall (mem_host0, []) mem_bgp0 [?snap] [?snap] [] ex_im"
    unfolding im_Run_def ex_im_def by (rule ex_taken_reached)
  have drained: "ch_snapshots (mg_channels ex_im) = []" "ch_events (mg_channels ex_im) = []" "mg_bgpSnapshots ex_im = []"
    unfolding ex_im_def by (rule ex_taken_drained)+
  have ok: "last (up_results (mg_updater ex_im)) = None" "last (mg_bgp_results ex_im) = None" by code_simp+
  have sent: "[?snap] \<noteq> []" "last [?snap] = ?snap" by simp_all
  have "map fst (bi_buildDesiredAdvertisements (im_reconciler ex_ic) ?snap) = [''10.200.0.5/32'']" by code_simp
  then have k: "{a. gm_has (bi_buildDesiredAdvertisements (im_reconciler ex_ic) ?snap) a} = {''10.200.0.5/32''}"
    unfolding gm_keys by (simp only: list.set)
  from internal_manager_settles [OF memnode.node_host_axioms r drained sent sent ok]
  show ?thesis unfolding im_bpost_def k by (elim conjE)
qed

text \<open>C27: A manager stops when its context is cancelled: from every state with a cancelled context,
  whatever is still in the channels, there are steps after which the mediator, the BGP loop, the
  updater and \<open>Run\<close> have all returned, and then nothing moves any more.\<close>

theorem manager_stops:
  assumes "ch_cancelled (mg_channels m)"
  shows "\<exists>m'. (mgr_step rr brec)\<^sup>*\<^sup>* m m' \<and> up_returned (mg_updater m') \<and> mg_bgp_returned m' \<and>
    mg_mediator_returned m' \<and> mg_returned m' \<and> (\<nexists>m''. mgr_step rr brec m' m'')"
proof -
  obtain m' where "(mgr_step rr brec)\<^sup>*\<^sup>* m m'" "mg_stopped m'" using mgr_stops [OF assms] by blast
  then show ?thesis using mg_stopped_final [of m'] unfolding mg_stopped_def by blast
qed

theorem manager_stops_witness:
  "\<exists>m'. (mgr_step (gw_rec mem_routes) (gm_bgp ex_gc mem_bgp_server))\<^sup>*\<^sup>*
     (ex_gm\<lparr>mg_channels := open_channels\<lparr>ch_cancelled := True\<rparr>\<rparr>) m' \<and> mg_returned m'"
  using manager_stops [of "ex_gm\<lparr>mg_channels := open_channels\<lparr>ch_cancelled := True\<rparr>\<rparr>" "gw_rec mem_routes" "gm_bgp ex_gc mem_bgp_server"] by auto

end
