(* ===== verification/Wireguard.thy ===== *)
theory Wireguard
  imports Example Bgp_Lib Go_Strings
begin

text \<open>
  WireGuard: the interfaces and the \<open>Manager\<close> of \<open>libs/wg\<close> with its contract, the wgctrl-backed
  implementation of this phase, and the reconciler of \<open>reconcilers/wireguard/reconciler.go\<close>. The
  file system is an argument of the model (\<open>os.ReadFile\<close>).
\<close>

record wg_peer =
  wp_PublicKey :: string
  wp_Endpoint :: string
  wp_AllowedIPs :: "string list"

record wg_iface =
  wi_Name :: string
  wi_PrivateKey :: string
  wi_ListenPort :: int
  wi_Peers :: "wg_peer list"

record 's wg_manager =
  EnsureInterface :: "wg_iface \<Rightarrow> 's \<Rightarrow> go_error option \<times> 's"
  RemoveInterface :: "string \<Rightarrow> 's \<Rightarrow> go_error option \<times> 's"
  ListInterfaces :: "'s \<Rightarrow> go_error + wg_iface list"

text \<open>Unlike the other backends, ensuring an interface replaces the one of the same name.\<close>

locale wg_contract =
  upsert_store wi_Name ifaces "EnsureInterface mgr" "\<lambda>i. RemoveInterface mgr (wi_Name i)"
  for mgr :: "'s wg_manager" and ifaces :: "'s \<Rightarrow> wg_iface set" +
  assumes list_ifaces: "ListInterfaces mgr s = Inr ifs \<Longrightarrow> set ifs = ifaces s"

definition wgctrlManager :: "'s wg_manager" where
  "wgctrlManager = \<lparr>
     EnsureInterface = (\<lambda>iface s. (Some errNotImplemented, s)),
     RemoveInterface = (\<lambda>name s. (Some errNotImplemented, s)),
     ListInterfaces = (\<lambda>s. Inl errNotImplemented)\<rparr>"

interpretation wgctrl: wg_contract wgctrlManager ifaces for ifaces
  by unfold_locales (auto simp: wgctrlManager_def)

text \<open>A manager in memory.\<close>

definition mem_wg :: "wg_iface list wg_manager" where
  "mem_wg = \<lparr>
     EnsureInterface = (\<lambda>iface s. (None, upsert wi_Name iface s)),
     RemoveInterface = (\<lambda>name s. (None, drop_key wi_Name name s)),
     ListInterfaces = (\<lambda>s. Inr s)\<rparr>"

interpretation memw: wg_contract mem_wg set
  by unfold_locales (auto simp: mem_wg_def)

section \<open>The reconciler\<close>

record wg_reconciler =
  wr_wgKeyDir :: string
  wr_listen :: int

definition ifacePrefix :: string where
  "ifacePrefix = ''pntfx-''"

definition ifaceMaxLen :: nat where
  "ifaceMaxLen = 15"

definition ifaceName :: "string \<Rightarrow> string" where
  "ifaceName overlayName =
     (let name = ifacePrefix @ overlayName
      in if length name > ifaceMaxLen then take ifaceMaxLen name else name)"

definition key_path :: "wg_reconciler \<Rightarrow> overlay \<Rightarrow> string" where
  "key_path r ov = path_Join [wr_wgKeyDir r, ov_Name ov, ''private'']"

definition wg_peers :: "overlay \<Rightarrow> wg_peer list" where
  "wg_peers ov = map (\<lambda>p. \<lparr>wp_PublicKey = peer_PublicKey p, wp_Endpoint = peer_Endpoint p,
     wp_AllowedIPs = peer_AllowedIPs p\<rparr>) (peers_of ov)"

definition wg_config :: "wg_reconciler \<Rightarrow> string \<Rightarrow> overlay \<Rightarrow> wg_iface" where
  "wg_config r privKey ov = \<lparr>wi_Name = ifaceName (ov_Name ov), wi_PrivateKey = TrimSpace privKey,
     wi_ListenPort = wr_listen r, wi_Peers = wg_peers ov\<rparr>"

text \<open>The first loop: the wanted interfaces, the names to leave alone and the read errors.\<close>

definition wg_gather :: "(string \<Rightarrow> go_error + string) \<Rightarrow> wg_reconciler \<Rightarrow> overlay list
    \<Rightarrow> (string, wg_iface) gomap \<times> (string, unit) gomap \<times> go_error list" where
  "wg_gather ReadFile r overlays =
     fold (\<lambda>ov (desired, skip, errs).
       case ReadFile (key_path r ov) of
         Inl err \<Rightarrow> (desired, gm_put (ifaceName (ov_Name ov)) () skip,
           errs @ [Wrap (fmt_s (fmt_s ''overlay '' (ov_Name ov)) '': read private key'') err])
       | Inr privKey \<Rightarrow> (gm_put (ifaceName (ov_Name ov)) (wg_config r privKey ov) desired, skip, errs))
     overlays (gm_empty, gm_empty, [])"

definition wg_Reconcile :: "nat list \<Rightarrow> (string \<Rightarrow> go_error + string) \<Rightarrow> 's wg_manager \<Rightarrow> wg_reconciler
    \<Rightarrow> overlay list \<Rightarrow> 's \<Rightarrow> go_error option \<times> 's" where
  "wg_Reconcile ns ReadFile mgr r overlays s =
     (case wg_gather ReadFile r overlays of (desired, skip, errs) \<Rightarrow>
      (case ListInterfaces mgr s of
         Inl err \<Rightarrow> (Some (Wrap ''list wg interfaces'' err), s)
       | Inr actual \<Rightarrow>
           let st1 = go_for (\<lambda>i. gm_has desired (wi_Name i) \<or> gm_has skip (wi_Name i))
                       (\<lambda>i. RemoveInterface mgr (wi_Name i))
                       (\<lambda>i. Wrap (fmt_s ''remove interface '' (wi_Name i))) actual (s, errs);
               st2 = go_for (\<lambda>_. False) (EnsureInterface mgr)
                       (\<lambda>i. Wrap (fmt_s ''ensure interface '' (wi_Name i))) (map snd (gm_range ns desired)) st1
           in (join_errs (snd st2), fst st2)))"

section \<open>The first loop in closed form\<close>

definition key_ok :: "(string \<Rightarrow> go_error + string) \<Rightarrow> wg_reconciler \<Rightarrow> overlay \<Rightarrow> bool" where
  "key_ok ReadFile r ov = (case ReadFile (key_path r ov) of Inl _ \<Rightarrow> False | Inr _ \<Rightarrow> True)"

definition read_errors :: "(string \<Rightarrow> go_error + string) \<Rightarrow> wg_reconciler \<Rightarrow> overlay list \<Rightarrow> go_error list" where
  "read_errors ReadFile r overlays = concat (map (\<lambda>ov. case ReadFile (key_path r ov) of
     Inl err \<Rightarrow> [Wrap (fmt_s (fmt_s ''overlay '' (ov_Name ov)) '': read private key'') err] | Inr _ \<Rightarrow> []) overlays)"

definition wg_entry :: "(string \<Rightarrow> go_error + string) \<Rightarrow> wg_reconciler \<Rightarrow> overlay \<Rightarrow> (string \<times> wg_iface) list" where
  "wg_entry ReadFile r ov = (case ReadFile (key_path r ov) of
     Inl _ \<Rightarrow> [] | Inr privKey \<Rightarrow> [(ifaceName (ov_Name ov), wg_config r privKey ov)])"

lemma wg_gather_eq:
  "wg_gather ReadFile r overlays =
     (fold (\<lambda>(k, v). gm_put k v) (concat (map (wg_entry ReadFile r) overlays)) gm_empty,
      go_index (\<lambda>ov. ifaceName (ov_Name ov)) (filter (\<lambda>ov. \<not> key_ok ReadFile r ov) overlays),
      read_errors ReadFile r overlays)"
proof -
  have "fold (\<lambda>ov (desired, skip, errs).
       case ReadFile (key_path r ov) of
         Inl err \<Rightarrow> (desired, gm_put (ifaceName (ov_Name ov)) () skip,
           errs @ [Wrap (fmt_s (fmt_s ''overlay '' (ov_Name ov)) '': read private key'') err])
       | Inr privKey \<Rightarrow> (gm_put (ifaceName (ov_Name ov)) (wg_config r privKey ov) desired, skip, errs))
     overlays (d, k, es) =
     (fold (\<lambda>(k, v). gm_put k v) (concat (map (wg_entry ReadFile r) overlays)) d,
      fold (\<lambda>ov. gm_put (ifaceName (ov_Name ov)) ()) (filter (\<lambda>ov. \<not> key_ok ReadFile r ov) overlays) k,
      es @ read_errors ReadFile r overlays)" for d k es
  proof (induction overlays arbitrary: d k es)
    case (Cons ov overlays)
    show ?case
      by (cases "ReadFile (key_path r ov)") (simp_all add: Cons.IH wg_entry_def key_ok_def read_errors_def)
  qed (simp add: read_errors_def)
  then show ?thesis unfolding wg_gather_def go_index_def by simp
qed

lemma wg_entries:
  "(k, v) \<in> set (concat (map (wg_entry ReadFile r) overlays)) \<longleftrightarrow>
     (\<exists>ov \<in> set overlays. \<exists>c. ReadFile (key_path r ov) = Inr c \<and> k = ifaceName (ov_Name ov) \<and> v = wg_config r c ov)"
proof -
  have "(k, v) \<in> set (wg_entry ReadFile r ov) \<longleftrightarrow>
      (\<exists>c. ReadFile (key_path r ov) = Inr c \<and> k = ifaceName (ov_Name ov) \<and> v = wg_config r c ov)" for ov
    by (cases "ReadFile (key_path r ov)") (auto simp: wg_entry_def)
  then show ?thesis by simp
qed

lemma wg_desired_get:
  "gm_get (fold (\<lambda>(k, v). gm_put k v) (concat (map (wg_entry ReadFile r) overlays)) gm_empty) k = Some v \<Longrightarrow>
     \<exists>ov \<in> set overlays. \<exists>c. ReadFile (key_path r ov) = Inr c \<and> k = ifaceName (ov_Name ov) \<and> v = wg_config r c ov"
  by (drule put_all_SomeD) (simp only: wg_entries)

lemma key_ok_iff: "key_ok ReadFile r ov \<longleftrightarrow> (\<exists>c. ReadFile (key_path r ov) = Inr c)"
  by (auto simp: key_ok_def split: sum.splits)

lemma wg_desired_has:
  "gm_has (fold (\<lambda>(k, v). gm_put k v) (concat (map (wg_entry ReadFile r) overlays)) gm_empty) k \<longleftrightarrow>
     (\<exists>ov \<in> set overlays. key_ok ReadFile r ov \<and> k = ifaceName (ov_Name ov))"
proof -
  have "k \<in> fst ` S \<longleftrightarrow> (\<exists>v. (k, v) \<in> S)" for S :: "(string \<times> wg_iface) set" by force
  note this [of "set (concat (map (wg_entry ReadFile r) overlays))"]
  also have "(\<exists>v. (k, v) \<in> set (concat (map (wg_entry ReadFile r) overlays))) \<longleftrightarrow>
      (\<exists>ov \<in> set overlays. key_ok ReadFile r ov \<and> k = ifaceName (ov_Name ov))"
    unfolding wg_entries key_ok_iff by blast
  finally show ?thesis unfolding put_all_has .
qed

lemma wg_config_name [simp]: "wi_Name (wg_config r key ov) = ifaceName (ov_Name ov)"
  by (simp add: wg_config_def)

lemma wg_desired_keyed:
  "keyed_by wi_Name (fold (\<lambda>(k, v). gm_put k v) (concat (map (wg_entry ReadFile r) overlays)) gm_empty)"
  by (rule keyed_byI) (auto simp: gm.wf_put_all wg_config_def dest!: wg_desired_get)

lemma read_errors_Nil: "read_errors ReadFile r overlays = [] \<longleftrightarrow> (\<forall>ov \<in> set overlays. key_ok ReadFile r ov)"
  by (auto simp: read_errors_def key_ok_def split: sum.splits)

section \<open>The cycle\<close>

context wg_contract
begin

lemma wg_Reconcile_loops:
  assumes "wg_Reconcile ns ReadFile mgr r overlays s = (e, s')" "wg_gather ReadFile r overlays = (D, K, es)"
    and "ListInterfaces mgr s = Inr ifs"
  obtains s1 e1 e2 where
    "go_for (\<lambda>i. gm_has D (wi_Name i) \<or> gm_has K (wi_Name i)) (\<lambda>i. RemoveInterface mgr (wi_Name i))
       (\<lambda>i. Wrap (fmt_s ''remove interface '' (wi_Name i))) ifs (s, es) = (s1, e1)"
    "go_for (\<lambda>_. False) (EnsureInterface mgr) (\<lambda>i. Wrap (fmt_s ''ensure interface '' (wi_Name i)))
       (map snd (gm_range ns D)) (s1, e1) = (s', e2)"
    "e = join_errs e2"
proof -
  let ?st1 = "go_for (\<lambda>i. gm_has D (wi_Name i) \<or> gm_has K (wi_Name i)) (\<lambda>i. RemoveInterface mgr (wi_Name i))
       (\<lambda>i. Wrap (fmt_s ''remove interface '' (wi_Name i))) ifs (s, es)"
  let ?st2 = "go_for (\<lambda>_. False) (EnsureInterface mgr) (\<lambda>i. Wrap (fmt_s ''ensure interface '' (wi_Name i)))
       (map snd (gm_range ns D)) ?st1"
  have "e = join_errs (snd ?st2)" "s' = fst ?st2" using assms by (simp_all add: wg_Reconcile_def Let_def)
  then show thesis using that [of "fst ?st1" "snd ?st1" "snd ?st2"] by simp
qed

lemma wg_view:
  assumes D: "keyed_by wi_Name D" and lst: "set ifs = ifaces s"
    and 1: "go_for (\<lambda>i. gm_has D (wi_Name i) \<or> gm_has K (wi_Name i)) (\<lambda>i. RemoveInterface mgr (wi_Name i)) wr ifs (s, es) = (s1, es)"
    and 2: "go_for (\<lambda>_. False) (EnsureInterface mgr) wa (map snd (gm_range ns D)) (s1, es) = (s', es)"
  shows "ifaces s' = {v. gm_get D (wi_Name v) = Some v} \<union>
    {x \<in> ifaces s. gm_has K (wi_Name x) \<and> \<not> gm_has D (wi_Name x)}"
proof -
  let ?vs = "map snd (gm_range ns D)"
  have wf: "gm_wf D" by (rule keyed_by_wf [OF D])
  have vs: "set ?vs = {v. gm_get D (wi_Name v) = Some v}"
    unfolding gm.range_vals [OF wf, of ns] using keyed_byD [OF D] by blast
  have keys: "map wi_Name ?vs = map fst (gm_range ns D)" using D by (auto simp: keyed_by_def gm_range_def)
  have dist: "distinct (map wi_Name ?vs)" unfolding keys by (rule gm.range_distinct [OF wf])
  have in_keys: "wi_Name x \<in> wi_Name ` set ?vs \<longleftrightarrow> gm_has D (wi_Name x)" for x
  proof -
    have "n \<in> fst ` set (gm_range ns D) \<longleftrightarrow> gm_has D n" for n
    proof -
      have "n \<in> fst ` set (gm_range ns D) \<longleftrightarrow> (\<exists>v. (n, v) \<in> set (gm_range ns D))" by force
      then show ?thesis using gm.range_get [OF wf] by (simp add: gm_has_iff)
    qed
    moreover have "wi_Name ` set ?vs = fst ` set (gm_range ns D)"
      using arg_cong [OF keys, of set] by (simp only: set_map)
    ultimately show ?thesis by (simp only:)
  qed
  have s1: "ifaces s1 = {x \<in> ifaces s. gm_has D (wi_Name x) \<or> gm_has K (wi_Name x)}"
    by (rule rem_view [OF lst _ 1]) simp
  have "ifaces s' = {x \<in> ifaces s1. \<not> gm_has D (wi_Name x)} \<union> set ?vs"
    unfolding in_keys [symmetric] by (rule ensure_view [OF dist 2])
  then show ?thesis unfolding vs s1 by auto
qed

text \<open>In every outcome: an interface that is neither wanted nor to be removed is not touched.\<close>

lemma wg_untouched:
  fixes ifs :: "wg_iface list"
  assumes D: "keyed_by wi_Name D" and K: "gm_has K n" "\<not> gm_has D n"
    and 1: "go_for (\<lambda>i. gm_has D (wi_Name i) \<or> gm_has K (wi_Name i)) (\<lambda>i. RemoveInterface mgr (wi_Name i)) wr ifs (s, es) = (s1, e1)"
    and 2: "go_for (\<lambda>_. False) (EnsureInterface mgr) wa (map snd (gm_range ns D)) (s1, e1) = (s', e2)"
  shows "{x \<in> ifaces s'. wi_Name x = n} = {x \<in> ifaces s. wi_Name x = n}"
proof -
  let ?sk = "\<lambda>i. gm_has D (wi_Name i) \<or> gm_has K (wi_Name i)" and ?vs = "map snd (gm_range ns D)"
  have vs: "wi_Name v \<noteq> n" if v: "v \<in> set ?vs" for v
  proof -
    obtain k where "gm_get D k = Some v" using v unfolding gm.range_vals [OF keyed_by_wf [OF D], of ns] by blast
    then have "gm_has D (wi_Name v)" using keyed_byD [OF D] by (auto simp: gm_has_iff)
    then show ?thesis using K(2) by auto
  qed
  have "x \<in> ifaces s'" if "x \<in> ifaces s" "wi_Name x = n" for x
  proof -
    have "x \<in> ifaces s1" using rem_loop_frame [of x "(s, es)" ifs ?sk wr] that K 1 by fastforce
    then show ?thesis using add_loop_frame [of x "(s1, e1)" ?vs "\<lambda>_. False" wa] vs that(2) 2 by fastforce
  qed
  moreover have "x \<in> ifaces s" if "x \<in> ifaces s'" "wi_Name x = n" for x
    using add_loop_only [of x "\<lambda>_. False" wa ?vs "(s1, e1)"] vs [of x] that 2
      rem_loop_only [of x ?sk wr ifs "(s, es)"] 1 by auto
  ultimately show ?thesis by blast
qed

end

section \<open>Properties\<close>

text \<open>C11: A WireGuard sync that returns no error has read the private key of every overlay and leaves
  on the host exactly one interface per overlay, with the trimmed key, the listen port and the
  peers of the overlay, whatever was configured before. The overlays' interface names have to
  be different.\<close>

theorem wg_converges:
  assumes wg: "wg_contract mgr ifaces" and rec: "wg_Reconcile ns ReadFile mgr r overlays s = (None, s')"
    and names: "distinct (map (\<lambda>ov. ifaceName (ov_Name ov)) overlays)"
  shows "(\<forall>ov \<in> set overlays. \<exists>key. ReadFile (key_path r ov) = Inr key)
    \<and> ifaces s' = {wg_config r key ov | ov key. ov \<in> set overlays \<and> ReadFile (key_path r ov) = Inr key}"
proof -
  let ?ps = "concat (map (wg_entry ReadFile r) overlays)"
  let ?D = "fold (\<lambda>(k, v). gm_put k v) ?ps gm_empty"
  let ?K = "go_index (\<lambda>ov. ifaceName (ov_Name ov)) (filter (\<lambda>ov. \<not> key_ok ReadFile r ov) overlays)"
  obtain ifs where l: "ListInterfaces mgr s = Inr ifs"
    using rec by (auto simp: wg_Reconcile_def split: sum.splits prod.splits)
  obtain s1 e1 e2 where
    1: "go_for (\<lambda>i. gm_has ?D (wi_Name i) \<or> gm_has ?K (wi_Name i)) (\<lambda>i. RemoveInterface mgr (wi_Name i))
       (\<lambda>i. Wrap (fmt_s ''remove interface '' (wi_Name i))) ifs (s, read_errors ReadFile r overlays) = (s1, e1)" and
    2: "go_for (\<lambda>_. False) (EnsureInterface mgr) (\<lambda>i. Wrap (fmt_s ''ensure interface '' (wi_Name i)))
       (map snd (gm_range ns ?D)) (s1, e1) = (s', e2)" and e: "None = join_errs e2"
    by (rule wg_contract.wg_Reconcile_loops [OF wg rec wg_gather_eq l])
  have e2: "e2 = []" using e by (simp add: join_errs_def split: if_splits)
  have e1: "e1 = []" by (rule go_for_no_new_errs [OF 2 e2])
  have e0: "read_errors ReadFile r overlays = []" by (rule go_for_no_new_errs [OF 1 e1])
  then have ok: "\<forall>ov \<in> set overlays. key_ok ReadFile r ov" unfolding read_errors_Nil .
  then have K: "?K = gm_empty" by (simp add: go_index_def)
  have "map fst ?ps = map (\<lambda>ov. ifaceName (ov_Name ov)) overlays"
    using ok by (induction overlays) (auto simp: wg_entry_def key_ok_iff)
  then have get: "gm_get ?D (wi_Name v) = Some v \<longleftrightarrow> (wi_Name v, v) \<in> set ?ps" for v
    by (intro put_all_distinct) (simp only: names)
  have "ifaces s' = {v. gm_get ?D (wi_Name v) = Some v}"
    using wg_contract.wg_view [OF wg wg_desired_keyed wg_contract.list_ifaces [OF wg l]
        1 [unfolded e1 e0] 2 [unfolded e1 e2]] K by simp
  also have "\<dots> = {wg_config r key ov | ov key. ov \<in> set overlays \<and> ReadFile (key_path r ov) = Inr key}"
  proof -
    have "(\<exists>c. ReadFile (key_path r ov) = Inr c \<and> wi_Name v = ifaceName (ov_Name ov) \<and> v = wg_config r c ov)
        \<longleftrightarrow> (\<exists>c. ReadFile (key_path r ov) = Inr c \<and> v = wg_config r c ov)" for ov v by auto
    then show ?thesis unfolding get wg_entries by blast
  qed
  finally show ?thesis using ok unfolding key_ok_iff by blast
qed

definition ex_files :: "string \<Rightarrow> go_error + string" where
  "ex_files p = (if p = ''/etc/pontifex/wg/blue/private'' then Inr (''blue-key'' @ [CHR 0x0A]) else Inl (Errs ''no such file''))"

definition ex_wg :: wg_reconciler where
  "ex_wg = \<lparr>wr_wgKeyDir = ''/etc/pontifex/wg'', wr_listen = 51820\<rparr>"

definition ex_iface :: "string \<Rightarrow> wg_iface" where
  "ex_iface name = \<lparr>wi_Name = name, wi_PrivateKey = ''old'', wi_ListenPort = 1, wi_Peers = []\<rparr>"

theorem wg_converges_witness:
  "set (snd (wg_Reconcile [] ex_files mem_wg ex_wg [ex_blue] [ex_iface ''pntfx-gone''])) =
     {wg_config ex_wg (''blue-key'' @ [CHR 0x0A]) ex_blue}"
proof -
  have ok: "fst (wg_Reconcile [] ex_files mem_wg ex_wg [ex_blue] [ex_iface ''pntfx-gone'']) = None" by code_simp
  have k: "ex_files (key_path ex_wg ex_blue) = Inr (''blue-key'' @ [CHR 0x0A])" by code_simp
  have n: "distinct (map (\<lambda>ov. ifaceName (ov_Name ov)) [ex_blue])" by simp
  show ?thesis
    using wg_converges [OF memw.wg_contract_axioms pair_fst [OF ok] n, THEN conjunct2] k by auto
qed

text \<open>C31: A key file that cannot be read does not tear down a live interface: whatever the outcome of
  the sync, the interface of such an overlay is as before (neither created, changed nor
  removed), as long as no other overlay has the same interface name, and an error is
  returned.\<close>

theorem wg_unreadable_untouched:
  assumes wg: "wg_contract mgr ifaces" and rec: "wg_Reconcile ns ReadFile mgr r overlays s = (e, s')"
    and ov: "ov \<in> set overlays" "ReadFile (key_path r ov) = Inl err"
    and others: "\<forall>ov' \<in> set overlays. ifaceName (ov_Name ov') = ifaceName (ov_Name ov) \<longrightarrow> ov' = ov"
  shows "{i \<in> ifaces s'. wi_Name i = ifaceName (ov_Name ov)} = {i \<in> ifaces s. wi_Name i = ifaceName (ov_Name ov)} \<and> e \<noteq> None"
proof -
  let ?D = "fold (\<lambda>(k, v). gm_put k v) (concat (map (wg_entry ReadFile r) overlays)) gm_empty"
  let ?K = "go_index (\<lambda>ov. ifaceName (ov_Name ov)) (filter (\<lambda>ov. \<not> key_ok ReadFile r ov) overlays)"
  have bad: "\<not> key_ok ReadFile r ov" using ov(2) by (simp add: key_ok_def)
  have K: "gm_has ?K (ifaceName (ov_Name ov))" using ov(1) bad by simp
  have D: "\<not> gm_has ?D (ifaceName (ov_Name ov))"
    unfolding wg_desired_has using others bad by metis
  show ?thesis
  proof (cases "ListInterfaces mgr s")
    case (Inl err)
    then show ?thesis using rec by (auto simp: wg_Reconcile_def split: prod.splits)
  next
    case (Inr ifs)
    obtain s1 e1 e2 where
      1: "go_for (\<lambda>i. gm_has ?D (wi_Name i) \<or> gm_has ?K (wi_Name i)) (\<lambda>i. RemoveInterface mgr (wi_Name i))
         (\<lambda>i. Wrap (fmt_s ''remove interface '' (wi_Name i))) ifs (s, read_errors ReadFile r overlays) = (s1, e1)" and
      2: "go_for (\<lambda>_. False) (EnsureInterface mgr) (\<lambda>i. Wrap (fmt_s ''ensure interface '' (wi_Name i)))
         (map snd (gm_range ns ?D)) (s1, e1) = (s', e2)" and e: "e = join_errs e2"
      by (rule wg_contract.wg_Reconcile_loops [OF wg rec wg_gather_eq Inr])
    have "read_errors ReadFile r overlays \<noteq> []" unfolding read_errors_Nil using ov(1) bad by blast
    then have "e2 \<noteq> []" using go_for_no_new_errs [OF 1] go_for_no_new_errs [OF 2] by blast
    then show ?thesis using wg_contract.wg_untouched [OF wg wg_desired_keyed K D 1 2] e by simp
  qed
qed

definition ex_wg_run :: "go_error option \<times> wg_iface list" where
  "ex_wg_run = wg_Reconcile [] ex_files mem_wg ex_wg [ex_blue, ex_red] [ex_iface ''pntfx-red'']"

theorem wg_unreadable_untouched_witness:
  "ex_iface ''pntfx-red'' \<in> set (snd ex_wg_run) \<and> fst ex_wg_run \<noteq> None"
proof -
  have r: "wg_Reconcile [] ex_files mem_wg ex_wg [ex_blue, ex_red] [ex_iface ''pntfx-red''] = (fst ex_wg_run, snd ex_wg_run)"
    by (simp only: prod.collapse ex_wg_run_def)
  have k: "ex_files (key_path ex_wg ex_red) = Inl (Errs ''no such file'')"
    and n: "ifaceName (ov_Name ex_red) = ''pntfx-red''" "ifaceName (ov_Name ex_blue) = ''pntfx-blue''" by code_simp+
  have o: "\<forall>ov' \<in> set [ex_blue, ex_red]. ifaceName (ov_Name ov') = ifaceName (ov_Name ex_red) \<longrightarrow> ov' = ex_red"
    by (simp add: n)
  have "ex_iface ''pntfx-red'' \<in> {i \<in> set [ex_iface ''pntfx-red'']. wi_Name i = ifaceName (ov_Name ex_red)}"
    unfolding n by (simp add: ex_iface_def)
  moreover have m: "ex_red \<in> set [ex_blue, ex_red]" by simp
  note u = wg_unreadable_untouched [OF memw.wg_contract_axioms r m k o]
  ultimately have "ex_iface ''pntfx-red'' \<in> {i \<in> set (snd ex_wg_run). wi_Name i = ifaceName (ov_Name ex_red)}"
    unfolding u [THEN conjunct1] by blast
  then show ?thesis using u [THEN conjunct2] by (simp only: mem_Collect_eq) simp
qed

text \<open>C40: Interface names fit the kernel's 15 bytes and keep the prefix by which the manager recognises
  its interfaces; but two overlays get the same interface exactly when the first nine bytes of
  their names agree.\<close>

theorem ifaceName_fits:
  "length (ifaceName a) \<le> 15 \<and> take 6 (ifaceName a) = ''pntfx-'' \<and> (ifaceName a = ifaceName b \<longleftrightarrow> take 9 a = take 9 b)"
proof -
  have "ifaceName x = ''pntfx-'' @ take 9 x" for x
    by (auto simp: ifaceName_def ifacePrefix_def ifaceMaxLen_def Let_def)
  then show ?thesis by simp
qed

end
