(* ===== verification/Reconcilers_Live.thy ===== *)
theory Reconcilers_Live
  imports Routes_Internal_Correct Bgp_Internal Wireguard
begin

text \<open>
  Total correctness of the agent's reconcilers: which failures of the host they depend on, and
  that they fail for no other reason. Real hosts refuse an operation whose prerequisite is
  missing (an address for a VRF device that does not exist), so success also rests on the order
  in which a cycle creates things.
\<close>

section \<open>Loops that meet no failure\<close>

lemma ex_fst: "(\<exists>s'. p = (s', es)) \<longleftrightarrow> snd p = es"
  by (cases p) auto

lemmas smooth = ex_fst go_for_total

section \<open>Routes on an internal node\<close>

text \<open>A host that refuses nothing but addresses for a VRF that is not there.\<close>

locale responsive_host = host_contract +
  assumes lists_ok: "\<exists>vs. ListVRFs rt s = Inr vs" "\<exists>rs. ListRules rt s = Inr rs" "\<exists>bs. ListBridges fw f = Inr bs"
    and vrf_ok: "fst (EnsureVRF rt n t s) = None" "fst (RemoveVRF rt n s) = None"
    and rule_ok: "fst (EnsureRule rt r s) = None" "fst (RemoveRule rt r s) = None"
    and addr_ok: "v \<in> v_Name ` vrfs s \<Longrightarrow> \<exists>as. ListAddrs rt v s = Inr as"
      "v \<in> v_Name ` vrfs s \<Longrightarrow> fst (EnsureAddr rt v ip s) = None"
      "v \<in> v_Name ` vrfs s \<Longrightarrow> fst (RemoveAddr rt v ip s) = None"
    and routes_ok: "fst (SyncRoutes rt t ds s) = None"
    and bridge_ok: "fst (EnsureBridge fw o1 vip pod f) = None" "fst (RemoveBridge fw o1 vip f) = None"
begin

lemma VRFs_succeed: "\<exists>s'. ri_reconcileVRFs ns rt overlays (s, es) = (None, s', es)"
  using lists_ok(1) [of s] by (auto simp: ri_reconcileVRFs_def Let_def smooth vrf_ok)

lemma Rules_succeed: "\<exists>s'. ri_reconcileRules ns rt overlays (s, es) = (None, s', es)"
  using lists_ok(2) [of s] by (auto simp: ri_reconcileRules_def Let_def smooth rule_ok)

lemma Bridges_succeed: "\<exists>f'. ri_reconcileBridges ns node fw overlays (f, es) = (None, f', es)"
  using lists_ok(3) [of f] by (auto simp: ri_reconcileBridges_def Let_def smooth bridge_ok split: prod.splits)

lemma addr_loops:
  assumes "v \<in> v_Name ` vrfs (fst st)"
  shows "snd (go_for skip (\<lambda>a. RemoveAddr rt v (f a)) wrap xs st) = snd st"
    and "snd (go_for skip' (EnsureAddr rt v) wrap' ys st) = snd st"
    and "v \<in> v_Name ` vrfs (fst (go_for skip (\<lambda>a. RemoveAddr rt v (f a)) wrap xs st))"
  using assms
  by (auto intro!: go_for_total_inv [where I = "\<lambda>t. v \<in> v_Name ` vrfs t"] simp: addr_ok host.addr_frame go_for_pres [where P = vrfs])

lemma overlayAddrs_succeed:
  assumes v: "community ov \<noteq> [] \<Longrightarrow> vrfName (ov_Name ov) \<in> v_Name ` vrfs s"
  shows "\<exists>s'. ri_overlayAddrs ns node rt ov (s, es) = (s', es) \<and> vrfs s' = vrfs s"
proof (cases "community ov = []")
  case True
  then show ?thesis by (simp add: ri_overlayAddrs_def)
next
  case False
  obtain as where "ListAddrs rt (vrfName (ov_Name ov)) s = Inr as" using addr_ok(1) [OF v [OF False]] by blast
  then have "snd (ri_overlayAddrs ns node rt ov (s, es)) = es"
    using False v by (simp add: ri_overlayAddrs_def Let_def addr_loops)
  then obtain s' where r: "ri_overlayAddrs ns node rt ov (s, es) = (s', es)" unfolding ex_fst [symmetric] by blast
  then show ?thesis using host.overlayAddrs_spec(4) [OF False r] by blast
qed

lemma Addrs_succeed:
  assumes "\<forall>ov \<in> set ovs. community ov \<noteq> [] \<longrightarrow> vrfName (ov_Name ov) \<in> v_Name ` vrfs s"
  shows "\<exists>s'. ri_reconcileAddrs ch node rt ovs (s, es) = (s', es)"
  using assms
proof (induction ovs arbitrary: ch s)
  case (Cons ov ovs)
  obtain s1 where 1: "ri_overlayAddrs (ch 0) node rt ov (s, es) = (s1, es)" "vrfs s1 = vrfs s"
    using overlayAddrs_succeed [of ov s] Cons.prems by (metis list.set_intros(1))
  then show ?case using Cons.IH [of s1] Cons.prems by simp
qed simp

lemma Routes_succeed: "\<exists>s'. ri_reconcileRoutes ns r rt overlays (s, es) = (s', es)"
proof -
  have "\<exists>s'. ri_syncTables rt m ovs (s, es) = (s', es)" for m ovs
  proof (induction ovs arbitrary: s)
    case (Cons ov ovs)
    then show ?case by (cases "ri_table ov") (simp_all add: syncTables_step routes_ok del: ri_syncTables.simps)
  qed simp
  then show ?thesis by (simp add: ri_reconcileRoutes_def)
qed

lemma ri_Reconcile_succeeds:
  assumes c: "\<forall>ov \<in> set overlays. community ov \<noteq> [] \<longrightarrow> (\<exists>t. vrfTableID (community ov) = Inr t)"
  shows "\<exists>s' f'. ri_Reconcile ord rt fw r overlays (s, f) = (None, s', f')"
proof -
  obtain s1 where 1: "ri_reconcileVRFs (ro_vrfs ord) rt overlays (s, []) = (None, s1, [])" using VRFs_succeed by blast
  have "v_Name ` vrfs s1 = {n. gm_has (ri_desiredVRFs overlays) n}"
    using sync_resultD(4) [OF host.VRFs_spec(1) [OF 1]] keys_synced [OF vrfs_keyed] by metis
  moreover have "gm_has (ri_desiredVRFs overlays) (vrfName (ov_Name ov))" if "ov \<in> set overlays" "community ov \<noteq> []" for ov
  proof -
    obtain t where "vrfTableID (community ov) = Inr t" using c \<open>ov \<in> set overlays\<close> \<open>community ov \<noteq> []\<close> by blast
    then have "vrf_entry ov = Some (vrfName (ov_Name ov), \<lparr>v_Name = vrfName (ov_Name ov), v_TableID = t\<rparr>)"
      using that(2) by (simp add: vrf_entry_def ri_table_def)
    then show ?thesis unfolding vrfs_fold put_all_has using that(1) by (force simp: in_map_filter image_iff)
  qed
  moreover obtain s2 where 2: "ri_reconcileRules (ro_rules ord) rt overlays (s1, []) = (None, s2, [])" using Rules_succeed by blast
  moreover have "vrfs s2 = vrfs s1" by (rule host.Rules_spec(3) [OF 2])
  ultimately have "\<forall>ov \<in> set overlays. community ov \<noteq> [] \<longrightarrow> vrfName (ov_Name ov) \<in> v_Name ` vrfs s2" by simp
  then obtain s3 where 3: "ri_reconcileAddrs (ro_addrs ord) (ri_nodeName r) rt overlays (s2, []) = (s3, [])" using Addrs_succeed by blast
  obtain s4 where 4: "ri_reconcileRoutes (ro_learned ord) r rt overlays (s3, []) = (s4, [])" using Routes_succeed by blast
  obtain f' where 5: "ri_reconcileBridges (ro_bridges ord) (ri_nodeName r) fw overlays (f, []) = (None, f', [])" using Bridges_succeed by blast
  show ?thesis using 1 2 3 4 5 by (simp add: ri_Reconcile_def)
qed

end

text \<open>The host in memory, refusing addresses for VRFs that it does not have.\<close>

definition no_device :: go_error where
  "no_device = Errs ''no such device''"

definition strict_routes :: "mem_host routes" where
  "strict_routes = mem_routes\<lparr>
     EnsureAddr := (\<lambda>v ip s. if v \<in> v_Name ` set (mh_vrfs s) then EnsureAddr mem_routes v ip s else (Some no_device, s)),
     RemoveAddr := (\<lambda>v ip s. if v \<in> v_Name ` set (mh_vrfs s) then RemoveAddr mem_routes v ip s else (Some no_device, s)),
     ListAddrs := (\<lambda>v s. if v \<in> v_Name ` set (mh_vrfs s) then ListAddrs mem_routes v s else Inl no_device)\<rparr>"

interpretation sth: responsive_host strict_routes "\<lambda>s. set (mh_vrfs s)" "\<lambda>s. set (mh_rules s)"
    "\<lambda>s. set (mh_addrs s)" "\<lambda>s t. set (mh_tables s t)" mem_firewall set
  by unfold_locales (auto simp: strict_routes_def mem_routes_def mem_firewall_def image_iff split: prod.splits if_splits)

section \<open>BGP\<close>

text \<open>A daemon that refuses nothing but a neighbor that names a policy it does not have.\<close>

locale responsive_bgp = bgp_contract +
  assumes bgp_lists_ok: "\<exists>ns. ListNeighbors srv s = Inr ns" "\<exists>ps. ListPolicies srv s = Inr ps" "\<exists>as. ListAdvertised srv s = Inr as"
    and remove_ok: "fst (RemoveNeighbor srv a s) = None" "fst (RemovePolicy srv x s) = None" "fst (Withdraw srv x s) = None"
    and add_policy_ok: "fst (AddPolicy srv p s) = None"
    and add_neighbor_ok: "set (n_Policies n) \<subseteq> p_Name ` pols s \<Longrightarrow> fst (AddNeighbor srv n s) = None"
    and advertise_ok: "fst (Advertise srv x cs s) = None"
begin

lemma bg_Reconcile_succeeds: "fst (bg_Reconcile r ord srv overlays s) = None"
proof -
  obtain ns ps where "ListNeighbors srv s = Inr ns" "ListPolicies srv s = Inr ps" using bgp_lists_ok by blast
  then show ?thesis using remove_ok(1,2) add_policy_ok add_neighbor_ok by (rule bg_Reconcile_resolves)
qed

lemma bi_Reconcile_succeeds: "fst (bi_Reconcile r ord srv overlays s) = None"
proof -
  obtain ns ps as where l: "ListNeighbors srv s = Inr ns" "ListPolicies srv s = Inr ps" "ListAdvertised srv s = Inr as"
    using bgp_lists_ok by blast
  have "n_Policies n = []" if "n \<in> set (map snd (gm_range ord (bi_buildDesiredNeighbors r overlays)))" for n ord
  proof -
    from that obtain a where "gm_get (bi_buildDesiredNeighbors r overlays) a = Some n"
      unfolding gm.range_vals [OF keyed_by_wf [OF bi_neighbors_keyed]] mem_Collect_eq ..
    then show ?thesis by (auto simp: bi_neighbors_fold put_new_all_get bi_gatewayNeighbor_def dest!: map_of_SomeD)
  qed
  then show ?thesis
    by (simp add: bi_Reconcile_def l Let_def go_for_total remove_ok add_policy_ok advertise_ok add_neighbor_ok del: set_map)
qed

end

interpretation strb: responsive_bgp strict_bgp_server "\<lambda>s. set (mb_nbrs s)" "\<lambda>s. set (mb_pols s)" "\<lambda>s. set (mb_ads s)"
  by unfold_locales (simp_all add: strict_bgp_server_def mem_bgp_server_def)

section \<open>WireGuard\<close>

lemma wg_Reconcile_errors:
  assumes "ListInterfaces mgr s = Inr ifs"
    and "\<And>n s. fst (RemoveInterface mgr n s) = None" "\<And>i s. fst (EnsureInterface mgr i s) = None"
  shows "fst (wg_Reconcile ns ReadFile mgr r overlays s) = join_errs (read_errors ReadFile r overlays)"
  using assms by (simp add: wg_Reconcile_def wg_gather_eq Let_def go_for_total)

section \<open>Properties\<close>

text \<open>C22: VRFs come before the addresses on them: on a host that refuses an address operation only
  because the VRF device is missing, and refuses nothing else, a sync of an internal node returns no
  error for every snapshot whose communities can be parsed, whatever is on the host and whatever
  has been learned.\<close>

theorem ri_vrfs_before_addresses:
  assumes "responsive_host rt vrfs rules addrs tables fw bridges"
    and "\<forall>ov \<in> set overlays. community ov \<noteq> [] \<longrightarrow> (\<exists>t. vrfTableID (community ov) = Inr t)"
  shows "fst (ri_Reconcile ord rt fw r overlays sf) = None"
proof -
  obtain s f where "sf = (s, f)" by (rule prod.exhaust)
  then show ?thesis using responsive_host.ri_Reconcile_succeeds [OF assms, of ord r s f] by (elim exE) simp
qed

theorem ri_vrfs_before_addresses_witness:
  "fst (ri_Reconcile ex_order strict_routes mem_firewall (ri_new ''node-1'') [ex_blue, ex_red] (mem_host0, [])) = None"
proof (rule ri_vrfs_before_addresses [OF sth.responsive_host_axioms])
  have "vrfTableID (community ex_blue) = Inr 10001" "vrfTableID (community ex_red) = Inr 10002" by code_simp+
  then show "\<forall>ov \<in> set [ex_blue, ex_red]. community ov \<noteq> [] \<longrightarrow> (\<exists>t. vrfTableID (community ov) = Inr t)"
    unfolding list.set ball_simps(5,7) by blast
qed

text \<open>C30: A WireGuard cycle fails for its keys only: with a manager that refuses nothing, the result is
  the join of one error per overlay whose key file cannot be read, in the order of the snapshot, so
  that it is nil exactly if all key files can be read.\<close>

theorem wg_fails_for_keys_only:
  assumes "ListInterfaces mgr s = Inr ifs"
    and "\<And>n s. fst (RemoveInterface mgr n s) = None" "\<And>i s. fst (EnsureInterface mgr i s) = None"
  shows "fst (wg_Reconcile ns ReadFile mgr r overlays s) = join_errs (read_errors ReadFile r overlays) \<and>
    (fst (wg_Reconcile ns ReadFile mgr r overlays s) = None \<longleftrightarrow> (\<forall>ov \<in> set overlays. \<exists>k. ReadFile (key_path r ov) = Inr k))"
  using wg_Reconcile_errors [OF assms, of ns ReadFile r overlays] by (simp add: read_errors_Nil key_ok_iff)

theorem wg_fails_for_keys_only_witness:
  "fst (wg_Reconcile [] ex_files mem_wg ex_wg [ex_blue, ex_red] []) = join_errs (read_errors ex_files ex_wg [ex_blue, ex_red]) \<and>
   length (read_errors ex_files ex_wg [ex_blue, ex_red]) = 1"
proof
  show "fst (wg_Reconcile [] ex_files mem_wg ex_wg [ex_blue, ex_red] []) = join_errs (read_errors ex_files ex_wg [ex_blue, ex_red])"
    by (rule wg_fails_for_keys_only [where ifs = "[]", THEN conjunct1]) (simp_all add: mem_wg_def)
qed code_simp

end
