(* ===== verification/Agents_Live.thy ===== *)
theory Agents_Live
  imports Managers Reconcilers_Live
begin

text \<open>
  Liveness of the two agents: with no further input every run of the goroutines ends, whatever the
  scheduler does, and where it ends the host is what the last snapshot asks for. The parts are
  the termination of the step relation, that a manager with open channels only stops when its
  channels are empty, and that the reconcilers succeed on responsive hosts.
\<close>

section \<open>Every run ends\<close>

text \<open>What is still to be taken, and the goroutines that are still to return.\<close>

definition mg_work :: "('r, 'h, 'b) manager \<Rightarrow> nat" where
  "mg_work m = length (ch_snapshots (mg_channels m)) + length (ch_events (mg_channels m)) + length (mg_bgpSnapshots m) +
     of_bool (\<not> up_returned (mg_updater m)) + of_bool (\<not> mg_bgp_returned m) +
     of_bool (\<not> mg_mediator_returned m) + of_bool (\<not> mg_returned m)"

lemma mg_reconcileBGP_returned [simp]:
  "mg_mediator_returned (mg_reconcileBGP brec ord x m) = mg_mediator_returned m"
  "mg_returned (mg_reconcileBGP brec ord x m) = mg_returned m"
  by (simp_all add: mg_reconcileBGP_def split: prod.splits)

lemma select_work:
  "select rr (c, u) (c', u') \<Longrightarrow>
     length (ch_snapshots c') + length (ch_events c') + of_bool (\<not> up_returned u') <
     length (ch_snapshots c) + length (ch_events c) + (of_bool (\<not> up_returned u) :: nat)"
  by (erule select.cases) (auto simp: on_snapshot_def on_event_def on_return_def)

lemma mgr_step_work: "mgr_step rr brec m m' \<Longrightarrow> mg_work m' < mg_work m"
proof (induction rule: mgr_step.induct)
  case (updater m c u)
  then show ?case using select_work [OF updater] by (simp add: mg_work_def)
qed (simp_all add: mg_work_def)

lemma mgr_run_bounded: "(mgr_step rr brec ^^ n) m m' \<Longrightarrow> n + mg_work m' \<le> mg_work m"
proof (induction n arbitrary: m')
  case (Suc n)
  then obtain m1 where "(mgr_step rr brec ^^ n) m m1" "mgr_step rr brec m1 m'" by auto
  then show ?case using Suc.IH [of m1] mgr_step_work [of rr brec m1 m'] by simp
qed simp

section \<open>Where a run ends\<close>

definition ch_open :: "channels \<Rightarrow> bool" where
  "ch_open c \<longleftrightarrow> \<not> ch_snapshots_closed c \<and> \<not> ch_events_closed c \<and> \<not> ch_cancelled c"

text \<open>As long as the channels are open no loop has returned.\<close>

definition loops_run :: "('r, 'h, 'b) manager \<Rightarrow> bool" where
  "loops_run m \<longleftrightarrow> (ch_open (mg_channels m) \<longrightarrow> \<not> up_returned (mg_updater m) \<and> \<not> mg_bgp_returned m)"

lemma select_open:
  "select rr (c, u) (c', u') \<Longrightarrow> ch_open c' = ch_open c \<and> (ch_open c \<longrightarrow> up_returned u' = up_returned u)"
  by (erule select.cases) (auto simp: ch_open_def on_snapshot_def on_event_def)

lemma loops_run_step:
  assumes "mgr_step rr brec m m'"
  shows "ch_open (mg_channels m') = ch_open (mg_channels m)" "loops_run m \<Longrightarrow> loops_run m'"
  using assms by (cases; auto simp: loops_run_def ch_open_def dest: select_open)+

lemma mgr_reach_loops: "mgr_reach rr brec m0 us bs evs m \<Longrightarrow> m0 = mg_start r h b \<Longrightarrow> loops_run m"
proof (induction rule: mgr_reach.induct)
  case start
  then show ?case by (simp add: loops_run_def mg_start_def Subscribe_def NewMediator_def NewRoutesUpdater_def)
next
  case (step us bs evs m m')
  then show ?case by (blast intro: loops_run_step(2))
next
  case (shutting us bs evs m c)
  then have "loops_run m" "ch_open c \<Longrightarrow> ch_open (mg_channels m)" by (auto simp: ch_open_def elim: shut.cases)
  then show ?case by (simp add: loops_run_def)
qed (auto simp: loops_run_def ch_open_def)

lemma mgr_stuck_drained:
  assumes "\<nexists>m'. mgr_step rr brec m m'" "ch_open (mg_channels m)" "loops_run m"
  shows "ch_snapshots (mg_channels m) = []" "ch_events (mg_channels m) = []" "mg_bgpSnapshots m = []"
proof -
  have r: "\<not> up_returned (mg_updater m)" "\<not> mg_bgp_returned m" using assms(2,3) by (simp_all add: loops_run_def)
  have "\<nexists>cu. select rr (mg_channels m, mg_updater m) cu"
    using assms(1) mgr_step.updater [of rr m _ _ brec] by (metis surj_pair)
  then show "ch_snapshots (mg_channels m) = []" "ch_events (mg_channels m) = []" unfolding select_ready using r(1) by auto
  show "mg_bgpSnapshots m = []" using assms(1) mgr_step.bgp [OF r(2), of _ _ rr brec] by (cases "mg_bgpSnapshots m") auto
qed

lemma mgr_drained_stuck:
  assumes "ch_snapshots (mg_channels m) = []" "ch_events (mg_channels m) = []" "mg_bgpSnapshots m = []" "ch_open (mg_channels m)"
  shows "\<nexists>m'. mgr_step rr brec m m'"
proof
  assume "\<exists>m'. mgr_step rr brec m m'"
  then obtain m' where "mgr_step rr brec m m'" ..
  then show False
  proof cases
    case (updater c u)
    then have "\<exists>cu. select rr (mg_channels m, mg_updater m) cu" by blast
    then show False unfolding select_ready using assms by (simp add: ch_open_def)
  qed (use assms in \<open>auto simp: ch_open_def md_Run_def\<close>)
qed

lemma mgr_steps_open: "(mgr_step rr brec)\<^sup>*\<^sup>* m m' \<Longrightarrow> ch_open (mg_channels m') = ch_open (mg_channels m)"
  by (induction rule: rtranclp_induct) (auto dest: loops_run_step(1))

section \<open>Reconcilers that succeed\<close>

text \<open>
  The contract of a manager's parts with success: on a snapshot that is \<open>good\<close> neither of the two
  reconcilers returns an error.
\<close>

locale live_manager = manager_contract +
  fixes good :: "overlay list \<Rightarrow> bool"
  assumes routes_live: "good overlays \<Longrightarrow> fst (Reconcile rr ord (fold (ApplyEvent rr) evs r0) overlays s) = None"
    and bgp_live: "good overlays \<Longrightarrow> fst (brec bord overlays b) = None"
begin

lemma live_results:
  assumes reach: "mgr_reach rr brec (mg_start r0 h b) us bs evs m"
    and drained: "ch_snapshots (mg_channels m) = []" "ch_events (mg_channels m) = []" "mg_bgpSnapshots m = []"
    and sent: "us \<noteq> []" "last us = snap" "bs \<noteq> []" "last bs = snap" and good: "good snap"
  shows "last (up_results (mg_updater m)) = None \<and> last (mg_bgp_results m) = None"
proof
  have "upd_inv rr r0 us evs (mg_channels m, mg_updater m)"
    by (rule reaches_inv [OF mgr_reach_updater [OF reach refl] refl])
  then obtain ord s where "Reconcile rr ord (fold (ApplyEvent rr) evs r0) snap s = (last (up_results (mg_updater m)), up_host (mg_updater m))"
    unfolding upd_inv_def using drained sent by (auto simp: last_or_nil_def)
  then show "last (up_results (mg_updater m)) = None" using routes_live [OF good, of ord evs s] by simp
  obtain bord b1 where "brec bord snap b1 = (last (mg_bgp_results m), mg_bgp m)"
    using mgr_reach_bgp [OF reach refl] drained(3) sent(3,4) by (auto simp: bgp_loop_inv_def)
  then show "last (mg_bgp_results m) = None" using bgp_live [OF good, of bord b1] by simp
qed

lemma run_settles:
  assumes reach: "mgr_reach rr brec (mg_start r0 h b) us bs evs m" and op: "ch_open (mg_channels m)"
    and sent: "us \<noteq> []" "last us = snap" "bs \<noteq> []" "last bs = snap" and good: "good snap"
    and run: "(mgr_step rr brec)\<^sup>*\<^sup>* m m'" and stuck: "\<nexists>m''. mgr_step rr brec m' m''"
  shows "post evs snap (up_host (mg_updater m')) \<and> bpost snap (mg_bgp m')"
proof -
  have r: "mgr_reach rr brec (mg_start r0 h b) us bs evs m'" "ch_open (mg_channels m')"
    using mgr_reach_steps [OF run reach] mgr_steps_open [OF run] op by simp_all
  note d = mgr_stuck_drained [OF stuck r(2) mgr_reach_loops [OF r(1) refl]]
  have "last (up_results (mg_updater m')) = None \<and> last (mg_bgp_results m') = None"
    by (rule live_results [OF r(1) d sent good])
  then show ?thesis by (elim conjE) (rule manager_settled [OF r(1) d sent])
qed

end

section \<open>The two agents\<close>

locale live_gateway = responsive_bgp srv nbrs pols ads + routes_contract rt vrfs rules addrs tables
  for srv :: "'b bgp_server" and nbrs pols ads and rt :: "'s routes" and vrfs rules addrs tables +
  assumes sync_live: "fst (SyncRoutes rt t ds s) = None"

locale live_node = responsive_bgp srv nbrs pols ads + responsive_host rt vrfs rules addrs tables fw bridges
  for srv :: "'b bgp_server" and nbrs pols ads and rt :: "'s routes" and vrfs rules addrs tables
    and fw :: "'f firewall" and bridges

text \<open>The communities of the snapshot can be parsed, as those the operator allocates can.\<close>

definition parsable :: "overlay list \<Rightarrow> bool" where
  "parsable overlays \<longleftrightarrow> (\<forall>ov \<in> set overlays. community ov \<noteq> [] \<longrightarrow> (\<exists>t. vrfTableID (community ov) = Inr t))"

lemma fst_case_result: "fst (case p of (Some e, s) \<Rightarrow> (Some (f e), s) | (None, s) \<Rightarrow> (None, s)) = map_option f (fst p)"
  by (cases p; cases "fst p") auto

sublocale live_gateway \<subseteq> lgm: live_manager "gw_rec rt" rg_new
  "\<lambda>evs overlays s. tables s 0 =
      {\<lparr>rr_TableID = 0, rr_Dst = p, rr_Gw = r_NextHop b, rr_Dev = []\<rparr> | p b.
         learned_route p evs = Some b \<and>
         (\<exists>ov \<in> set overlays. community ov \<noteq> [] \<and> community ov \<in> set (r_Communities b))}"
  "gm_bgp cfg srv" "gm_bpost cfg nbrs pols" "\<lambda>_. True" for cfg
  by unfold_locales (simp_all add: gw_rec_def rg_Reconcile_def Let_def fst_case_result sync_live gm_bgp_def bg_Reconcile_succeeds)

sublocale live_node \<subseteq> lim: live_manager "int_rec rt fw" "ri_new node" "int_post node addrs tables bridges"
  "im_bgp cfg srv" "im_bpost cfg nbrs pols ads" parsable for node cfg
proof unfold_locales
  fix ord evs overlays sf assume "parsable overlays"
  then have "\<exists>s' f'. ri_Reconcile ord rt fw (fold ri_ApplyEvent evs (ri_new node)) overlays (fst sf, snd sf) = (None, s', f')"
    unfolding parsable_def by (rule ri_Reconcile_succeeds)
  then show "fst (Reconcile (int_rec rt fw) ord (fold (ApplyEvent (int_rec rt fw)) evs (ri_new node)) overlays sf) = None"
    by (auto simp: int_rec_def)
qed (simp add: im_bgp_def bi_Reconcile_succeeds)

interpretation slg: live_gateway strict_bgp_server "\<lambda>s. set (mb_nbrs s)" "\<lambda>s. set (mb_pols s)" "\<lambda>s. set (mb_ads s)"
  mem_routes "\<lambda>s. set (mh_vrfs s)" "\<lambda>s. set (mh_rules s)" "\<lambda>s. set (mh_addrs s)" "\<lambda>s t. set (mh_tables s t)"
  by unfold_locales (simp add: mem_routes_def)

interpretation sln: live_node strict_bgp_server "\<lambda>s. set (mb_nbrs s)" "\<lambda>s. set (mb_pols s)" "\<lambda>s. set (mb_ads s)"
  strict_routes "\<lambda>s. set (mh_vrfs s)" "\<lambda>s. set (mh_rules s)" "\<lambda>s. set (mh_addrs s)" "\<lambda>s t. set (mh_tables s t)" mem_firewall set ..

context live_gateway
begin

lemmas gateway_run_settles = lgm.run_settles [OF _ _ _ _ _ _ TrueI]

end

context live_node
begin

lemmas node_run_settles = lim.run_settles

end

text \<open>What an internal agent has established, with all guards written out.\<close>

lemma parsable_table:
  assumes "parsable overlays"
  shows "(\<exists>o1 \<in> set overlays. community o1 = c \<and> ri_table o1 \<noteq> None) \<longleftrightarrow> c \<noteq> [] \<and> c \<in> community ` set overlays"
proof -
  have "ri_table o1 \<noteq> None \<longleftrightarrow> community o1 \<noteq> []" if o1: "o1 \<in> set overlays" for o1
  proof (cases "community o1 = []")
    case False
    then obtain t where "vrfTableID (community o1) = Inr t" using assms o1 unfolding parsable_def by blast
    then show ?thesis using False by (simp add: ri_table_def)
  qed (simp add: ri_table_def)
  then show ?thesis by blast
qed

lemma int_post_explicit:
  assumes "int_post node addrs tables bridges evs overlays sf" and p: "parsable overlays"
  shows "ov \<in> set overlays \<Longrightarrow> community ov \<noteq> [] \<Longrightarrow> \<exists>t. vrfTableID (community ov) = Inr t \<and> tables (fst sf) t =
      {vrf_route t b | q b c. learned_route q evs = Some b \<and>
         find (\<lambda>c. c \<noteq> [] \<and> c \<in> community ` set overlays) (r_Communities b) = Some c \<and> vrfTableID c = Inr t}"
    and "distinct (map ov_Name overlays) \<Longrightarrow> ov \<in> set overlays \<Longrightarrow> community ov \<noteq> [] \<Longrightarrow>
      {ip. (vrfName (ov_Name ov), ip) \<in> addrs (fst sf)} = {es_VirtualIP e | e. e \<in> set (edges_of ov) \<and>
         es_NodeName e = node \<and> es_Ready e \<and> es_VirtualIP e \<noteq> []}"
    and "bridge_key ` bridges (snd sf) = {(ov_Name o1, es_VirtualIP e) | o1 e. o1 \<in> set overlays \<and> e \<in> set (edges_of o1) \<and>
         es_NodeName e = node \<and> es_Ready e \<and> es_VirtualIP e \<noteq> [] \<and> es_PodIP e \<noteq> []}"
proof -
  note post = assms(1) [unfolded int_post_def case_prod_beta]
  note 1 = post [THEN conjunct1] and 2 = post [THEN conjunct2, THEN conjunct1] and 3 = post [THEN conjunct2, THEN conjunct2]
  show "\<exists>t. vrfTableID (community ov) = Inr t \<and> tables (fst sf) t =
      {vrf_route t b | q b c. learned_route q evs = Some b \<and>
         find (\<lambda>c. c \<noteq> [] \<and> c \<in> community ` set overlays) (r_Communities b) = Some c \<and> vrfTableID c = Inr t}"
    if ov: "ov \<in> set overlays" "community ov \<noteq> []"
  proof -
    obtain t where t: "vrfTableID (community ov) = Inr t" using p ov unfolding parsable_def by blast
    then have "ri_table ov = Some t" using ov(2) by (simp add: ri_table_def)
    then have "tables (fst sf) t = {vrf_route t b | p b. learned_route p evs = Some b \<and> table_of (ri_communityMap overlays) b = Some t}"
      using 1 ov(1) by blast
    also have "\<dots> = {vrf_route t b | q b c. learned_route q evs = Some b \<and>
         find (\<lambda>c. c \<noteq> [] \<and> c \<in> community ` set overlays) (r_Communities b) = Some c \<and> vrfTableID c = Inr t}"
      unfolding table_of_iff parsable_table [OF p] by blast
    finally show ?thesis using t by blast
  qed
  show "{ip. (vrfName (ov_Name ov), ip) \<in> addrs (fst sf)} = {es_VirtualIP e | e. e \<in> set (edges_of ov) \<and>
         es_NodeName e = node \<and> es_Ready e \<and> es_VirtualIP e \<noteq> []}"
    if ov: "distinct (map ov_Name overlays)" "ov \<in> set overlays" "community ov \<noteq> []"
  proof -
    have "{ip. (vrfName (ov_Name ov), ip) \<in> addrs (fst sf)} = {ip. gm_has (ri_desiredIPs node ov) ip}" using 2 ov by simp
    then show ?thesis by (auto simp: desiredIPs_has)
  qed
  show "bridge_key ` bridges (snd sf) = {(ov_Name o1, es_VirtualIP e) | o1 e. o1 \<in> set overlays \<and> e \<in> set (edges_of o1) \<and>
         es_NodeName e = node \<and> es_Ready e \<and> es_VirtualIP e \<noteq> [] \<and> es_PodIP e \<noteq> []}"
    unfolding 3 bridges_has by (rule Collect_cong, rule iffI; elim bexE exE conjE; intro bexI exI conjI)
qed

lemma im_bpost_explicit:
  assumes "im_bpost cfg nbrs pols ads overlays b"
  shows "n_Address ` nbrs b = {gw_NodeIP g | g ov. ov \<in> set overlays \<and> g \<in> set (gateways_of ov) \<and> gw_NodeIP g \<noteq> []}"
    and "p_Name ` pols b = (\<Union>ov \<in> {ov \<in> set overlays. community ov \<noteq> []}. {exportName (ov_Name ov), importName (ov_Name ov)})"
    and "fst ` ads b = {es_VirtualIP e @ ''/32'' | e ov. ov \<in> set overlays \<and> community ov \<noteq> [] \<and> e \<in> set (edges_of ov) \<and>
      es_NodeName e = ic_NodeName cfg \<and> es_Ready e \<and> es_VirtualIP e \<noteq> []}"
proof -
  have n: "bi_nodeName (im_reconciler cfg) = ic_NodeName cfg" by (simp add: im_reconciler_def)
  note post = assms [unfolded im_bpost_def]
  show "n_Address ` nbrs b = {gw_NodeIP g | g ov. ov \<in> set overlays \<and> g \<in> set (gateways_of ov) \<and> gw_NodeIP g \<noteq> []}"
    unfolding post [THEN conjunct1] bi_neighbors_has by auto
  show "p_Name ` pols b = (\<Union>ov \<in> {ov \<in> set overlays. community ov \<noteq> []}. {exportName (ov_Name ov), importName (ov_Name ov)})"
    unfolding post [THEN conjunct2, THEN conjunct1] bi_policies_has by blast
  show "fst ` ads b = {es_VirtualIP e @ ''/32'' | e ov. ov \<in> set overlays \<and> community ov \<noteq> [] \<and> e \<in> set (edges_of ov) \<and>
      es_NodeName e = ic_NodeName cfg \<and> es_Ready e \<and> es_VirtualIP e \<noteq> []}"
    unfolding post [THEN conjunct2, THEN conjunct2] bi_ads_has bi_localEdges_iff n by (rule Collect_cong) iprover
qed

section \<open>Properties\<close>

text \<open>C6: A gateway agent always catches up. On a host whose daemon refuses only neighbors with a missing
  policy and whose routing refuses nothing, take any state of the agent with open channels whose
  two loops have last been sent the snapshot \<open>snap\<close>. With no further input every run from it ends
  (after at most as many steps as messages are waiting and goroutines running), whatever the
  scheduler does, and wherever it ends the daemon has exactly the neighbor addresses and policies
  of \<open>snap\<close> and the main table exactly the learned routes of its overlays.\<close>

theorem gateway_agent_catches_up:
  assumes "live_gateway srv nbrs pols ads rt vrfs rules addrs tables"
    and "gm_Run cfg srv rt s b us bs evs m" "ch_open (mg_channels m)"
    and "us \<noteq> []" "last us = snap" "bs \<noteq> []" "last bs = snap"
  defines "step \<equiv> mgr_step (gw_rec rt) (gm_bgp cfg srv)"
  shows "((step ^^ n) m m' \<longrightarrow> n \<le> mg_work m) \<and>
    (step\<^sup>*\<^sup>* m m' \<and> (\<nexists>m''. step m' m'') \<longrightarrow>
      tables (up_host (mg_updater m')) 0 =
        {\<lparr>rr_TableID = 0, rr_Dst = p, rr_Gw = r_NextHop rt, rr_Dev = []\<rparr> | p rt.
           learned_route p evs = Some rt \<and> (\<exists>ov \<in> set snap. community ov \<noteq> [] \<and> community ov \<in> set (r_Communities rt))} \<and>
      n_Address ` nbrs (mg_bgp m') = {a. gm_has (bg_buildDesiredNeighbors (gm_reconciler cfg) snap) a} \<and>
      p_Name ` pols (mg_bgp m') = {x. gm_has (bg_buildDesiredPolicies (gm_reconciler cfg) snap) x})"
  unfolding step_def
  using mgr_run_bounded [of n "gw_rec rt" "gm_bgp cfg srv" m m']
    live_gateway.gateway_run_settles [OF assms(1) assms(2) [unfolded gm_Run_def] assms(3-7), of m']
  unfolding gm_bpost_def by auto

definition ex_gm_strict :: "(rt_gateway, mem_host, mem_bgp) manager" where
  "ex_gm_strict = ex_taken (gw_rec mem_routes) (gm_bgp ex_gc strict_bgp_server) [] [ex_blue] (mg_start rg_new mem_host0 mem_bgp0)"

lemma ex_open: "ch_open (mg_channels (ex_waiting snap m))" "ch_open (mg_channels (ex_taken rr brec ord snap (mg_start r h b)))"
  by (simp_all add: ex_waiting_def ex_taken_def mg_start_fields ch_open_def open_channels_def)

lemmas ex_taken_stuck = mgr_drained_stuck [OF ex_taken_drained ex_open(2)]

theorem gateway_agent_catches_up_witness:
  "n_Address ` set (mb_nbrs (mg_bgp ex_gm_strict)) = {a. gm_has (bg_buildDesiredNeighbors (gm_reconciler ex_gc) [ex_blue]) a}"
proof -
  let ?m = "ex_waiting [ex_blue] (mg_start rg_new mem_host0 mem_bgp0)"
  have r: "gm_Run ex_gc strict_bgp_server mem_routes mem_host0 mem_bgp0 [[ex_blue]] [[ex_blue]] [] ?m"
    unfolding gm_Run_def by (rule ex_waiting_reached)
  have l: "[[ex_blue]] \<noteq> []" "last [[ex_blue]] = [ex_blue]" by simp_all
  note c = gateway_agent_catches_up [OF slg.live_gateway_axioms r ex_open(1) l l, THEN conjunct2, THEN mp]
  show ?thesis unfolding ex_gm_strict_def
    by (rule c [THEN conjunct2, THEN conjunct1]) (rule conjI [OF ex_waiting_steps ex_taken_stuck])
qed

text \<open>C7: An internal agent always catches up, in the same sense, for every snapshot whose communities
  can be parsed, on a host that in addition refuses addresses for missing VRFs. Wherever a run ends,
  its BGP sessions are with exactly the gateways of \<open>snap\<close>, its policies have the names of exactly the
  overlays with a community, and the advertised prefixes are exactly the /32 of the virtual IPs of
  the ready edges on the node, of overlays with a community; the table of an overlay holds exactly
  the learned routes whose first community of the snapshot leads to that table, its VRF has exactly
  the virtual IPs of its ready edges on the node (overlay names being distinct), and there are
  bridges for exactly the overlays and virtual IPs of ready edges on the node that have a pod
  address.\<close>

theorem internal_agent_catches_up:
  assumes live: "live_node srv nbrs pols ads rt vrfs rules addrs tables fw bridges"
    and run: "im_Run cfg srv rt fw sf b us bs evs m" "ch_open (mg_channels m)"
    and sent: "us \<noteq> []" "last us = snap" "bs \<noteq> []" "last bs = snap" and good: "parsable snap"
  defines "step \<equiv> mgr_step (int_rec rt fw) (im_bgp cfg srv)"
    and "local \<equiv> \<lambda>ov. {e \<in> set (edges_of ov). es_NodeName e = ic_NodeName cfg \<and> es_Ready e \<and> es_VirtualIP e \<noteq> []}"
    and "C \<equiv> {ov \<in> set snap. community ov \<noteq> []}"
  shows "((step ^^ n) m m' \<longrightarrow> n \<le> mg_work m) \<and>
    (step\<^sup>*\<^sup>* m m' \<and> (\<nexists>m''. step m' m'') \<longrightarrow> (let (s, f) = up_host (mg_updater m'); d = mg_bgp m' in
      n_Address ` nbrs d = {gw_NodeIP g | g ov. ov \<in> set snap \<and> g \<in> set (gateways_of ov) \<and> gw_NodeIP g \<noteq> []} \<and>
      p_Name ` pols d = (\<Union>ov \<in> C. {exportName (ov_Name ov), importName (ov_Name ov)}) \<and>
      fst ` ads d = {es_VirtualIP e @ ''/32'' | e ov. ov \<in> C \<and> e \<in> local ov} \<and>
      (\<forall>ov \<in> C. \<exists>t. vrfTableID (community ov) = Inr t \<and> tables s t =
         {vrf_route t r | p r c. learned_route p evs = Some r \<and>
            find (\<lambda>c. c \<noteq> [] \<and> c \<in> community ` set snap) (r_Communities r) = Some c \<and> vrfTableID c = Inr t}) \<and>
      (distinct (map ov_Name snap) \<longrightarrow> (\<forall>ov \<in> C. {ip. (vrfName (ov_Name ov), ip) \<in> addrs s} = es_VirtualIP ` local ov)) \<and>
      bridge_key ` bridges f = {(ov_Name ov, es_VirtualIP e) | ov e. ov \<in> set snap \<and> e \<in> local ov \<and> es_PodIP e \<noteq> []}))"
proof (intro conjI impI)
  assume "(step ^^ n) m m'"
  then show "n \<le> mg_work m" using mgr_run_bounded [of n "int_rec rt fw" "im_bgp cfg srv" m m'] unfolding step_def by simp
next
  assume "step\<^sup>*\<^sup>* m m' \<and> (\<nexists>m''. step m' m'')"
  then have "(mgr_step (int_rec rt fw) (im_bgp cfg srv))\<^sup>*\<^sup>* m m'" "\<nexists>m''. mgr_step (int_rec rt fw) (im_bgp cfg srv) m' m''"
    unfolding step_def by simp_all
  from live_node.node_run_settles [OF live run(1) [unfolded im_Run_def] run(2) sent good this]
  have i: "int_post (ic_NodeName cfg) addrs tables bridges evs snap (up_host (mg_updater m'))" and b: "im_bpost cfg nbrs pols ads snap (mg_bgp m')"
    by simp_all
  obtain s f where sf: "up_host (mg_updater m') = (s, f)" by (rule prod.exhaust)
  note i = int_post_explicit [OF i good, unfolded sf fst_conv snd_conv] and b = im_bpost_explicit [OF b]
  show "let (s, f) = up_host (mg_updater m'); d = mg_bgp m' in
      n_Address ` nbrs d = {gw_NodeIP g | g ov. ov \<in> set snap \<and> g \<in> set (gateways_of ov) \<and> gw_NodeIP g \<noteq> []} \<and>
      p_Name ` pols d = (\<Union>ov \<in> C. {exportName (ov_Name ov), importName (ov_Name ov)}) \<and>
      fst ` ads d = {es_VirtualIP e @ ''/32'' | e ov. ov \<in> C \<and> e \<in> local ov} \<and>
      (\<forall>ov \<in> C. \<exists>t. vrfTableID (community ov) = Inr t \<and> tables s t =
         {vrf_route t r | p r c. learned_route p evs = Some r \<and>
            find (\<lambda>c. c \<noteq> [] \<and> c \<in> community ` set snap) (r_Communities r) = Some c \<and> vrfTableID c = Inr t}) \<and>
      (distinct (map ov_Name snap) \<longrightarrow> (\<forall>ov \<in> C. {ip. (vrfName (ov_Name ov), ip) \<in> addrs s} = es_VirtualIP ` local ov)) \<and>
      bridge_key ` bridges f = {(ov_Name ov, es_VirtualIP e) | ov e. ov \<in> set snap \<and> e \<in> local ov \<and> es_PodIP e \<noteq> []}"
    unfolding sf Let_def prod.case
  proof (intro conjI ballI impI)
    show "fst ` ads (mg_bgp m') = {es_VirtualIP e @ ''/32'' | e ov. ov \<in> C \<and> e \<in> local ov}"
      unfolding b(3) C_def local_def by blast
    show "bridge_key ` bridges f = {(ov_Name ov, es_VirtualIP e) | ov e. ov \<in> set snap \<and> e \<in> local ov \<and> es_PodIP e \<noteq> []}"
      unfolding i(3) local_def by blast
  next
    fix ov assume "distinct (map ov_Name snap)" "ov \<in> C"
    then show "{ip. (vrfName (ov_Name ov), ip) \<in> addrs s} = es_VirtualIP ` local ov"
      using i(2) [of ov] unfolding C_def local_def by blast
  qed (use b(1,2) i(1) in \<open>simp_all add: C_def\<close>)
qed

definition ex_im_strict :: "(rt_internal, mem_host \<times> bridge list, mem_bgp) manager" where
  "ex_im_strict = ex_taken (int_rec strict_routes mem_firewall) (im_bgp ex_ic strict_bgp_server) ex_order [ex_blue]
     (mg_start (ri_new (ic_NodeName ex_ic)) (mem_host0, []) mem_bgp0)"

theorem internal_agent_catches_up_witness:
  "fst ` set (mb_ads (mg_bgp ex_im_strict)) = {es_VirtualIP e @ ''/32'' | e ov. ov \<in> {ov \<in> set [ex_blue]. community ov \<noteq> []} \<and>
     e \<in> {e \<in> set (edges_of ov). es_NodeName e = ic_NodeName ex_ic \<and> es_Ready e \<and> es_VirtualIP e \<noteq> []}}"
proof -
  let ?m = "ex_waiting [ex_blue] (mg_start (ri_new (ic_NodeName ex_ic)) (mem_host0, []) mem_bgp0)"
  have r: "im_Run ex_ic strict_bgp_server strict_routes mem_firewall (mem_host0, []) mem_bgp0 [[ex_blue]] [[ex_blue]] [] ?m"
    unfolding im_Run_def by (rule ex_waiting_reached)
  have l: "[[ex_blue]] \<noteq> []" "last [[ex_blue]] = [ex_blue]" by simp_all
  have "vrfTableID (community ex_blue) = Inr 10001" by code_simp
  then have p: "parsable [ex_blue]" by (simp add: parsable_def)
  note c = internal_agent_catches_up [OF sln.live_node_axioms r ex_open(1) l l p, THEN conjunct2, THEN mp, unfolded Let_def case_prod_beta]
  show ?thesis unfolding ex_im_strict_def
    by (rule c [THEN conjunct2, THEN conjunct2, THEN conjunct1]) (rule conjI [OF ex_waiting_steps ex_taken_stuck])
qed

end
