(* ===== verification/Op_Monad.thy ===== *)
theory Op_Monad
  imports Prelude
begin

text \<open>
  Sequencing of API calls in the operator: an operation works on the cluster state and either
  returns a value or an error, and the first error ends the caller (\<open>if err != nil { return
  err }\<close>). With two ways to reason about such code: what every outcome keeps (\<open>op_inv\<close>), and
  what a successful run must have gone through (the elimination rules).
\<close>

type_synonym ('c, 'a) op = "'c \<Rightarrow> (go_error + 'a) \<times> 'c"

definition op_ret :: "'a \<Rightarrow> ('c, 'a) op" where
  "op_ret x s = (Inr x, s)"

definition op_fail :: "go_error \<Rightarrow> ('c, 'a) op" where
  "op_fail e s = (Inl e, s)"

definition op_bind :: "('c, 'a) op \<Rightarrow> ('a \<Rightarrow> ('c, 'b) op) \<Rightarrow> ('c, 'b) op" where
  "op_bind m f s = (case m s of (Inl e, s') \<Rightarrow> (Inl e, s') | (Inr x, s') \<Rightarrow> f x s')"

text \<open>A call that only reads.\<close>

definition op_read :: "('c \<Rightarrow> go_error + 'a) \<Rightarrow> ('c, 'a) op" where
  "op_read f s = (f s, s)"

text \<open>\<open>if err != nil { return fmt.Errorf("text: %w", err) }\<close>.\<close>

definition op_wrap :: "string \<Rightarrow> ('c, 'a) op \<Rightarrow> ('c, 'a) op" where
  "op_wrap text m s = (case m s of (Inl e, s') \<Rightarrow> (Inl (Wrap text e), s') | (Inr x, s') \<Rightarrow> (Inr x, s'))"

text \<open>A call that returns only an error.\<close>

definition op_call :: "('c \<Rightarrow> go_error option \<times> 'c) \<Rightarrow> ('c, unit) op" where
  "op_call f s = (case f s of (None, s') \<Rightarrow> (Inr (), s') | (Some e, s') \<Rightarrow> (Inl e, s'))"

text \<open>\<open>for x in xs { if err := f(x); err != nil { return err } }\<close>.\<close>

fun op_each :: "('a \<Rightarrow> ('c, unit) op) \<Rightarrow> 'a list \<Rightarrow> ('c, unit) op" where
  "op_each f [] = op_ret ()"
| "op_each f (x # xs) = op_bind (f x) (\<lambda>_. op_each f xs)"

section \<open>What every outcome keeps\<close>

definition op_inv :: "('c \<Rightarrow> bool) \<Rightarrow> ('c, 'a) op \<Rightarrow> bool" where
  "op_inv I m \<longleftrightarrow> (\<forall>s. I s \<longrightarrow> I (snd (m s)))"

named_theorems op_inv_rules "invariants of composed operations"

lemma op_invI: "(\<And>s r s'. I s \<Longrightarrow> m s = (r, s') \<Longrightarrow> I s') \<Longrightarrow> op_inv I m"
  unfolding op_inv_def by (metis prod.collapse)

lemma op_invD: "op_inv I m \<Longrightarrow> I s \<Longrightarrow> m s = (r, s') \<Longrightarrow> I s'"
  unfolding op_inv_def by force

lemma op_inv_ret [op_inv_rules]: "op_inv I (op_ret x)"
  by (simp add: op_inv_def op_ret_def)

lemma op_inv_fail [op_inv_rules]: "op_inv I (op_fail e)"
  by (simp add: op_inv_def op_fail_def)

lemma op_inv_read [op_inv_rules]: "op_inv I (op_read f)"
  by (simp add: op_inv_def op_read_def)

lemma op_inv_bind [op_inv_rules]: "op_inv I m \<Longrightarrow> (\<And>x. op_inv I (f x)) \<Longrightarrow> op_inv I (op_bind m f)"
  unfolding op_inv_def op_bind_def by (auto split: prod.splits sum.splits)

lemma op_inv_wrap [op_inv_rules]: "op_inv I m \<Longrightarrow> op_inv I (op_wrap t m)"
  unfolding op_inv_def op_wrap_def by (auto split: prod.splits sum.splits)

lemma op_inv_call [op_inv_rules]: "(\<And>s r s'. I s \<Longrightarrow> f s = (r, s') \<Longrightarrow> I s') \<Longrightarrow> op_inv I (op_call f)"
  unfolding op_inv_def op_call_def by (auto split: prod.splits option.splits)

lemma op_inv_if [op_inv_rules]: "(b \<Longrightarrow> op_inv I m) \<Longrightarrow> (\<not> b \<Longrightarrow> op_inv I m') \<Longrightarrow> op_inv I (if b then m else m')"
  by simp

lemma op_inv_each: "(\<And>x. x \<in> set xs \<Longrightarrow> op_inv I (f x)) \<Longrightarrow> op_inv I (op_each f xs)"
  by (induction xs) (auto intro: op_inv_rules)

text \<open>A view of the state that no outcome changes.\<close>

definition op_frame :: "('c \<Rightarrow> 'v) \<Rightarrow> ('c, 'a) op \<Rightarrow> bool" where
  "op_frame v m \<longleftrightarrow> (\<forall>s. v (snd (m s)) = v s)"

lemma op_frameD: "op_frame v m \<Longrightarrow> m s = (r, s') \<Longrightarrow> v s' = v s"
  unfolding op_frame_def by (drule spec [of _ s]) simp

lemma op_frameI: "(\<And>x. op_inv (\<lambda>s. v s = x) m) \<Longrightarrow> op_frame v m"
  by (simp add: op_frame_def op_inv_def)

lemma op_frame_inv: "op_frame v m \<Longrightarrow> op_inv (\<lambda>s. P (v s)) m"
  by (simp add: op_frame_def op_inv_def)

lemma op_frame_pair: "op_frame f m \<Longrightarrow> op_frame g m \<Longrightarrow> op_frame (\<lambda>s. (f s, g s)) m"
  by (simp add: op_frame_def)

lemma op_frame_read: "op_frame v (op_read f)"
  by (simp add: op_frame_def op_read_def)

lemma op_frame_bind: "op_frame v m \<Longrightarrow> (\<And>x. op_frame v (f x)) \<Longrightarrow> op_frame v (op_bind m f)"
  unfolding op_frame_def op_bind_def by (simp split: prod.splits sum.splits) (metis snd_conv)

lemma op_frame_wrap: "op_frame v m \<Longrightarrow> op_frame v (op_wrap t m)"
  unfolding op_frame_def op_wrap_def by (simp split: prod.splits sum.splits) (metis snd_conv)

section \<open>Pre- and postconditions\<close>

text \<open>
  \<open>op_valid P m Q I\<close>: from a state with \<open>P\<close>, every outcome of \<open>m\<close> satisfies \<open>I\<close>, and a successful
  one satisfies \<open>Q\<close> of its value.
\<close>

definition op_valid :: "('c \<Rightarrow> bool) \<Rightarrow> ('c, 'a) op \<Rightarrow> ('a \<Rightarrow> 'c \<Rightarrow> bool) \<Rightarrow> ('c \<Rightarrow> bool) \<Rightarrow> bool" where
  "op_valid P m Q I \<longleftrightarrow> (\<forall>s r s'. P s \<longrightarrow> m s = (r, s') \<longrightarrow> I s' \<and> (\<forall>x. r = Inr x \<longrightarrow> Q x s'))"

named_theorems op_valid_rules "pre- and postconditions of composed operations"

lemma op_validI:
  assumes "\<And>s r s'. P s \<Longrightarrow> m s = (r, s') \<Longrightarrow> I s'" "\<And>s x s'. P s \<Longrightarrow> m s = (Inr x, s') \<Longrightarrow> Q x s'"
  shows "op_valid P m Q I"
  unfolding op_valid_def using assms by blast

lemma op_validD:
  assumes "op_valid P m Q I" "P s" "m s = (r, s')"
  shows "I s'" "r = Inr x \<Longrightarrow> Q x s'"
  using assms unfolding op_valid_def by blast+

lemma op_valid_bind [op_valid_rules]:
  assumes "op_valid P m Q I" "\<And>x. op_valid (Q x) (f x) R I"
  shows "op_valid P (op_bind m f) R I"
proof -
  have "I s' \<and> (\<forall>y. r = Inr y \<longrightarrow> R y s')" if "P s" "op_bind m f s = (r, s')" for s r s'
  proof (cases "m s")
    case (Pair a s1)
    then show ?thesis
      using that op_validD [OF assms(1) that(1) Pair] op_validD [OF assms(2)]
      by (cases a) (auto simp: op_bind_def)
  qed
  then show ?thesis unfolding op_valid_def by blast
qed

lemma op_valid_wrap [op_valid_rules]:
  assumes "op_valid P m Q I"
  shows "op_valid P (op_wrap t m) Q I"
proof -
  have "I s' \<and> (\<forall>y. r = Inr y \<longrightarrow> Q y s')" if "P s" "op_wrap t m s = (r, s')" for s r s'
  proof (cases "m s")
    case (Pair a s1)
    then show ?thesis using that op_validD [OF assms that(1) Pair] by (cases a) (auto simp: op_wrap_def)
  qed
  then show ?thesis unfolding op_valid_def by blast
qed

lemma op_valid_ret: "(\<And>s. P s \<Longrightarrow> I s \<and> Q x s) \<Longrightarrow> op_valid P (op_ret x) Q I"
  unfolding op_valid_def op_ret_def by simp

lemma op_valid_read: "(\<And>s. P s \<Longrightarrow> I s) \<Longrightarrow> (\<And>s x. P s \<Longrightarrow> f s = Inr x \<Longrightarrow> Q x s) \<Longrightarrow> op_valid P (op_read f) Q I"
  unfolding op_valid_def op_read_def by simp

lemma op_valid_conseq:
  "op_valid P m Q I \<Longrightarrow> (\<And>s. P' s \<Longrightarrow> P s) \<Longrightarrow> (\<And>x s. Q x s \<Longrightarrow> Q' x s) \<Longrightarrow> (\<And>s. I s \<Longrightarrow> I' s) \<Longrightarrow> op_valid P' m Q' I'"
  unfolding op_valid_def by blast

text \<open>A fact in the precondition that does not depend on the state.\<close>

lemma op_valid_pure: "(F \<Longrightarrow> op_valid P m Q I) \<Longrightarrow> op_valid (\<lambda>s. P s \<and> F) m Q I"
  unfolding op_valid_def by blast

text \<open>An operation that does not change what the precondition reads.\<close>

lemma op_valid_frame:
  assumes "op_frame v m" "\<And>s. P (v s) \<Longrightarrow> I s"
  shows "op_valid (\<lambda>s. P (v s)) m (\<lambda>_ s. P (v s)) I"
proof (rule op_validI)
  show "P (v s')" if "P (v s)" "m s = (Inr x, s')" for s x s'
    using that op_frameD [OF assms(1) that(2)] by simp
  show "I s'" if "P (v s)" "m s = (r, s')" for s r s'
    using that op_frameD [OF assms(1) that(2)] by (intro assms(2)) simp
qed

section \<open>Successful runs\<close>

lemma op_bindE:
  assumes "op_bind m f s = (Inr y, s')"
  obtains x s1 where "m s = (Inr x, s1)" "f x s1 = (Inr y, s')"
  using assms by (auto simp: op_bind_def split: prod.splits sum.splits)

lemma op_readE:
  assumes "op_read f s = (Inr x, s')"
  obtains "f s = Inr x" "s' = s"
  using assms that unfolding op_read_def prod.inject by blast

lemma op_retE:
  assumes "op_ret x s = (Inr y, s')"
  obtains "y = x" "s' = s"
  by (rule that) (use assms in \<open>simp_all add: op_ret_def\<close>)

lemma op_wrapE:
  assumes "op_wrap t m s = (Inr x, s')"
  obtains "m s = (Inr x, s')"
  using assms by (auto simp: op_wrap_def split: prod.splits sum.splits)

lemma op_callE:
  assumes "op_call f s = (Inr u, s')"
  obtains "f s = (None, s')"
  using assms by (auto simp: op_call_def split: prod.splits option.splits)

lemmas op_elims = op_bindE op_readE op_retE op_wrapE op_callE

text \<open>A loop that ran through: what the step for one element establishes and the later steps keep
  holds at the end.\<close>

lemma op_each_done:
  assumes "op_each f xs s = (Inr u, s')" "x \<in> set xs"
    and "\<And>s s1 u. f x s = (Inr u, s1) \<Longrightarrow> Q s1"
    and "\<And>y. y \<in> set xs \<Longrightarrow> op_inv Q (f y)"
  shows "Q s'"
  using assms
proof (induction xs arbitrary: s)
  case (Cons z zs)
  obtain s1 where 1: "f z s = (Inr (), s1)" "op_each f zs s1 = (Inr u, s')"
    using Cons.prems(1) by (auto elim: op_bindE)
  show ?case
  proof (cases "x \<in> set zs")
    case True
    then show ?thesis using Cons.IH [OF 1(2)] Cons.prems by simp
  next
    case False
    then have "Q s1" using Cons.prems(2,3) 1(1) by auto
    moreover have "op_inv Q (op_each f zs)" by (rule op_inv_each) (use Cons.prems(4) in simp)
    ultimately show ?thesis using op_invD [of Q "op_each f zs" s1 "Inr u" s'] 1(2) by blast
  qed
qed simp

end
