(* ===== verification/K8s.thy ===== *)
theory K8s
  imports Api_Types Op_Monad Go_Strings "HOL-Library.List_Lexorder" "HOL-Library.Char_ord"
begin

text \<open>
  The Kubernetes API as the operator uses it: the fields of nodes, pods and deployments it reads
  or writes, the client as a record of operations on a cluster state, and the contract of that
  client. The client is code of another project: the contract states documented behaviour of
  the API server and of controller-runtime (reads return what is stored, a merge patch changes
  the fields that differ from its base, \<open>CreateOrUpdate\<close> applies the mutation to the stored or to
  a fresh object), for outcomes with and without an error.
\<close>

type_synonym label_map = "(string, string) gomap"

text \<open>\<open>labels[key]\<close>: the zero value where the key is missing.\<close>

definition label :: "label_map \<Rightarrow> string \<Rightarrow> string" where
  "label m k = (case gm_get m k of None \<Rightarrow> [] | Some v \<Rightarrow> v)"

datatype addr_type = NodeInternalIP | NodeExternalIP | NodeOtherAddr string

record node =
  nd_Name :: string
  nd_Labels :: label_map
  nd_Addresses :: "(addr_type \<times> string) list"

record pod =
  pd_Name :: string
  pd_Phase :: string
  pd_Deleting :: bool
  pd_NodeName :: string
  pd_PodIP :: string

record requirement =
  rq_Key :: string
  rq_Operator :: string
  rq_Values :: "string list"

text \<open>The required node affinity: its selector terms, each a list of match expressions.\<close>

type_synonym affinity = "requirement list list"

record volume =
  vl_Name :: string
  vl_SecretName :: string

record volume_mount =
  mt_Name :: string
  mt_MountPath :: string
  mt_SubPath :: string
  mt_ReadOnly :: bool

record container =
  ct_Name :: string
  ct_Image :: string
  ct_Args :: "string list"
  ct_Env :: "(string \<times> string) list"
  ct_AddCapabilities :: "string list"
  ct_VolumeMounts :: "volume_mount list"

record deployment =
  dp_Name :: string
  dp_Namespace :: string
  dp_Labels :: label_map
  dp_Replicas :: "int option"
  dp_Selector :: "label_map option"
  dp_TemplateLabels :: label_map
  dp_HostNetwork :: bool
  dp_Affinity :: "affinity option"
  dp_Volumes :: "volume list"
  dp_Containers :: "container list"

definition new_deployment :: "string \<Rightarrow> string \<Rightarrow> deployment" where
  "new_deployment ns name = \<lparr>dp_Name = name, dp_Namespace = ns, dp_Labels = gm_empty, dp_Replicas = None,
     dp_Selector = None, dp_TemplateLabels = gm_empty, dp_HostNetwork = False, dp_Affinity = None,
     dp_Volumes = [], dp_Containers = []\<rparr>"

section \<open>The client\<close>

text \<open>
  \<open>'c\<close> is the cluster, \<open>'l\<close> a parsed label selector. A patch gets the object with its changes and
  the base, and returns the object as stored.
\<close>

record ('c, 'l) kclient =
  GetOverlay :: "string \<Rightarrow> 'c \<Rightarrow> go_error + overlay"
  ListOverlays :: "'c \<Rightarrow> go_error + overlay list"
  PatchOverlay :: "overlay \<Rightarrow> overlay \<Rightarrow> ('c, overlay) op"
  PatchStatus :: "overlay \<Rightarrow> overlay \<Rightarrow> ('c, overlay) op"
  GetNode :: "string \<Rightarrow> 'c \<Rightarrow> go_error + node"
  ListNodes :: "string \<Rightarrow> 'c \<Rightarrow> go_error + node list"
  ParseSelector :: "string \<Rightarrow> go_error + 'l"
  ListPods :: "string \<Rightarrow> 'l \<Rightarrow> 'c \<Rightarrow> go_error + pod list"
  ListDeployments :: "string \<Rightarrow> string \<times> string \<Rightarrow> 'c \<Rightarrow> go_error + deployment list"
  DeleteDeployment :: "deployment \<Rightarrow> 'c \<Rightarrow> go_error option \<times> 'c"
  CreateOrUpdate :: "string \<Rightarrow> string \<Rightarrow> (deployment \<Rightarrow> deployment) \<Rightarrow> 'c \<Rightarrow> go_error option \<times> 'c"
  ContainsFinalizer :: "overlay \<Rightarrow> string \<Rightarrow> bool"
  AddFinalizer :: "overlay \<Rightarrow> string \<Rightarrow> overlay"
  RemoveFinalizer :: "overlay \<Rightarrow> string \<Rightarrow> overlay"

text \<open>\<open>client.IgnoreNotFound(err)\<close>.\<close>

fun IgnoreNotFound :: "go_error option \<Rightarrow> go_error option" where
  "IgnoreNotFound (Some (NotFound x)) = None"
| "IgnoreNotFound e = e"

text \<open>An empty slice is left out of the JSON of a status, and reads back as nil.\<close>

definition omitempty :: "'a list option \<Rightarrow> 'a list option" where
  "omitempty sl = (if sl = Some [] then None else sl)"

lemma elems_omitempty [simp]: "elems (omitempty sl) = elems sl"
  by (cases sl) (auto simp: omitempty_def)

text \<open>
  One field under a JSON merge patch: it is set where the object to be stored differs from the
  base, and kept otherwise.
\<close>

definition merged :: "'a \<Rightarrow> 'a \<Rightarrow> 'a \<Rightarrow> 'a" where
  "merged base new stored = (if new \<noteq> base then new else stored)"

lemma merged_same [simp]: "merged x new x = new" "merged base base stored = stored"
  by (simp_all add: merged_def)

lemma merged_elems: "sl = merged (omitempty base) (omitempty (Some xs)) base \<Longrightarrow> elems sl = xs"
  by (metis elems_omitempty elems_simps(2) merged_def)

definition status_patched :: "overlay \<Rightarrow> overlay \<Rightarrow> overlay \<Rightarrow> overlay \<Rightarrow> bool" where
  "status_patched base new stored ov \<longleftrightarrow>
     ov_Name ov = ov_Name stored \<and> ov_Finalizers ov = ov_Finalizers stored \<and> ov_Spec ov = ov_Spec stored \<and>
     ov_Deleting ov = ov_Deleting stored \<and>
     community ov = merged (community base) (community new) (community stored) \<and>
     st_PublicKey (ov_Status ov) = merged (st_PublicKey (ov_Status base)) (st_PublicKey (ov_Status new)) (st_PublicKey (ov_Status stored)) \<and>
     st_Gateways (ov_Status ov) = merged (omitempty (st_Gateways (ov_Status base)))
       (omitempty (st_Gateways (ov_Status new))) (st_Gateways (ov_Status stored)) \<and>
     st_Edges (ov_Status ov) = merged (omitempty (st_Edges (ov_Status base)))
       (omitempty (st_Edges (ov_Status new))) (st_Edges (ov_Status stored)) \<and>
     (st_WGSecretRef (ov_Status stored) = st_WGSecretRef (ov_Status base) \<longrightarrow>
        st_WGSecretRef (ov_Status ov) = st_WGSecretRef (ov_Status new)) \<and>
     (st_WGSecretRef (ov_Status new) = st_WGSecretRef (ov_Status base) \<longrightarrow>
        st_WGSecretRef (ov_Status ov) = st_WGSecretRef (ov_Status stored))"

definition object_patched :: "overlay \<Rightarrow> overlay \<Rightarrow> overlay \<Rightarrow> overlay \<Rightarrow> bool" where
  "object_patched base new stored ov \<longleftrightarrow>
     ov_Name ov = ov_Name stored \<and> ov_Spec ov = ov_Spec stored \<and> ov_Status ov = ov_Status stored \<and>
     ov_Deleting ov = ov_Deleting stored \<and>
     ov_Finalizers ov = merged (ov_Finalizers base) (ov_Finalizers new) (ov_Finalizers stored)"

section \<open>The contract of the client\<close>

text \<open>What the operator only reads: nodes and pods.\<close>

definition world :: "('c, 'l) kclient \<Rightarrow> 'c \<Rightarrow>
    (string \<Rightarrow> go_error + node list) \<times> (string \<Rightarrow> go_error + node) \<times> (string \<Rightarrow> 'l \<Rightarrow> go_error + pod list)" where
  "world k s = ((\<lambda>l. ListNodes k l s), (\<lambda>n. GetNode k n s), (\<lambda>ns sel. ListPods k ns sel s))"

locale cluster_contract =
  fixes k :: "('c, 'l) kclient"
    and ovs :: "'c \<Rightarrow> string \<Rightarrow> overlay option"
    and dps :: "'c \<Rightarrow> string \<times> string \<Rightarrow> deployment option"
  assumes ovs_name: "ovs s n = Some ov \<Longrightarrow> ov_Name ov = n"
    and dps_key: "dps s (ns, n) = Some d \<Longrightarrow> dp_Namespace d = ns \<and> dp_Name d = n"
    and get_overlay: "GetOverlay k n s = Inr ov \<Longrightarrow> ovs s n = Some ov"
    and list_overlays: "ListOverlays k s = Inr os \<Longrightarrow> set os = ran (ovs s)"
    and patch_status: "PatchStatus k base new s = (r, s') \<Longrightarrow>
      (\<exists>e. r = Inl e) \<and> ovs s' = ovs s \<or>
      (\<exists>st ov. ovs s (ov_Name new) = Some st \<and> status_patched base new st ov \<and>
         ovs s' = (ovs s)(ov_Name new \<mapsto> ov) \<and> (\<forall>x. r = Inr x \<longrightarrow> x = ov))"
    and patch_object: "PatchOverlay k base new s = (r, s') \<Longrightarrow>
      (\<exists>e. r = Inl e) \<and> ovs s' = ovs s \<or>
      (\<exists>st ov. ovs s (ov_Name new) = Some st \<and> object_patched base new st ov \<and>
         ovs s' = (ovs s)(ov_Name new := (if ov_Deleting ov \<and> ov_Finalizers ov = [] then None else Some ov)) \<and>
         (\<forall>x. r = Inr x \<longrightarrow> x = ov))"
    and patch_frame: "dps (snd (PatchStatus k base new s)) = dps s" "dps (snd (PatchOverlay k base new s)) = dps s"
    and list_deployments: "ListDeployments k ns (key, val) s = Inr ds \<Longrightarrow>
      set ds = {d. \<exists>n. dps s (ns, n) = Some d \<and> gm_get (dp_Labels d) key = Some val}"
    and delete: "DeleteDeployment k d s = (res, s') \<Longrightarrow>
      (dps s' = dps s \<or> dps s' = (dps s)((dp_Namespace d, dp_Name d) := None)) \<and>
      (IgnoreNotFound res = None \<longrightarrow> dps s' (dp_Namespace d, dp_Name d) = None)"
    and create: "CreateOrUpdate k ns n f s = (res, s') \<Longrightarrow>
      res \<noteq> None \<and> dps s' = dps s \<or>
      dps s' = (dps s)((ns, n) \<mapsto> f (case dps s (ns, n) of None \<Rightarrow> new_deployment ns n | Some d \<Rightarrow> d))"
    and deploy_frame: "ovs (snd (DeleteDeployment k d s)) = ovs s" "ovs (snd (CreateOrUpdate k ns n f s)) = ovs s"
    and world_frame: "world k (snd (PatchStatus k base new s)) = world k s" "world k (snd (PatchOverlay k base new s)) = world k s"
      "world k (snd (DeleteDeployment k d s)) = world k s" "world k (snd (CreateOrUpdate k ns n f s)) = world k s"
    and contains_finalizer: "ContainsFinalizer k ov fin \<longleftrightarrow> fin \<in> set (ov_Finalizers ov)"
    and add_finalizer: "\<exists>fs. AddFinalizer k ov fin = ov\<lparr>ov_Finalizers := fs\<rparr> \<and> set fs = insert fin (set (ov_Finalizers ov))"
    and remove_finalizer: "\<exists>fs. RemoveFinalizer k ov fin = ov\<lparr>ov_Finalizers := fs\<rparr> \<and> set fs = set (ov_Finalizers ov) - {fin}"

section \<open>A cluster in memory\<close>

text \<open>Tables of objects under a key: the first entry of a key counts.\<close>

definition tbl_get :: "('v \<Rightarrow> 'k) \<Rightarrow> 'v list \<Rightarrow> 'k \<Rightarrow> 'v option" where
  "tbl_get key xs k = find (\<lambda>x. key x = k) xs"

definition tbl_list :: "('v \<Rightarrow> 'k) \<Rightarrow> 'v list \<Rightarrow> 'v list" where
  "tbl_list key xs = List.map_filter (tbl_get key xs) (remdups (map key xs))"

definition tbl_put :: "('v \<Rightarrow> 'k) \<Rightarrow> 'v \<Rightarrow> 'v list \<Rightarrow> 'v list" where
  "tbl_put key x xs = x # filter (\<lambda>y. key y \<noteq> key x) xs"

definition tbl_del :: "('v \<Rightarrow> 'k) \<Rightarrow> 'k \<Rightarrow> 'v list \<Rightarrow> 'v list" where
  "tbl_del key k xs = filter (\<lambda>y. key y \<noteq> k) xs"

lemma tbl_get_key: "tbl_get key xs k = Some x \<Longrightarrow> key x = k"
  by (auto simp: tbl_get_def find_Some_iff)

lemma tbl_get_del: "tbl_get key (tbl_del key k xs) = (tbl_get key xs)(k := None)"
proof
  fix j show "tbl_get key (tbl_del key k xs) j = ((tbl_get key xs)(k := None)) j"
    by (induction xs) (auto simp: tbl_get_def tbl_del_def)
qed

lemma tbl_get_put: "tbl_get key (tbl_put key x xs) = (tbl_get key xs)(key x \<mapsto> x)"
  using tbl_get_del [of key "key x" xs]
  by (auto simp: fun_eq_iff tbl_put_def tbl_del_def tbl_get_def)

lemma set_tbl_list: "set (tbl_list key xs) = ran (tbl_get key xs)"
proof -
  have "tbl_get key xs k = Some x \<Longrightarrow> k \<in> key ` set xs" for k x
    by (auto simp: tbl_get_def find_Some_iff)
  then show ?thesis by (force simp: tbl_list_def ran_def List.map_filter_def image_iff)
qed

record mem_cluster =
  mc_overlays :: "overlay list"
  mc_nodes :: "node list"
  mc_pods :: "(string \<times> label_map \<times> pod) list"
  mc_deployments :: "deployment list"

definition dp_key :: "deployment \<Rightarrow> string \<times> string" where
  "dp_key d = (dp_Namespace d, dp_Name d)"

definition mem_merge_status :: "overlay \<Rightarrow> overlay \<Rightarrow> overlay \<Rightarrow> overlay" where
  "mem_merge_status base new st = st\<lparr>ov_Status := \<lparr>
     st_Community = merged (community base) (community new) (community st),
     st_PublicKey = merged (st_PublicKey (ov_Status base)) (st_PublicKey (ov_Status new)) (st_PublicKey (ov_Status st)),
     st_WGSecretRef = merged (st_WGSecretRef (ov_Status base)) (st_WGSecretRef (ov_Status new)) (st_WGSecretRef (ov_Status st)),
     st_Gateways = merged (omitempty (st_Gateways (ov_Status base))) (omitempty (st_Gateways (ov_Status new))) (st_Gateways (ov_Status st)),
     st_Edges = merged (omitempty (st_Edges (ov_Status base))) (omitempty (st_Edges (ov_Status new))) (st_Edges (ov_Status st))\<rparr>\<rparr>"

definition mem_merge_object :: "overlay \<Rightarrow> overlay \<Rightarrow> overlay \<Rightarrow> overlay" where
  "mem_merge_object base new st =
     st\<lparr>ov_Finalizers := merged (ov_Finalizers base) (ov_Finalizers new) (ov_Finalizers st)\<rparr>"

definition mem_store :: "overlay \<Rightarrow> mem_cluster \<Rightarrow> (go_error + overlay) \<times> mem_cluster" where
  "mem_store ov s = (Inr ov, s\<lparr>mc_overlays :=
     (if ov_Deleting ov \<and> ov_Finalizers ov = [] then tbl_del ov_Name (ov_Name ov) (mc_overlays s)
      else tbl_put ov_Name ov (mc_overlays s))\<rparr>)"

definition mem_not_found :: "'a option \<Rightarrow> string \<Rightarrow> go_error + 'a" where
  "mem_not_found r n = (case r of None \<Rightarrow> Inl (NotFound n) | Some x \<Rightarrow> Inr x)"

definition errMutate :: go_error where
  "errMutate = Errs ''MutateFn cannot mutate object name and/or object namespace''"

definition errSelector :: go_error where
  "errSelector = Errs ''unable to parse requirement''"

text \<open>Selectors here are one \<open>key=value\<close> pair.\<close>

definition mem_client :: "(mem_cluster, string \<times> string) kclient" where
  "mem_client = \<lparr>
     GetOverlay = (\<lambda>n s. mem_not_found (tbl_get ov_Name (mc_overlays s) n) n),
     ListOverlays = (\<lambda>s. Inr (tbl_list ov_Name (mc_overlays s))),
     PatchOverlay = (\<lambda>base new s. case tbl_get ov_Name (mc_overlays s) (ov_Name new) of
        None \<Rightarrow> (Inl (NotFound (ov_Name new)), s)
      | Some st \<Rightarrow> mem_store (mem_merge_object base new st) s),
     PatchStatus = (\<lambda>base new s. case tbl_get ov_Name (mc_overlays s) (ov_Name new) of
        None \<Rightarrow> (Inl (NotFound (ov_Name new)), s)
      | Some st \<Rightarrow> (Inr (mem_merge_status base new st),
          s\<lparr>mc_overlays := tbl_put ov_Name (mem_merge_status base new st) (mc_overlays s)\<rparr>)),
     GetNode = (\<lambda>n s. mem_not_found (tbl_get nd_Name (mc_nodes s) n) n),
     ListNodes = (\<lambda>l s. Inr (filter (\<lambda>nd. gm_has (nd_Labels nd) l) (tbl_list nd_Name (mc_nodes s)))),
     ParseSelector = (\<lambda>sel. case SplitN2 CHR ''='' sel of [a, b] \<Rightarrow> Inr (a, b) | _ \<Rightarrow> Inl errSelector),
     ListPods = (\<lambda>ns sel s. Inr (map (snd \<circ> snd)
        (filter (\<lambda>(pns, ls, p). pns = ns \<and> gm_get ls (fst sel) = Some (snd sel)) (mc_pods s)))),
     ListDeployments = (\<lambda>ns (a, b) s. Inr (filter (\<lambda>d. dp_Namespace d = ns \<and> gm_get (dp_Labels d) a = Some b)
        (tbl_list dp_key (mc_deployments s)))),
     DeleteDeployment = (\<lambda>d s. (None, s\<lparr>mc_deployments := tbl_del dp_key (dp_key d) (mc_deployments s)\<rparr>)),
     CreateOrUpdate = (\<lambda>ns n f s.
        let d = f (case tbl_get dp_key (mc_deployments s) (ns, n) of None \<Rightarrow> new_deployment ns n | Some d \<Rightarrow> d)
        in if dp_key d \<noteq> (ns, n) then (Some errMutate, s)
           else (None, s\<lparr>mc_deployments := tbl_put dp_key d (mc_deployments s)\<rparr>)),
     ContainsFinalizer = (\<lambda>ov fin. fin \<in> set (ov_Finalizers ov)),
     AddFinalizer = (\<lambda>ov fin. if fin \<in> set (ov_Finalizers ov) then ov else ov\<lparr>ov_Finalizers := ov_Finalizers ov @ [fin]\<rparr>),
     RemoveFinalizer = (\<lambda>ov fin. ov\<lparr>ov_Finalizers := filter (\<lambda>f. f \<noteq> fin) (ov_Finalizers ov)\<rparr>)\<rparr>"

lemma mem_patched:
  "status_patched base new st (mem_merge_status base new st)" "object_patched base new st (mem_merge_object base new st)"
  by (auto simp: status_patched_def object_patched_def mem_merge_status_def mem_merge_object_def)

lemma mem_merge_name [simp]:
  "ov_Name (mem_merge_status base new st) = ov_Name st" "ov_Name (mem_merge_object base new st) = ov_Name st"
  by (simp_all add: mem_merge_status_def mem_merge_object_def)

interpretation memk: cluster_contract mem_client "\<lambda>s. tbl_get ov_Name (mc_overlays s)" "\<lambda>s. tbl_get dp_key (mc_deployments s)"
proof (unfold_locales, goal_cases)
  case (5 base new s r s')
  show ?case
  proof (cases "tbl_get ov_Name (mc_overlays s) (ov_Name new)")
    case None
    then show ?thesis using 5 by (auto simp: mem_client_def)
  next
    case (Some st)
    let ?ov = "mem_merge_status base new st"
    have n: "ov_Name ?ov = ov_Name new" using tbl_get_key [OF Some] by simp
    have "r = Inr ?ov" "mc_overlays s' = tbl_put ov_Name ?ov (mc_overlays s)" using 5 Some by (auto simp: mem_client_def)
    then show ?thesis using Some mem_patched(1) [of base new st] n by (auto simp: tbl_get_put)
  qed
next
  case (6 base new s r s')
  show ?case
  proof (cases "tbl_get ov_Name (mc_overlays s) (ov_Name new)")
    case None
    then show ?thesis using 6 by (auto simp: mem_client_def)
  next
    case (Some st)
    let ?ov = "mem_merge_object base new st"
    have n: "ov_Name ?ov = ov_Name new" using tbl_get_key [OF Some] by simp
    have "r = Inr ?ov" "mc_overlays s' = (if ov_Deleting ?ov \<and> ov_Finalizers ?ov = [] then tbl_del ov_Name (ov_Name ?ov) (mc_overlays s)
        else tbl_put ov_Name ?ov (mc_overlays s))" using 6 Some by (auto simp: mem_client_def mem_store_def)
    then show ?thesis using Some mem_patched(2) [of base new st] n by (auto simp: tbl_get_put tbl_get_del)
  qed
next
  case (1 s n ov)
  then show ?case by (rule tbl_get_key)
next
  case (2 s ns n d)
  from tbl_get_key [OF this] show ?case by (simp add: dp_key_def)
next
  case (3 n s ov)
  then show ?case by (simp add: mem_client_def mem_not_found_def split: option.splits)
next
  case (4 s os)
  then show ?case by (auto simp: mem_client_def set_tbl_list)
next
  case (7 base new s)
  show ?case by (simp add: mem_client_def split: option.splits)
next
  case (8 base new s)
  show ?case by (simp add: mem_client_def mem_store_def split: option.splits)
next
  case (9 ns key val s ds)
  then have "set ds = {d \<in> ran (tbl_get dp_key (mc_deployments s)). dp_Namespace d = ns \<and> gm_get (dp_Labels d) key = Some val}"
    by (auto simp: mem_client_def set_tbl_list)
  moreover have "(\<exists>n. tbl_get dp_key (mc_deployments s) (ns, n) = Some d) \<longleftrightarrow>
      d \<in> ran (tbl_get dp_key (mc_deployments s)) \<and> dp_Namespace d = ns" for d
    using tbl_get_key [of dp_key "mc_deployments s"] by (fastforce simp: ran_def dp_key_def)
  ultimately show ?case by auto
next
  case (10 d s res s')
  then have "mc_deployments s' = tbl_del dp_key (dp_key d) (mc_deployments s)" by (auto simp: mem_client_def)
  then show ?case by (simp add: tbl_get_del dp_key_def)
next
  case (11 ns n f s res s')
  let ?d = "f (case tbl_get dp_key (mc_deployments s) (ns, n) of None \<Rightarrow> new_deployment ns n | Some d \<Rightarrow> d)"
  show ?case
  proof (cases "dp_key ?d = (ns, n)")
    case True
    then have "mc_deployments s' = tbl_put dp_key ?d (mc_deployments s)" using 11 by (auto simp: mem_client_def Let_def)
    then show ?thesis using True by (simp add: tbl_get_put)
  next
    case False
    then show ?thesis using 11 by (auto simp: mem_client_def Let_def)
  qed
next
  case (12 d s)
  show ?case by (simp add: mem_client_def)
next
  case (13 ns n f s)
  show ?case by (simp add: mem_client_def Let_def)
next
  case (14 base new s)
  show ?case by (simp add: world_def mem_client_def split: option.splits)
next
  case (15 base new s)
  show ?case by (simp add: world_def mem_client_def mem_store_def split: option.splits)
next
  case (16 d s)
  show ?case by (simp add: world_def mem_client_def)
next
  case (17 ns n f s)
  show ?case by (simp add: world_def mem_client_def Let_def)
next
  case (18 ov fin)
  show ?case by (simp add: mem_client_def)
next
  case (19 ov fin)
  show ?case
  proof (cases "fin \<in> set (ov_Finalizers ov)")
    case True
    then show ?thesis by (intro exI [of _ "ov_Finalizers ov"]) (auto simp: mem_client_def)
  next
    case False
    then show ?thesis by (intro exI [of _ "ov_Finalizers ov @ [fin]"]) (auto simp: mem_client_def)
  qed
next
  case (20 ov fin)
  show ?case by (intro exI [of _ "filter (\<lambda>f. f \<noteq> fin) (ov_Finalizers ov)"]) (auto simp: mem_client_def)
qed

end
