(* ===== verification/Operator_Agents.thy ===== *)
theory Operator_Agents
  imports K8s Example
begin

text \<open>
  The operator's agent deployments (\<open>operator/internal/agent\<close>): the two gateway deployments, one
  per role, and one deployment per internal node that hosts a ready edge.
\<close>

section \<open>Gateway deployments\<close>

definition nodeNameAffinity :: "string \<Rightarrow> affinity" where
  "nodeNameAffinity nodeName =
     [[\<lparr>rq_Key = ''kubernetes.io/hostname'', rq_Operator = ''In'', rq_Values = [nodeName]\<rparr>]]"

definition wgVolume :: "overlay \<Rightarrow> secret_ref \<Rightarrow> volume" where
  "wgVolume o1 ref = \<lparr>vl_Name = ''wg-'' @ ov_Name o1, vl_SecretName = ref_Name ref\<rparr>"

definition wgMount :: "overlay \<Rightarrow> volume_mount" where
  "wgMount o1 = \<lparr>mt_Name = ''wg-'' @ ov_Name o1, mt_MountPath = ''/etc/pontifex/wg/'' @ ov_Name o1 @ ''/private'',
     mt_SubPath = ''private'', mt_ReadOnly = True\<rparr>"

definition buildWGVolumes :: "overlay list \<Rightarrow> volume list \<times> volume_mount list" where
  "buildWGVolumes overlays =
     fold (\<lambda>o1 (volumes, mounts).
       case st_WGSecretRef (ov_Status o1) of
         None \<Rightarrow> (volumes, mounts)
       | Some ref \<Rightarrow> (volumes @ [wgVolume o1 ref], mounts @ [wgMount o1])) overlays ([], [])"

definition nameKey :: string where "nameKey = ''app.kubernetes.io/name''"
definition componentKey :: string where "componentKey = ''app.kubernetes.io/component''"
definition roleKey :: string where "roleKey = ''pontifex.io/role''"
definition nodeKey :: string where "nodeKey = ''pontifex.io/node''"
definition internalComponent :: string where "internalComponent = ''pontifex-internal''"

definition gatewayLabels :: "string \<Rightarrow> label_map" where
  "gatewayLabels role = [(nameKey, ''pontifex-agent''), (componentKey, ''gateway''), (roleKey, role)]"

definition agentCapabilities :: "string list" where
  "agentCapabilities = [''NET_ADMIN'', ''NET_RAW'', ''SYS_ADMIN'']"

definition gatewayMutate :: "string \<Rightarrow> overlay list \<Rightarrow> string \<Rightarrow> node list \<Rightarrow> deployment \<Rightarrow> deployment" where
  "gatewayMutate agentImage overlays role nodes depl =
     (let isSecondary = (role = ''secondary'');
          (volumes, mounts) = buildWGVolumes overlays
      in depl\<lparr>dp_Labels := gatewayLabels role,
           dp_Replicas := Some (if nodes \<noteq> [] then 1 else 0),
           dp_Selector := (case dp_Selector depl of None \<Rightarrow> Some (gatewayLabels role) | Some sel \<Rightarrow> Some sel),
           dp_TemplateLabels := gatewayLabels role,
           dp_HostNetwork := True,
           dp_Affinity := (case nodes of [] \<Rightarrow> None
             | n # _ \<Rightarrow> if nd_Name n \<noteq> [] then Some (nodeNameAffinity (nd_Name n)) else None),
           dp_Volumes := volumes,
           dp_Containers := [\<lparr>ct_Name = ''agent'', ct_Image = agentImage, ct_Args = [''--mode=gateway''],
             ct_Env = [(''IS_SECONDARY'', if isSecondary then ''true'' else ''false'')],
             ct_AddCapabilities = agentCapabilities, ct_VolumeMounts = mounts\<rparr>]\<rparr>)"

definition groupByRole :: "string \<Rightarrow> node list \<Rightarrow> (string, node list) gomap" where
  "groupByRole gatewayLabel nodes =
     fold (\<lambda>n byRole. let role = label (nd_Labels n) gatewayLabel
                       in gm_put role ((case gm_get byRole role of None \<Rightarrow> [] | Some ns \<Rightarrow> ns) @ [n]) byRole) nodes gm_empty"

definition nodesOfRole :: "string \<Rightarrow> node list \<Rightarrow> string \<Rightarrow> node list" where
  "nodesOfRole gatewayLabel nodes role =
     (case gm_get (map_vals (sort_key nd_Name) (groupByRole gatewayLabel nodes)) role of None \<Rightarrow> [] | Some ns \<Rightarrow> ns)"

definition gatewayDeplName :: "string \<Rightarrow> string" where
  "gatewayDeplName role = ''pontifex-gateway-'' @ role"

definition EnsureGatewayDeployments ::
  "('c, 'l) kclient \<Rightarrow> string \<Rightarrow> string \<Rightarrow> string \<Rightarrow> overlay list \<Rightarrow> ('c, unit) op" where
  "EnsureGatewayDeployments k namespace agentImage gatewayLabel overlays =
     op_bind (op_read (ListNodes k gatewayLabel)) (\<lambda>items.
     op_each (\<lambda>role.
         op_wrap (fmt_s ''create/update gateway deployment '' (gatewayDeplName role))
           (op_call (CreateOrUpdate k namespace (gatewayDeplName role)
             (gatewayMutate agentImage overlays role (nodesOfRole gatewayLabel items role)))))
       [''primary'', ''secondary''])"

section \<open>Internal deployments\<close>

definition nodeSet :: "node list \<Rightarrow> (string, unit) gomap" where
  "nodeSet nodes = go_index nd_Name nodes"

definition targetNodes :: "(string, unit) gomap \<Rightarrow> overlay list \<Rightarrow> (string, unit) gomap" where
  "targetNodes gatewaySet overlays =
     fold (\<lambda>o1 targets. fold (\<lambda>e targets.
         if es_Ready e \<and> es_NodeName e \<noteq> [] \<and> \<not> gm_has gatewaySet (es_NodeName e)
         then gm_put (es_NodeName e) () targets else targets) (edges_of o1) targets)
       overlays gm_empty"

definition internalLabels :: "string \<Rightarrow> label_map" where
  "internalLabels nodeName = [(nameKey, ''pontifex-agent''), (componentKey, internalComponent), (nodeKey, nodeName)]"

definition internalDeplName :: "string \<Rightarrow> string" where
  "internalDeplName nodeName = ''pontifex-internal-'' @ nodeName"

definition internalMutate :: "string \<Rightarrow> string \<Rightarrow> deployment \<Rightarrow> deployment" where
  "internalMutate agentImage nodeName depl =
     depl\<lparr>dp_Labels := internalLabels nodeName,
       dp_Replicas := Some 1,
       dp_Selector := (case dp_Selector depl of None \<Rightarrow> Some (internalLabels nodeName) | Some sel \<Rightarrow> Some sel),
       dp_TemplateLabels := internalLabels nodeName,
       dp_HostNetwork := True,
       dp_Affinity := Some (nodeNameAffinity nodeName),
       dp_Containers := [\<lparr>ct_Name = ''agent'', ct_Image = agentImage, ct_Args = [''--mode=internal''],
         ct_Env = [], ct_AddCapabilities = agentCapabilities, ct_VolumeMounts = []\<rparr>]\<rparr>"

definition deleteStale :: "('c, 'l) kclient \<Rightarrow> (string, unit) gomap \<Rightarrow> deployment \<Rightarrow> ('c, unit) op" where
  "deleteStale k targets d =
     (if gm_has targets (label (dp_Labels d) nodeKey) then op_ret ()
      else op_wrap (fmt_s ''delete internal deployment '' (dp_Name d))
        (op_call (\<lambda>s. case DeleteDeployment k d s of (r, s') \<Rightarrow> (IgnoreNotFound r, s'))))"

definition ensureInternal :: "('c, 'l) kclient \<Rightarrow> string \<Rightarrow> string \<Rightarrow> string \<Rightarrow> ('c, unit) op" where
  "ensureInternal k namespace agentImage nodeName =
     op_wrap (fmt_s ''create/update internal deployment '' (internalDeplName nodeName))
       (op_call (CreateOrUpdate k namespace (internalDeplName nodeName) (internalMutate agentImage nodeName)))"

definition EnsureInternalDeployments ::
  "nat list \<Rightarrow> ('c, 'l) kclient \<Rightarrow> string \<Rightarrow> string \<Rightarrow> string \<Rightarrow> overlay list \<Rightarrow> ('c, unit) op" where
  "EnsureInternalDeployments ns k namespace agentImage gatewayLabel overlays =
     op_bind (op_read (ListNodes k gatewayLabel)) (\<lambda>gatewayNodes.
     let targets = targetNodes (nodeSet gatewayNodes) overlays
     in op_bind (op_read (ListDeployments k namespace (componentKey, internalComponent))) (\<lambda>items.
        op_bind (op_each (deleteStale k targets) items) (\<lambda>_.
        op_each (ensureInternal k namespace agentImage) (map fst (gm_range ns targets)))))"

section \<open>The wanted deployments\<close>

lemma groupByRole_get:
  "(case gm_get (groupByRole gl nodes) role of None \<Rightarrow> [] | Some ns \<Rightarrow> ns) = filter (\<lambda>n. label (nd_Labels n) gl = role) nodes"
proof -
  have "gm_wf m \<Longrightarrow> (case gm_get (fold (\<lambda>n byRole. let role = label (nd_Labels n) gl
      in gm_put role ((case gm_get byRole role of None \<Rightarrow> [] | Some ns \<Rightarrow> ns) @ [n]) byRole) nodes m) role of None \<Rightarrow> [] | Some ns \<Rightarrow> ns)
    = (case gm_get m role of None \<Rightarrow> [] | Some ns \<Rightarrow> ns) @ filter (\<lambda>n. label (nd_Labels n) gl = role) nodes"
    for m :: "(string, node list) gomap"
    by (induction nodes arbitrary: m) (auto simp: Let_def)
  then show ?thesis by (simp add: groupByRole_def)
qed

lemma nodesOfRole_eq: "nodesOfRole gl nodes role = sort_key nd_Name (filter (\<lambda>n. label (nd_Labels n) gl = role) nodes)"
  unfolding nodesOfRole_def groupByRole_get [symmetric] by (simp split: option.splits)

lemma hd_sort_key_Min:
  assumes "xs \<noteq> []"
  shows "f (hd (sort_key f xs)) = Min (f ` set xs)"
proof -
  have "sort_key f xs \<noteq> []" using assms by (metis set_empty set_sort)
  then obtain y ys where y: "sort_key f xs = y # ys" by (cases "sort_key f xs") auto
  have "set xs = insert y (set ys)" using set_sort [of f xs] y by simp
  moreover have "f y \<le> f z" if "z \<in> set ys" for z
    using sorted_sort_key [of f xs] that unfolding y by simp
  ultimately have "Min (f ` set xs) = f y" by (intro Min_eqI) auto
  then show ?thesis by (simp add: y)
qed

lemma buildWGVolumes_eq:
  "buildWGVolumes overlays =
     (List.map_filter (\<lambda>o1. map_option (wgVolume o1) (st_WGSecretRef (ov_Status o1))) overlays,
      map wgMount (filter (\<lambda>o1. st_WGSecretRef (ov_Status o1) \<noteq> None) overlays))"
proof -
  have "fold (\<lambda>o1 (volumes, mounts). case st_WGSecretRef (ov_Status o1) of
         None \<Rightarrow> (volumes, mounts)
       | Some ref \<Rightarrow> (volumes @ [wgVolume o1 ref], mounts @ [wgMount o1])) overlays (vs, ms)
     = (vs @ List.map_filter (\<lambda>o1. map_option (wgVolume o1) (st_WGSecretRef (ov_Status o1))) overlays,
        ms @ map wgMount (filter (\<lambda>o1. st_WGSecretRef (ov_Status o1) \<noteq> None) overlays))" for vs ms
    by (induction overlays arbitrary: vs ms) (auto simp: List.map_filter_simps split: option.splits)
  then show ?thesis by (simp add: buildWGVolumes_def)
qed

lemma wgVolumes_map:
  "List.map_filter (\<lambda>o1. map_option (wgVolume o1) (st_WGSecretRef (ov_Status o1))) overlays =
     map (\<lambda>o1. wgVolume o1 (the (st_WGSecretRef (ov_Status o1)))) (filter (\<lambda>o1. st_WGSecretRef (ov_Status o1) \<noteq> None) overlays)"
  by (induction overlays) (auto simp: List.map_filter_simps)

lemma targetNodes_wf_has:
  "gm_wf (targetNodes gs overlays) \<and> (gm_has (targetNodes gs overlays) n \<longleftrightarrow>
     n \<noteq> [] \<and> \<not> gm_has gs n \<and> (\<exists>o1 \<in> set overlays. \<exists>e \<in> set (edges_of o1). es_Ready e \<and> es_NodeName e = n))"
proof -
  have inner: "gm_wf m \<Longrightarrow> gm_wf (fold (\<lambda>e targets.
         if es_Ready e \<and> es_NodeName e \<noteq> [] \<and> \<not> gm_has gs (es_NodeName e)
         then gm_put (es_NodeName e) () targets else targets) es m) \<and>
      (gm_has (fold (\<lambda>e targets.
         if es_Ready e \<and> es_NodeName e \<noteq> [] \<and> \<not> gm_has gs (es_NodeName e)
         then gm_put (es_NodeName e) () targets else targets) es m) n \<longleftrightarrow>
        gm_has m n \<or> n \<noteq> [] \<and> \<not> gm_has gs n \<and> (\<exists>e \<in> set es. es_Ready e \<and> es_NodeName e = n))"
    for es and m :: "(string, unit) gomap"
    by (induction es arbitrary: m) auto
  have "gm_wf m \<Longrightarrow> gm_wf (fold (\<lambda>o1 targets. fold (\<lambda>e targets.
         if es_Ready e \<and> es_NodeName e \<noteq> [] \<and> \<not> gm_has gs (es_NodeName e)
         then gm_put (es_NodeName e) () targets else targets) (edges_of o1) targets) overlays m) \<and>
      (gm_has (fold (\<lambda>o1 targets. fold (\<lambda>e targets.
         if es_Ready e \<and> es_NodeName e \<noteq> [] \<and> \<not> gm_has gs (es_NodeName e)
         then gm_put (es_NodeName e) () targets else targets) (edges_of o1) targets) overlays m) n \<longleftrightarrow>
        gm_has m n \<or> n \<noteq> [] \<and> \<not> gm_has gs n \<and>
          (\<exists>o1 \<in> set overlays. \<exists>e \<in> set (edges_of o1). es_Ready e \<and> es_NodeName e = n))" for m :: "(string, unit) gomap"
    by (induction overlays arbitrary: m) (auto simp: inner)
  then show ?thesis by (simp add: targetNodes_def)
qed

lemmas targetNodes_wf = targetNodes_wf_has [THEN conjunct1]
lemmas targetNodes_has = targetNodes_wf_has [THEN conjunct2]

lemma nodeSet_has [simp]: "gm_has (nodeSet nodes) n \<longleftrightarrow> n \<in> nd_Name ` set nodes"
  by (simp add: nodeSet_def)

section \<open>What the operations establish\<close>

lemma internalLabels_get [simp]:
  "gm_get (internalLabels n) componentKey = Some internalComponent" "label (internalLabels n) nodeKey = n"
  by (simp_all add: internalLabels_def label_def gm_get_def nameKey_def componentKey_def nodeKey_def)

lemma internalDeplName_inject [simp]: "internalDeplName a = internalDeplName b \<longleftrightarrow> a = b"
  by (simp add: internalDeplName_def)

lemma internalMutate_key [simp]:
  "dp_Namespace (internalMutate img n d) = dp_Namespace d" "dp_Name (internalMutate img n d) = dp_Name d"
  "dp_Labels (internalMutate img n d) = internalLabels n"
  by (simp_all add: internalMutate_def)

text \<open>The deployment of an internal node as the operator wants it.\<close>

definition internal_agent :: "string \<Rightarrow> string \<Rightarrow> deployment \<Rightarrow> bool" where
  "internal_agent img n d \<longleftrightarrow> (\<exists>d0. d = internalMutate img n d0)"

context cluster_contract
begin

definition internals :: "'c \<Rightarrow> string \<Rightarrow> deployment set" where
  "internals s namespace = {d. \<exists>n. dps s (namespace, n) = Some d \<and> gm_get (dp_Labels d) componentKey = Some internalComponent}"

lemma ovs_frame_agents:
  "op_frame ovs (EnsureGatewayDeployments k namespace img gl overlays)"
  "op_frame ovs (EnsureInternalDeployments ns k namespace img gl overlays)"
proof -
  have c: "op_inv (\<lambda>s. ovs s = x) (op_call (CreateOrUpdate k namespace n f))" for x n f
    using deploy_frame(2) [of namespace n f] by (intro op_inv_call) (metis snd_conv)
  have d: "op_inv (\<lambda>s. ovs s = x) (op_call (\<lambda>s. case DeleteDeployment k d s of (r, s') \<Rightarrow> (IgnoreNotFound r, s')))" for x d
    using deploy_frame(1) [of d] by (intro op_inv_call) (auto split: prod.splits, metis snd_conv)
  show "op_frame ovs (EnsureGatewayDeployments k namespace img gl overlays)"
    unfolding EnsureGatewayDeployments_def by (intro op_frameI op_inv_rules op_inv_each c)
  show "op_frame ovs (EnsureInternalDeployments ns k namespace img gl overlays)"
    unfolding EnsureInternalDeployments_def Let_def deleteStale_def ensureInternal_def
    by (intro op_frameI op_inv_rules op_inv_each c d)
qed

lemma deleteStale_done:
  assumes "op_each (deleteStale k targets) items s = (Inr u, s1)" "d \<in> set items" "\<not> gm_has targets (label (dp_Labels d) nodeKey)"
  shows "dps s1 (dp_Namespace d, dp_Name d) = None"
  using assms(1,2)
proof (rule op_each_done)
  show "dps t1 (dp_Namespace d, dp_Name d) = None" if "deleteStale k targets d t = (Inr v, t1)" for t t1 v
    using that assms(3) delete by (auto simp: deleteStale_def elim!: op_elims split: prod.splits)
  show "op_inv (\<lambda>s. dps s (dp_Namespace d, dp_Name d) = None) (deleteStale k targets d')" for d'
    unfolding deleteStale_def
    by (intro op_inv_rules) (auto dest!: delete split: prod.splits if_splits)
qed

lemma deleteStale_shrinks:
  "op_inv (\<lambda>s. dps s x = None \<or> dps s x = y) (op_each (deleteStale k targets) items)"
  unfolding deleteStale_def
  by (intro op_inv_each op_inv_rules) (auto dest!: delete split: prod.splits if_splits)

lemma ensureInternal_done:
  assumes "op_each (ensureInternal k namespace img) names s = (Inr u, s')" "n \<in> set names"
  shows "\<exists>d. dps s' (namespace, internalDeplName n) = Some d \<and> internal_agent img n d"
  using assms
proof (rule op_each_done)
  show "\<exists>d. dps t1 (namespace, internalDeplName n) = Some d \<and> internal_agent img n d"
    if "ensureInternal k namespace img n t = (Inr v, t1)" for t t1 v
    using that by (auto simp: ensureInternal_def internal_agent_def elim!: op_elims dest!: create)
  show "op_inv (\<lambda>s. \<exists>d. dps s (namespace, internalDeplName n) = Some d \<and> internal_agent img n d) (ensureInternal k namespace img n')" for n'
    unfolding ensureInternal_def by (intro op_inv_rules) (auto simp: internal_agent_def dest!: create)
qed

lemma internals_only:
  assumes "\<And>n. n \<in> set names \<Longrightarrow> gm_has targets n"
  shows "op_inv (\<lambda>s. \<forall>d \<in> internals s namespace. gm_has targets (label (dp_Labels d) nodeKey))
    (op_each (ensureInternal k namespace img) names)"
  unfolding ensureInternal_def
proof (intro op_inv_each op_inv_rules ballI)
  fix n s r s' d
  assume n: "n \<in> set names" and I: "\<forall>d \<in> internals s namespace. gm_has targets (label (dp_Labels d) nodeKey)"
    and c: "CreateOrUpdate k namespace (internalDeplName n) (internalMutate img n) s = (r, s')"
    and d: "d \<in> internals s' namespace"
  have "d \<in> internals s namespace \<or> (\<exists>d0. d = internalMutate img n d0)"
    using create [OF c] d by (auto simp: internals_def split: if_splits)
  then show "gm_has targets (label (dp_Labels d) nodeKey)"
    using I assms [OF n] by auto
qed

lemma EnsureInternal_spec:
  assumes "EnsureInternalDeployments ns k namespace img gl overlays s = (Inr u, s')"
  obtains gws where "ListNodes k gl s = Inr gws"
    "(\<lambda>d. label (dp_Labels d) nodeKey) ` internals s' namespace = {n. gm_has (targetNodes (nodeSet gws) overlays) n}"
    "\<And>n. gm_has (targetNodes (nodeSet gws) overlays) n \<Longrightarrow>
       \<exists>d. dps s' (namespace, internalDeplName n) = Some d \<and> internal_agent img n d"
proof -
  obtain gws items s1 u1 where 1: "ListNodes k gl s = Inr gws"
    and 2: "ListDeployments k namespace (componentKey, internalComponent) s = Inr items"
    and 3: "op_each (deleteStale k (targetNodes (nodeSet gws) overlays)) items s = (Inr u1, s1)"
    and 4: "op_each (ensureInternal k namespace img) (map fst (gm_range ns (targetNodes (nodeSet gws) overlays))) s1 = (Inr u, s')"
    using assms unfolding EnsureInternalDeployments_def Let_def by (elim op_elims) simp
  let ?T = "targetNodes (nodeSet gws) overlays"
  have names: "n \<in> set (map fst (gm_range ns ?T)) \<longleftrightarrow> gm_has ?T n" for n
    using gm_keys [of ?T] by (auto simp: gm_range_def)
  have made: "\<exists>d. dps s' (namespace, internalDeplName n) = Some d \<and> internal_agent img n d" if "gm_has ?T n" for n
    by (rule ensureInternal_done [OF 4]) (simp only: names that)
  have items: "set items = internals s namespace" using list_deployments [OF 2] by (simp add: internals_def)
  have s1: "gm_has ?T (label (dp_Labels d) nodeKey)" if d: "d \<in> internals s1 namespace" for d
  proof (rule ccontr)
    assume n: "\<not> gm_has ?T (label (dp_Labels d) nodeKey)"
    obtain nm where nm: "dps s1 (namespace, nm) = Some d" using d by (auto simp: internals_def)
    have "dps s1 (namespace, nm) = None \<or> dps s1 (namespace, nm) = dps s (namespace, nm)"
      by (rule op_invD [OF deleteStale_shrinks _ 3]) simp
    then have "d \<in> set items" using d nm unfolding items by (auto simp: internals_def)
    then show False using deleteStale_done [OF 3 _ n] dps_key [OF nm] nm by simp
  qed
  have "\<forall>d \<in> internals s' namespace. gm_has ?T (label (dp_Labels d) nodeKey)"
    by (rule op_invD [OF internals_only _ 4]) (use s1 names in blast)+
  moreover have "\<exists>d \<in> internals s' namespace. label (dp_Labels d) nodeKey = n" if "gm_has ?T n" for n
    using made [OF that] by (auto simp: internals_def internal_agent_def)
  ultimately have "(\<lambda>d. label (dp_Labels d) nodeKey) ` internals s' namespace = {n. gm_has ?T n}" by blast
  then show thesis using that 1 made by blast
qed

lemma EnsureGateway_spec:
  assumes "EnsureGatewayDeployments k namespace img gl overlays s = (Inr u, s')" "role \<in> {''primary'', ''secondary''}"
  obtains gws d0 where "ListNodes k gl s = Inr gws"
    "dps s' (namespace, gatewayDeplName role) = Some (gatewayMutate img overlays role (nodesOfRole gl gws role) d0)"
proof -
  obtain gws where 1: "ListNodes k gl s = Inr gws" and 2: "op_each (\<lambda>role.
         op_wrap (fmt_s ''create/update gateway deployment '' (gatewayDeplName role))
           (op_call (CreateOrUpdate k namespace (gatewayDeplName role)
             (gatewayMutate img overlays role (nodesOfRole gl gws role))))) [''primary'', ''secondary''] s = (Inr u, s')"
    using assms(1) unfolding EnsureGatewayDeployments_def by (elim op_elims) simp
  have "\<exists>d0. dps s' (namespace, gatewayDeplName role) = Some (gatewayMutate img overlays role (nodesOfRole gl gws role) d0)"
  proof (rule op_each_done [OF 2, of role], goal_cases)
    case 1
    show ?case using assms(2) by auto
  next
    case (2 t t1 v)
    then show ?case by (auto elim!: op_elims dest!: create)
  next
    case (3 r)
    show ?case
    proof (intro op_inv_rules)
      fix t x t'
      assume "\<exists>d0. dps t (namespace, gatewayDeplName role) = Some (gatewayMutate img overlays role (nodesOfRole gl gws role) d0)"
        and c: "CreateOrUpdate k namespace (gatewayDeplName r) (gatewayMutate img overlays r (nodesOfRole gl gws r)) t = (x, t')"
      then show "\<exists>d0. dps t' (namespace, gatewayDeplName role) = Some (gatewayMutate img overlays role (nodesOfRole gl gws role) d0)"
        using create [OF c] by (auto simp: gatewayDeplName_def)
    qed
  qed
  then show thesis using that 1 by blast
qed

end

section \<open>Properties\<close>

definition ex_node_of :: "string \<Rightarrow> label_map \<Rightarrow> (addr_type \<times> string) list \<Rightarrow> node" where
  "ex_node_of name ls as = \<lparr>nd_Name = name, nd_Labels = ls, nd_Addresses = as\<rparr>"

definition ex_label :: string where
  "ex_label = ''pontifex.io/gateway-role''"

definition ex_cluster :: mem_cluster where
  "ex_cluster = \<lparr>mc_overlays = [ex_blue, ex_red],
     mc_nodes = [ex_node_of ''gw-b'' [(ex_label, ''primary'')] [(NodeInternalIP, ''10.0.0.2'')],
                 ex_node_of ''gw-a'' [(ex_label, ''primary'')] [(NodeInternalIP, ''10.0.0.1''), (NodeExternalIP, ''198.51.100.4'')],
                 ex_node_of ''node-1'' [] [(NodeInternalIP, ''10.0.0.21'')]],
     mc_pods = [], mc_deployments = [internalMutate ''old'' ''node-9'' (new_deployment ''sys'' (internalDeplName ''node-9''))]\<rparr>"

text \<open>C14: When the operator has ensured the internal agents without an error, there is an internal
  deployment for exactly the nodes that host a ready edge of some overlay and carry no gateway
  label, and each of those nodes has its own deployment, pinned to it, with one replica.
  Deployments of other nodes are gone.\<close>

theorem internal_deployments_exact:
  assumes k: "cluster_contract k ovs dps"
    and run: "EnsureInternalDeployments ns k namespace img gl overlays s = (Inr u, s')"
    and gws: "ListNodes k gl s = Inr gws"
  defines "hosts \<equiv> {es_NodeName e | e o1. o1 \<in> set overlays \<and> e \<in> set (edges_of o1) \<and> es_Ready e \<and> es_NodeName e \<noteq> []}
    - nd_Name ` set gws"
  shows "{label (dp_Labels d) nodeKey | d n. dps s' (namespace, n) = Some d \<and> gm_get (dp_Labels d) componentKey = Some internalComponent} = hosts
    \<and> (\<forall>n \<in> hosts. \<exists>d. dps s' (namespace, internalDeplName n) = Some d \<and> dp_Replicas d = Some 1 \<and> dp_Affinity d = Some (nodeNameAffinity n))"
proof -
  let ?T = "targetNodes (nodeSet gws) overlays"
  have i: "(\<lambda>d. label (dp_Labels d) nodeKey) ` cluster_contract.internals dps s' namespace = {n. gm_has ?T n}"
    and a: "gm_has ?T n \<Longrightarrow> \<exists>d. dps s' (namespace, internalDeplName n) = Some d \<and> internal_agent img n d" for n
    using cluster_contract.EnsureInternal_spec [OF k run] gws by (metis sum.inject(2))+
  have T: "{n. gm_has ?T n} = hosts" unfolding targetNodes_has nodeSet_has hosts_def by auto
  have "internal_agent img n d \<Longrightarrow> dp_Replicas d = Some 1 \<and> dp_Affinity d = Some (nodeNameAffinity n)" for n d
    by (auto simp: internal_agent_def internalMutate_def)
  then have "\<forall>n \<in> hosts. \<exists>d. dps s' (namespace, internalDeplName n) = Some d \<and> dp_Replicas d = Some 1 \<and> dp_Affinity d = Some (nodeNameAffinity n)"
    using a unfolding T [symmetric] by blast
  moreover have "{label (dp_Labels d) nodeKey | d n. dps s' (namespace, n) = Some d \<and> gm_get (dp_Labels d) componentKey = Some internalComponent}
      = (\<lambda>d. label (dp_Labels d) nodeKey) ` cluster_contract.internals dps s' namespace"
    unfolding cluster_contract.internals_def [OF k] by blast
  ultimately show ?thesis unfolding i T by blast
qed

definition ex_internal :: "(go_error + unit) \<times> mem_cluster" where
  "ex_internal = EnsureInternalDeployments [] mem_client ''sys'' ''img'' ex_label [ex_blue] ex_cluster"

theorem internal_deployments_exact_witness:
  "\<exists>d. tbl_get dp_key (mc_deployments (snd ex_internal)) (''sys'', internalDeplName ''node-1'') = Some d
     \<and> dp_Affinity d = Some (nodeNameAffinity ''node-1'')"
proof -
  have ok: "fst ex_internal = Inr ()" by code_simp
  have r: "EnsureInternalDeployments [] mem_client ''sys'' ''img'' ex_label [ex_blue] ex_cluster = (Inr (), snd ex_internal)"
    using pair_fst [OF ok] unfolding ex_internal_def .
  have l: "ListNodes mem_client ex_label ex_cluster = Inr (filter (\<lambda>nd. gm_has (nd_Labels nd) ex_label) (tbl_list nd_Name (mc_nodes ex_cluster)))"
    (is "_ = Inr ?gws") by (simp add: mem_client_def)
  have g: "map nd_Name ?gws = [''gw-b'', ''gw-a'']" by code_simp
  have "''node-1'' \<notin> nd_Name ` set ?gws" unfolding set_map [symmetric] g by simp
  moreover have "\<exists>e o1. ''node-1'' = es_NodeName e \<and> o1 \<in> set [ex_blue] \<and> e \<in> set (edges_of o1) \<and> es_Ready e \<and> es_NodeName e \<noteq> []"
    by (simp add: ex_defs)
  ultimately show ?thesis
    using internal_deployments_exact [OF memk.cluster_contract_axioms r l, THEN conjunct2] by blast
qed

text \<open>C15: When the operator has ensured the gateway agents without an error, each of the two roles has
  its deployment: with one replica pinned to the lexicographically smallest node of the role if
  there is one, with no replica and no affinity otherwise. Its one container runs the agent in
  gateway mode and tells it its role; for every overlay with a WireGuard secret, and for no other,
  in the order of the list, the pod has the secret as a volume and the container mounts that volume
  read-only at the path of the overlay's private key.\<close>

theorem gateway_deployments_pinned:
  assumes k: "cluster_contract k ovs dps"
    and run: "EnsureGatewayDeployments k namespace img gl overlays s = (Inr u, s')"
    and gws: "ListNodes k gl s = Inr gws" and names: "[] \<notin> nd_Name ` set gws"
    and role: "role \<in> {''primary'', ''secondary''}"
  defines "N \<equiv> nd_Name ` {n \<in> set gws. label (nd_Labels n) gl = role}"
    and "keyed \<equiv> filter (\<lambda>o1. st_WGSecretRef (ov_Status o1) \<noteq> None) overlays"
  shows "\<exists>d ct. dps s' (namespace, gatewayDeplName role) = Some d \<and> dp_Containers d = [ct]
    \<and> (if N = {} then dp_Replicas d = Some 0 \<and> dp_Affinity d = None
       else dp_Replicas d = Some 1 \<and> dp_Affinity d = Some (nodeNameAffinity (Min N)))
    \<and> ct_Args ct = [''--mode=gateway'']
    \<and> ct_Env ct = [(''IS_SECONDARY'', if role = ''secondary'' then ''true'' else ''false'')]
    \<and> dp_Volumes d = map (\<lambda>o1. \<lparr>vl_Name = ''wg-'' @ ov_Name o1, vl_SecretName = ref_Name (the (st_WGSecretRef (ov_Status o1)))\<rparr>) keyed
    \<and> ct_VolumeMounts ct = map (\<lambda>o1. \<lparr>mt_Name = ''wg-'' @ ov_Name o1,
        mt_MountPath = ''/etc/pontifex/wg/'' @ ov_Name o1 @ ''/private'', mt_SubPath = ''private'', mt_ReadOnly = True\<rparr>) keyed"
proof -
  obtain d0 where d: "dps s' (namespace, gatewayDeplName role) =
      Some (gatewayMutate img overlays role (nodesOfRole gl gws role) d0)" (is "_ = Some ?d")
    using cluster_contract.EnsureGateway_spec [OF k run role] gws by (metis sum.inject(2))
  let ?ns = "filter (\<lambda>n. label (nd_Labels n) gl = role) gws"
  have r: "nodesOfRole gl gws role = sort_key nd_Name ?ns" by (rule nodesOfRole_eq)
  have N: "N = nd_Name ` set ?ns" by (simp add: N_def)
  have v: "dp_Volumes ?d = map (\<lambda>o1. wgVolume o1 (the (st_WGSecretRef (ov_Status o1)))) keyed"
    by (simp add: gatewayMutate_def Let_def buildWGVolumes_eq wgVolumes_map keyed_def)
  obtain ct where ct: "dp_Containers ?d = [ct]" "ct_Args ct = [''--mode=gateway'']" "ct_VolumeMounts ct = map wgMount keyed"
      "ct_Env ct = [(''IS_SECONDARY'', if role = ''secondary'' then ''true'' else ''false'')]"
    by (simp add: gatewayMutate_def Let_def buildWGVolumes_eq keyed_def)
  have "if N = {} then dp_Replicas ?d = Some 0 \<and> dp_Affinity ?d = None
      else dp_Replicas ?d = Some 1 \<and> dp_Affinity ?d = Some (nodeNameAffinity (Min N))"
  proof (cases "?ns = []")
    case True
    then show ?thesis unfolding N r by (simp add: gatewayMutate_def Let_def split: prod.splits)
  next
    case False
    have m: "nd_Name (hd (sort_key nd_Name ?ns)) = Min N" unfolding N by (rule hd_sort_key_Min [OF False])
    have ne: "N \<noteq> {}" using False unfolding N image_is_empty set_empty .
    obtain n rest where s: "sort_key nd_Name ?ns = n # rest" using False by (metis neq_Nil_conv set_empty set_sort)
    have "n \<in> set ?ns" using set_sort [of nd_Name ?ns] unfolding s by (metis list.set_intros(1))
    then have "nd_Name n \<in> nd_Name ` set gws" by simp
    then have "nd_Name n \<noteq> []" using names by metis
    then show ?thesis using ne m unfolding r s by (simp add: gatewayMutate_def Let_def split: prod.splits)
  qed
  then show ?thesis using d v ct unfolding wgVolume_def wgMount_def by blast
qed

definition ex_gateways :: "(go_error + unit) \<times> mem_cluster" where
  "ex_gateways = EnsureGatewayDeployments mem_client ''sys'' ''img'' ex_label [ex_blue] ex_cluster"

theorem gateway_deployments_pinned_witness:
  "\<exists>d ct. tbl_get dp_key (mc_deployments (snd ex_gateways)) (''sys'', gatewayDeplName ''secondary'') = Some d \<and> dp_Containers d = [ct] \<and>
     dp_Replicas d = Some 0 \<and> ct_Env ct = [(''IS_SECONDARY'', ''true'')]"
proof -
  have ok: "fst ex_gateways = Inr ()" by code_simp
  have r: "EnsureGatewayDeployments mem_client ''sys'' ''img'' ex_label [ex_blue] ex_cluster = (Inr (), snd ex_gateways)"
    using pair_fst [OF ok] unfolding ex_gateways_def .
  have l: "ListNodes mem_client ex_label ex_cluster = Inr (filter (\<lambda>nd. gm_has (nd_Labels nd) ex_label) (tbl_list nd_Name (mc_nodes ex_cluster)))"
    (is "_ = Inr ?gws") by (simp add: mem_client_def)
  have g: "map nd_Name ?gws = [''gw-b'', ''gw-a'']" and e: "filter (\<lambda>n. label (nd_Labels n) ex_label = ''secondary'') ?gws = []" by code_simp+
  have n: "[] \<notin> nd_Name ` set ?gws" unfolding set_map [symmetric] g by simp
  have s: "''secondary'' \<in> {''primary'', ''secondary''}" by (rule insertI2) (rule insertI1)
  have "{n \<in> set ?gws. label (nd_Labels n) ex_label = ''secondary''} = {}" using arg_cong [OF e, of set] by (simp only: set_filter list.set)
  then show ?thesis
    using gateway_deployments_pinned [OF memk.cluster_contract_axioms r l n s] by auto
qed

end
