(* ===== verification/Community.thy ===== *)
theory Community
  imports Example Go_Strings
begin

text \<open>
  The BGP community pool of the operator (\<open>allocateCommunity\<close> in
  \<open>controller/networkoverlay_controller.go\<close>): the set of communities in use and the search for
  the first free one, a loop on 32-bit integers.
\<close>

definition usedCommunities :: "string \<Rightarrow> overlay list \<Rightarrow> (string, unit) gomap" where
  "usedCommunities currentName items =
     fold (\<lambda>o1 used. if ov_Name o1 \<noteq> currentName \<and> community o1 \<noteq> [] then gm_put (community o1) () used else used)
       items gm_empty"

text \<open>\<open>fmt.Sprintf("%d:%d", asn, n)\<close>.\<close>

definition community_string :: "u32 \<Rightarrow> u32 \<Rightarrow> string" where
  "community_string asn n = dec (unat asn) @ '':'' @ dec (unat n)"

text \<open>The same text computed on binary integers, for evaluation.\<close>

function dec_int :: "int \<Rightarrow> string" where
  "dec_int i = (if i < 10 then [digit_char (nat i)] else dec_int (i div 10) @ [digit_char (nat (i mod 10))])"
  by pat_completeness auto

termination
  by (relation "measure nat") auto

declare dec_int.simps [simp del]

lemma dec_int_dec: "dec_int (int n) = dec n"
proof (induction n rule: dec.induct)
  case (1 n)
  have "int n div 10 = int (n div 10)" "nat (int n mod 10) = n mod 10" by (simp_all add: nat_mod_distrib zdiv_int)
  then show ?case using 1 by (subst dec_int.simps, subst dec.simps) auto
qed

lemma community_string_code [code]:
  "community_string asn n = dec_int (uint asn) @ '':'' @ dec_int (uint n)"
  using dec_int_dec [of "unat asn"] dec_int_dec [of "unat n"] by (simp add: community_string_def)

lemma u32_succ: "n < 65536 \<Longrightarrow> unat (n + 1 :: u32) = unat n + 1"
  by (simp add: unat_word_ariths word_less_nat_alt)

function firstFree :: "u32 \<Rightarrow> (string, unit) gomap \<Rightarrow> u32 \<Rightarrow> string option" where
  "firstFree asn used n =
     (if n < 65536
      then let c = community_string asn n in if \<not> gm_has used c then Some c else firstFree asn used (n + 1)
      else None)"
  by pat_completeness auto

termination
  by (relation "measure (\<lambda>(asn, used, n). 65536 - unat n)") (auto simp: u32_succ word_less_nat_alt)

declare firstFree.simps [simp del]

definition allocate :: "u32 \<Rightarrow> string \<Rightarrow> overlay list \<Rightarrow> go_error + string" where
  "allocate asn currentName items =
     (case firstFree asn (usedCommunities currentName items) 1 of
        Some c \<Rightarrow> Inr c
      | None \<Rightarrow> Inl (Errs (fmt_s ''BGP community pool exhausted for ASN '' (dec (unat asn)))))"

section \<open>The loop as a search in a list\<close>

definition pool :: "u32 \<Rightarrow> string list" where
  "pool asn = map (\<lambda>n. dec (unat asn) @ '':'' @ dec n) [1..<65536]"

lemma firstFree_find:
  "n \<le> 65536 \<Longrightarrow> firstFree asn used (of_nat n) =
     find (\<lambda>c. \<not> gm_has used c) (map (\<lambda>k. dec (unat asn) @ '':'' @ dec k) [n..<65536])"
proof (induction "65536 - n" arbitrary: n)
  case 0
  then have "n = 65536" by simp
  then show ?case by (subst firstFree.simps) simp
next
  case (Suc k)
  then have n: "n < 65536" by simp
  then have w: "unat (of_nat n :: u32) = n" "(of_nat n :: u32) < 65536"
    by (simp_all add: unat_of_nat word_less_nat_alt)
  have "firstFree asn used (of_nat n + 1) =
      find (\<lambda>c. \<not> gm_has used c) (map (\<lambda>k. dec (unat asn) @ '':'' @ dec k) [Suc n..<65536])"
    using Suc.hyps(1) [of "Suc n"] Suc.hyps(2) n by (simp add: add.commute)
  then show ?case
    by (subst firstFree.simps) (simp add: w n community_string_def Let_def upt_conv_Cons)
qed

lemma firstFree_pool: "firstFree asn used 1 = find (\<lambda>c. \<not> gm_has used c) (pool asn)"
  using firstFree_find [of 1 asn used] by (simp add: pool_def)

lemma used_has:
  "gm_has (usedCommunities name items) c \<longleftrightarrow> c \<noteq> [] \<and> (\<exists>o1 \<in> set items. ov_Name o1 \<noteq> name \<and> community o1 = c)"
proof -
  have "gm_wf m \<Longrightarrow> gm_has (fold (\<lambda>o1 used. if ov_Name o1 \<noteq> name \<and> community o1 \<noteq> []
       then gm_put (community o1) () used else used) items m) c
     \<longleftrightarrow> gm_has m c \<or> c \<noteq> [] \<and> (\<exists>o1 \<in> set items. ov_Name o1 \<noteq> name \<and> community o1 = c)" for m :: "(string, unit) gomap"
    by (induction items arbitrary: m) auto
  then show ?thesis by (simp add: usedCommunities_def)
qed

lemma pool_distinct: "distinct (pool asn)"
  unfolding pool_def by (simp add: distinct_map inj_on_def dec_inject)

lemma pool_length: "length (pool asn) = 65535"
  by (simp add: pool_def)

lemma pool_not_Nil: "c \<in> set (pool asn) \<Longrightarrow> c \<noteq> []"
  by (auto simp: pool_def)

lemma allocate_Inr:
  "allocate asn name items = Inr c \<longleftrightarrow> find (\<lambda>c. \<not> gm_has (usedCommunities name items) c) (pool asn) = Some c"
  by (auto simp: allocate_def firstFree_pool split: option.splits)

lemma allocate_fresh:
  assumes "allocate asn name items = Inr c"
  shows "c \<in> set (pool asn)" and "o1 \<in> set items \<Longrightarrow> ov_Name o1 \<noteq> name \<Longrightarrow> community o1 \<noteq> c"
proof -
  from assms have f: "c \<in> set (pool asn)" "\<not> gm_has (usedCommunities name items) c"
    unfolding allocate_Inr by (auto simp: find_Some_iff)
  then show "c \<in> set (pool asn)" by simp
  show "o1 \<in> set items \<Longrightarrow> ov_Name o1 \<noteq> name \<Longrightarrow> community o1 \<noteq> c"
    using f(2) pool_not_Nil [OF f(1)] unfolding used_has by blast
qed

lemma allocate_fails:
  "(\<exists>e. allocate asn name items = Inl e) \<longleftrightarrow> set (pool asn) \<subseteq> community ` {o1 \<in> set items. ov_Name o1 \<noteq> name}"
proof -
  have "(\<exists>e. allocate asn name items = Inl e) \<longleftrightarrow> find (\<lambda>c. \<not> gm_has (usedCommunities name items) c) (pool asn) = None"
    by (auto simp: allocate_def firstFree_pool split: option.splits)
  also have "\<dots> \<longleftrightarrow> (\<forall>c \<in> set (pool asn). gm_has (usedCommunities name items) c)"
    unfolding find_None_iff by blast
  also have "\<dots> \<longleftrightarrow> set (pool asn) \<subseteq> community ` {o1 \<in> set items. ov_Name o1 \<noteq> name}"
  proof -
    have "gm_has (usedCommunities name items) c \<longleftrightarrow> c \<in> community ` {o1 \<in> set items. ov_Name o1 \<noteq> name}"
      if "c \<in> set (pool asn)" for c unfolding used_has using pool_not_Nil [OF that] by (auto simp: image_iff)
    then show ?thesis by (simp add: subset_eq)
  qed
  finally show ?thesis .
qed

lemma allocate_succeeds:
  assumes "length items < 65535"
  shows "\<exists>c. allocate asn name items = Inr c"
proof (rule ccontr)
  assume "\<not> ?thesis"
  then have "\<exists>e. allocate asn name items = Inl e" by (metis sum.exhaust)
  then have "set (pool asn) \<subseteq> community ` set items" unfolding allocate_fails by blast
  then have "card (set (pool asn)) \<le> card (community ` set items)" by (intro card_mono) simp_all
  also have "\<dots> \<le> length items" using card_image_le [of "set items" community] card_length [of items] by simp
  finally show False using assms pool_length [of asn] distinct_card [OF pool_distinct [of asn]] by simp
qed

section \<open>Properties\<close>

text \<open>C13: The allocation loop on 32-bit integers is the search for the first free community in the list
  \<open>asn:1, asn:2, ..., asn:65535\<close>; in particular it terminates, and it never wraps around.\<close>

theorem allocate_is_first_free:
  "allocate asn name items =
     (case find (\<lambda>c. \<not> gm_has (usedCommunities name items) c) (map (\<lambda>n. dec (unat asn) @ '':'' @ dec n) [1..<65536]) of
        Some c \<Rightarrow> Inr c
      | None \<Rightarrow> Inl (Errs (fmt_s ''BGP community pool exhausted for ASN '' (dec (unat asn)))))"
  unfolding allocate_def firstFree_pool pool_def ..

text \<open>An allocated community has the operator's ASN and a number from 1 to 65535, and no other
  overlay of the list has it.\<close>

theorem allocate_unique:
  assumes "allocate asn name items = Inr c"
  shows "(\<exists>n \<in> {1..65535}. c = dec (unat asn) @ '':'' @ dec n)
    \<and> (\<forall>o1 \<in> set items. ov_Name o1 \<noteq> name \<longrightarrow> community o1 \<noteq> c)"
proof -
  have "\<exists>n \<in> {1..65535}. c = dec (unat asn) @ '':'' @ dec n"
    using allocate_fresh(1) [OF assms] by (auto simp: pool_def)
  then show ?thesis using allocate_fresh(2) [OF assms] by blast
qed

theorem allocate_unique_witness:
  "community ex_red \<noteq> ''65000:1'' \<and> allocate 65000 ''new'' [ex_red, ex_new] = Inr ''65000:1''"
proof -
  have a: "allocate 65000 ''new'' [ex_red, ex_new] = Inr ''65000:1''" by code_simp
  have n: "ov_Name ex_red \<noteq> ''new''" by code_simp
  show ?thesis using allocate_unique [OF a] n a by simp
qed

text \<open>C33: Allocation fails exactly when all 65535 communities of the ASN are taken by other overlays, so
  it always succeeds while there are fewer than 65535 overlays.\<close>

theorem allocate_fails_iff_exhausted:
  "((\<exists>e. allocate asn name items = Inl e) \<longleftrightarrow>
      (\<lambda>n. dec (unat asn) @ '':'' @ dec n) ` {1..<65536} \<subseteq> community ` {o1 \<in> set items. ov_Name o1 \<noteq> name})
   \<and> (length items < 65535 \<longrightarrow> (\<exists>c. allocate asn name items = Inr c))"
  using allocate_fails [of asn name items] allocate_succeeds [of items asn name] by (simp add: pool_def)

theorem allocate_fails_iff_exhausted_witness:
  "\<exists>c. allocate 65000 ''new'' [ex_blue, ex_red, ex_new] = Inr c"
  by (rule allocate_fails_iff_exhausted [of 65000 "''new''" "[ex_blue, ex_red, ex_new]", THEN conjunct2, THEN mp]) simp

end
