(* ===== verification/Operator.thy ===== *)
theory Operator
  imports Operator_Agents Community Bgp_Lib
begin

text \<open>
  The operator: its configuration (\<open>operator/internal/config\<close>), the key generator and the RBAC
  step of this phase, and the \<open>NetworkOverlay\<close> controller
  (\<open>controller/networkoverlay_controller.go\<close>). One call of \<open>Reconcile\<close> is a chain of API calls
  that ends at the first error; its parts are the blocks of the source in their order.
\<close>

section \<open>Configuration\<close>

record op_config =
  oc_Namespace :: string
  oc_ASN :: u32
  oc_AgentImage :: string
  oc_GatewayNodeLabel :: string
  oc_LogLevel :: string

definition oc_applyDefaults :: "op_config \<Rightarrow> op_config" where
  "oc_applyDefaults cfg =
     (let c1 = (if oc_Namespace cfg = [] then cfg\<lparr>oc_Namespace := ''pontifex-system''\<rparr> else cfg);
          c2 = (if oc_AgentImage c1 = [] then c1\<lparr>oc_AgentImage := ''ghcr.io/tsamsiyu/pontifex-agent:latest''\<rparr> else c1);
          c3 = (if oc_GatewayNodeLabel c2 = [] then c2\<lparr>oc_GatewayNodeLabel := ''pontifex.io/gateway-role''\<rparr> else c2)
      in if oc_LogLevel c3 = [] then c3\<lparr>oc_LogLevel := ''info''\<rparr> else c3)"

definition oc_validate :: "op_config \<Rightarrow> go_error option" where
  "oc_validate cfg = (if oc_ASN cfg = 0 then Some (Errs ''asn is required (set PONTIFEX_ASN)'') else None)"

text \<open>The YAML library is an argument: opening the file, then populating the struct.\<close>

definition oc_Load :: "(string \<Rightarrow> go_error + 'p) \<Rightarrow> ('p \<Rightarrow> go_error + op_config) \<Rightarrow> string \<Rightarrow> go_error + op_config" where
  "oc_Load NewYAML Populate path =
     (case NewYAML path of
        Inl err \<Rightarrow> Inl (Wrap (fmt_q ''load operator config from '' path) err)
      | Inr provider \<Rightarrow>
          (case Populate provider of
             Inl err \<Rightarrow> Inl (Wrap ''populate operator config'' err)
           | Inr cfg0 \<Rightarrow>
               let cfg = oc_applyDefaults cfg0
               in case oc_validate cfg of Some err \<Rightarrow> Inl err | None \<Rightarrow> Inr cfg))"

section \<open>Keys and RBAC\<close>

text \<open>\<open>Generator.EnsureKeyPair\<close> and \<open>EnsureAgentRBAC\<close> of this phase.\<close>

definition EnsureKeyPair :: "overlay \<Rightarrow> ('c, string \<times> string) op" where
  "EnsureKeyPair ov = op_fail errNotImplemented"

definition EnsureAgentRBAC :: "string \<Rightarrow> 'c \<Rightarrow> go_error option \<times> 'c" where
  "EnsureAgentRBAC namespace s = (Some errNotImplemented, s)"

section \<open>Gateways and edges\<close>

definition gw_addAddress :: "addr_type \<times> string \<Rightarrow> gateway \<Rightarrow> gateway" where
  "gw_addAddress = (\<lambda>(ty, a) gw. case ty of
      NodeInternalIP \<Rightarrow> gw\<lparr>gw_NodeIP := a\<rparr>
    | NodeExternalIP \<Rightarrow> gw\<lparr>gw_PublicIP := a\<rparr>
    | NodeOtherAddr _ \<Rightarrow> gw)"

definition gw_of_node :: "string \<Rightarrow> node \<Rightarrow> gateway" where
  "gw_of_node labelName nd = fold gw_addAddress (nd_Addresses nd)
     \<lparr>gw_NodeName = nd_Name nd, gw_NodeIP = [], gw_PublicIP = [],
      gw_IsSecondary = (label (nd_Labels nd) labelName = ''secondary'')\<rparr>"

definition buildGateways :: "node list \<Rightarrow> string \<Rightarrow> gateway list" where
  "buildGateways nodes labelName = sort_key gw_NodeName (map (gw_of_node labelName) nodes)"

definition podRunning :: string where
  "podRunning = ''Running''"

definition firstInternalIP :: "(addr_type \<times> string) list \<Rightarrow> string" where
  "firstInternalIP as = (case find (\<lambda>(ty, a). ty = NodeInternalIP) as of None \<Rightarrow> [] | Some (ty, a) \<Rightarrow> a)"

definition pendingEdge :: "edge \<Rightarrow> edge_status" where
  "pendingEdge e = \<lparr>es_VirtualIP = edge_VirtualIP e, es_PodNamespace = edge_PodNamespace e, es_PodName = [],
     es_PodIP = [], es_NodeName = [], es_NodeIP = [], es_Ready = False\<rparr>"

definition resolveEdge :: "('c, 'l) kclient \<Rightarrow> (string, unit) gomap \<Rightarrow> edge \<Rightarrow> 'c \<Rightarrow> go_error + edge_status" where
  "resolveEdge k gatewaySet e s =
     (case ParseSelector k (edge_PodLabelsSelector e) of
        Inl err \<Rightarrow> Inr (pendingEdge e)
      | Inr sel \<Rightarrow>
      (case ListPods k (edge_PodNamespace e) sel s of
        Inl err \<Rightarrow> Inl err
      | Inr pods \<Rightarrow>
      (case filter (\<lambda>p. pd_Phase p = podRunning \<and> \<not> pd_Deleting p) pods of
        [pod] \<Rightarrow>
          if gm_has gatewaySet (pd_NodeName pod) then Inr (pendingEdge e)
          else (case GetNode k (pd_NodeName pod) s of
                  Inl err \<Rightarrow> Inl err
                | Inr nd \<Rightarrow> Inr (pendingEdge e\<lparr>es_PodName := pd_Name pod, es_PodIP := pd_PodIP pod,
                    es_NodeName := pd_NodeName pod, es_NodeIP := firstInternalIP (nd_Addresses nd), es_Ready := True\<rparr>))
      | _ \<Rightarrow> Inr (pendingEdge e))))"

fun resolveAll :: "('c, 'l) kclient \<Rightarrow> (string, unit) gomap \<Rightarrow> edge list \<Rightarrow> 'c \<Rightarrow> go_error + edge_status list" where
  "resolveAll k gatewaySet [] s = Inr []"
| "resolveAll k gatewaySet (e # es) s =
     (case resolveEdge k gatewaySet e s of
        Inl err \<Rightarrow> Inl err
      | Inr st \<Rightarrow> (case resolveAll k gatewaySet es s of Inl err \<Rightarrow> Inl err | Inr sts \<Rightarrow> Inr (st # sts)))"

definition resolveEdges :: "('c, 'l) kclient \<Rightarrow> op_config \<Rightarrow> overlay \<Rightarrow> 'c \<Rightarrow> go_error + edge_status list" where
  "resolveEdges k cfg ov s =
     (case ListNodes k (oc_GatewayNodeLabel cfg) s of
        Inl err \<Rightarrow> Inl err
      | Inr items \<Rightarrow> resolveAll k (nodeSet items) (spec_Edges (ov_Spec ov)) s)"

section \<open>The controller\<close>

record ('c, 'l) reconciler =
  nr_Client :: "('c, 'l) kclient"
  nr_Config :: op_config
  nr_Keys :: "overlay \<Rightarrow> ('c, string \<times> string) op"
  nr_EnsureRBAC :: "string \<Rightarrow> 'c \<Rightarrow> go_error option \<times> 'c"

definition finalizerName :: string where
  "finalizerName = ''pontifex.io/networkoverlay''"

definition nr_allocateCommunity :: "('c, 'l) reconciler \<Rightarrow> string \<Rightarrow> ('c, string) op" where
  "nr_allocateCommunity r currentName =
     op_bind (op_read (ListOverlays (nr_Client r))) (\<lambda>items.
       op_read (\<lambda>_. allocate (oc_ASN (nr_Config r)) currentName items))"

definition nr_ensureFinalizer :: "('c, 'l) reconciler \<Rightarrow> overlay \<Rightarrow> ('c, overlay) op" where
  "nr_ensureFinalizer r ov =
     (if \<not> ContainsFinalizer (nr_Client r) ov finalizerName
      then PatchOverlay (nr_Client r) ov (AddFinalizer (nr_Client r) ov finalizerName)
      else op_ret ov)"

definition set_gateways :: "gateway list \<Rightarrow> overlay \<Rightarrow> overlay" where
  "set_gateways gws ov = ov\<lparr>ov_Status := (ov_Status ov)\<lparr>st_Gateways := Some gws\<rparr>\<rparr>"

definition set_community :: "string \<Rightarrow> overlay \<Rightarrow> overlay" where
  "set_community c ov = ov\<lparr>ov_Status := (ov_Status ov)\<lparr>st_Community := c\<rparr>\<rparr>"

definition set_keys :: "string \<Rightarrow> secret_ref \<Rightarrow> overlay \<Rightarrow> overlay" where
  "set_keys pub ref ov = ov\<lparr>ov_Status := (ov_Status ov)\<lparr>st_PublicKey := pub, st_WGSecretRef := Some ref\<rparr>\<rparr>"

definition set_edges :: "edge_status list \<Rightarrow> overlay \<Rightarrow> overlay" where
  "set_edges es ov = ov\<lparr>ov_Status := (ov_Status ov)\<lparr>st_Edges := Some es\<rparr>\<rparr>"

definition nr_syncGateways :: "('c, 'l) reconciler \<Rightarrow> overlay \<Rightarrow> ('c, overlay) op" where
  "nr_syncGateways r ov =
     op_bind (op_read (ListNodes (nr_Client r) (oc_GatewayNodeLabel (nr_Config r)))) (\<lambda>items.
     let gateways = buildGateways items (oc_GatewayNodeLabel (nr_Config r))
     in if st_Gateways (ov_Status ov) \<noteq> Some gateways
        then PatchStatus (nr_Client r) ov (set_gateways gateways ov) else op_ret ov)"

definition nr_ensureCommunity :: "('c, 'l) reconciler \<Rightarrow> overlay \<Rightarrow> ('c, overlay) op" where
  "nr_ensureCommunity r ov =
     (if community ov = []
      then op_bind (op_wrap ''allocate community'' (nr_allocateCommunity r (ov_Name ov))) (\<lambda>comm.
           PatchStatus (nr_Client r) ov (set_community comm ov))
      else op_ret ov)"

definition nr_ensureKeys :: "('c, 'l) reconciler \<Rightarrow> overlay \<Rightarrow> ('c, overlay) op" where
  "nr_ensureKeys r ov =
     op_bind (op_wrap ''ensure WG keypair'' (nr_Keys r ov)) (\<lambda>(pubKey, secretName).
     if st_PublicKey (ov_Status ov) \<noteq> pubKey \<or> map_option ref_Name (st_WGSecretRef (ov_Status ov)) \<noteq> Some secretName
     then PatchStatus (nr_Client r) ov
            (set_keys pubKey \<lparr>ref_Name = secretName, ref_Namespace = oc_Namespace (nr_Config r)\<rparr> ov)
     else op_ret ov)"

definition nr_ensureAgents :: "nat list \<Rightarrow> ('c, 'l) reconciler \<Rightarrow> ('c, unit) op" where
  "nr_ensureAgents ns r =
     (let k = nr_Client r; cfg = nr_Config r
      in op_bind (op_wrap ''ensure agent RBAC'' (op_call (nr_EnsureRBAC r (oc_Namespace cfg)))) (\<lambda>_.
         op_bind (op_read (ListOverlays k)) (\<lambda>all.
         op_bind (op_wrap ''ensure gateway deployments''
           (EnsureGatewayDeployments k (oc_Namespace cfg) (oc_AgentImage cfg) (oc_GatewayNodeLabel cfg) all)) (\<lambda>_.
         op_wrap ''ensure internal deployments''
           (EnsureInternalDeployments ns k (oc_Namespace cfg) (oc_AgentImage cfg) (oc_GatewayNodeLabel cfg) all)))))"

definition nr_syncEdges :: "('c, 'l) reconciler \<Rightarrow> overlay \<Rightarrow> ('c, unit) op" where
  "nr_syncEdges r ov =
     op_bind (op_wrap ''resolve edges'' (op_read (resolveEdges (nr_Client r) (nr_Config r) ov))) (\<lambda>edges.
     if st_Edges (ov_Status ov) \<noteq> Some edges
     then op_bind (PatchStatus (nr_Client r) ov (set_edges edges ov)) (\<lambda>_. op_ret ()) else op_ret ())"

definition nr_reconcileLive :: "nat list \<Rightarrow> ('c, 'l) reconciler \<Rightarrow> overlay \<Rightarrow> ('c, unit) op" where
  "nr_reconcileLive ns r ov =
     op_bind (nr_ensureFinalizer r ov) (\<lambda>ov1.
     op_bind (nr_syncGateways r ov1) (\<lambda>ov2.
     op_bind (nr_ensureCommunity r ov2) (\<lambda>ov3.
     op_bind (nr_ensureKeys r ov3) (\<lambda>ov4.
     op_bind (nr_ensureAgents ns r) (\<lambda>_.
     nr_syncEdges r ov4)))))"

definition nr_handleDeletion :: "nat list \<Rightarrow> ('c, 'l) reconciler \<Rightarrow> overlay \<Rightarrow> ('c, unit) op" where
  "nr_handleDeletion ns r ov =
     (let k = nr_Client r; cfg = nr_Config r
      in if \<not> ContainsFinalizer k ov finalizerName then op_ret ()
         else op_bind (op_read (ListOverlays k)) (\<lambda>all.
              let remaining = filter (\<lambda>o1. ov_Name o1 \<noteq> ov_Name ov) all
              in op_bind (op_wrap ''teardown internal deployments''
                   (EnsureInternalDeployments ns k (oc_Namespace cfg) (oc_AgentImage cfg) (oc_GatewayNodeLabel cfg) remaining)) (\<lambda>_.
                 op_bind (PatchOverlay k ov (RemoveFinalizer k ov finalizerName)) (\<lambda>_. op_ret ()))))"

definition nr_Reconcile :: "nat list \<Rightarrow> ('c, 'l) reconciler \<Rightarrow> string \<Rightarrow> ('c, unit) op" where
  "nr_Reconcile ns r name s =
     (case GetOverlay (nr_Client r) name s of
        Inl err \<Rightarrow> (case IgnoreNotFound (Some err) of None \<Rightarrow> (Inr (), s) | Some e \<Rightarrow> (Inl e, s))
      | Inr ov \<Rightarrow> if ov_Deleting ov then nr_handleDeletion ns r ov s else nr_reconcileLive ns r ov s)"

text \<open>The requests enqueued when a pod or a node changes (\<open>SetupWithManager\<close>).\<close>

definition enqueueAll :: "('c, 'l) kclient \<Rightarrow> 'c \<Rightarrow> string list" where
  "enqueueAll k s = (case ListOverlays k s of Inl err \<Rightarrow> [] | Inr items \<Rightarrow> map ov_Name items)"

end
