(* ===== verification/Operator_Correct.thy ===== *)
theory Operator_Correct
  imports Operator
begin

text \<open>
  Correctness of the operator against the contract of the API client: what every call of
  \<open>Reconcile\<close> keeps, the errors included (communities stay unique and, once given, stay the same),
  what a successful call establishes, and what deletion does.
\<close>

section \<open>Communities across overlays\<close>

definition unique_communities :: "(string \<Rightarrow> overlay option) \<Rightarrow> bool" where
  "unique_communities m \<longleftrightarrow> (\<forall>a b oa ob. m a = Some oa \<and> m b = Some ob \<and> a \<noteq> b \<and> community oa \<noteq> [] \<longrightarrow>
     community oa \<noteq> community ob)"

text \<open>No overlay appears, and a community that was given is kept.\<close>

definition evolves :: "(string \<Rightarrow> overlay option) \<Rightarrow> (string \<Rightarrow> overlay option) \<Rightarrow> bool" where
  "evolves m m' \<longleftrightarrow> (\<forall>n o'. m' n = Some o' \<longrightarrow>
     (\<exists>o1. m n = Some o1 \<and> (community o1 \<noteq> [] \<longrightarrow> community o' = community o1)))"

definition sound_step :: "(string \<Rightarrow> overlay option) \<Rightarrow> (string \<Rightarrow> overlay option) \<Rightarrow> bool" where
  "sound_step m0 m \<longleftrightarrow> evolves m0 m \<and> (unique_communities m0 \<longrightarrow> unique_communities m)"

lemma sound_step_refl [simp]: "sound_step m m"
  by (auto simp: sound_step_def evolves_def)

lemma sound_step_same:
  assumes "sound_step m0 m" "m n = Some o1" "community o2 = community o1"
  shows "sound_step m0 (m(n \<mapsto> o2))"
proof -
  have "evolves m0 (m(n \<mapsto> o2))" using assms unfolding sound_step_def evolves_def by (metis fun_upd_apply option.inject)
  moreover have "unique_communities m \<Longrightarrow> unique_communities (m(n \<mapsto> o2))"
    using assms(2,3) unfolding unique_communities_def by (metis fun_upd_apply option.inject)
  ultimately show ?thesis using assms(1) by (simp add: sound_step_def)
qed

lemma sound_step_remove:
  assumes "sound_step m0 m"
  shows "sound_step m0 (m(n := None))"
proof -
  have "evolves m0 (m(n := None))" using assms by (auto simp: sound_step_def evolves_def)
  moreover have "unique_communities m \<Longrightarrow> unique_communities (m(n := None))"
    unfolding unique_communities_def by (metis fun_upd_apply option.distinct(1))
  ultimately show ?thesis using assms by (simp add: sound_step_def)
qed

lemma sound_step_allocate:
  assumes m: "sound_step m0 m" "m n = Some o1" and c: "community o1 = []"
    and fresh: "\<And>a oa. m a = Some oa \<Longrightarrow> a \<noteq> n \<Longrightarrow> community oa \<noteq> community o2"
  shows "sound_step m0 (m(n \<mapsto> o2))"
proof -
  have "evolves m0 (m(n \<mapsto> o2))"
    unfolding evolves_def
  proof (intro allI impI)
    fix a o' assume a: "(m(n \<mapsto> o2)) a = Some o'"
    obtain b where b: "m a = Some b" "a = n \<Longrightarrow> b = o1" "a \<noteq> n \<Longrightarrow> b = o'" using a m(2) by (cases "a = n") auto
    then show "\<exists>o1. m0 a = Some o1 \<and> (community o1 \<noteq> [] \<longrightarrow> community o' = community o1)"
      using m(1) c unfolding sound_step_def evolves_def by (cases "a = n") fastforce+
  qed
  moreover have "unique_communities m \<Longrightarrow> unique_communities (m(n \<mapsto> o2))"
    using fresh unfolding unique_communities_def by (metis fun_upd_apply option.inject)
  ultimately show ?thesis using m(1) by (simp add: sound_step_def)
qed

section \<open>The contract the controller relies on\<close>

text \<open>The injected key generator and RBAC step do not touch overlays, nodes or pods.\<close>

locale operator_contract = cluster_contract "nr_Client r" ovs dps
  for r :: "('c, 'l) reconciler" and ovs dps +
  assumes keys_frame: "op_frame (\<lambda>s. (ovs s, world (nr_Client r) s)) (nr_Keys r ov)"
    and rbac_frame: "op_frame (\<lambda>s. (ovs s, world (nr_Client r) s)) (op_call (nr_EnsureRBAC r ns))"
begin

lemma world_frame_agents:
  "op_frame (world (nr_Client r)) (EnsureGatewayDeployments (nr_Client r) namespace img gl overlays)"
  "op_frame (world (nr_Client r)) (EnsureInternalDeployments ns (nr_Client r) namespace img gl overlays)"
proof -
  have c: "op_inv (\<lambda>s. world (nr_Client r) s = x) (op_call (CreateOrUpdate (nr_Client r) namespace n f))" for x n f
    using world_frame(4) [of namespace n f] by (intro op_inv_call) (metis snd_conv)
  have d: "op_inv (\<lambda>s. world (nr_Client r) s = x) (op_call (\<lambda>s. case DeleteDeployment (nr_Client r) d s of (r, s') \<Rightarrow> (IgnoreNotFound r, s')))" for x d
    using world_frame(3) [of d] by (intro op_inv_call) (auto split: prod.splits, metis snd_conv)
  show "op_frame (world (nr_Client r)) (EnsureGatewayDeployments (nr_Client r) namespace img gl overlays)"
    unfolding EnsureGatewayDeployments_def by (intro op_frameI op_inv_rules op_inv_each c)
  show "op_frame (world (nr_Client r)) (EnsureInternalDeployments ns (nr_Client r) namespace img gl overlays)"
    unfolding EnsureInternalDeployments_def Let_def deleteStale_def ensureInternal_def
    by (intro op_frameI op_inv_rules op_inv_each c d)
qed

lemma agents_frame: "op_frame (\<lambda>s. (ovs s, world (nr_Client r) s)) (nr_ensureAgents ns r)"
  unfolding nr_ensureAgents_def Let_def
  by (intro op_frame_bind op_frame_wrap op_frame_read rbac_frame op_frame_pair ovs_frame_agents world_frame_agents)

text \<open>The overlay in hand is the stored one, and nothing unsound has happened since \<open>m0\<close>.\<close>

definition current :: "(string \<Rightarrow> overlay option) \<Rightarrow> overlay \<Rightarrow> 'c \<Rightarrow> bool" where
  "current m0 ov s \<longleftrightarrow> sound_step m0 (ovs s) \<and> ovs s (ov_Name ov) = Some ov"

abbreviation holds :: "(string \<Rightarrow> overlay option) \<Rightarrow> _ \<Rightarrow> overlay \<Rightarrow> 'c \<Rightarrow> bool" where
  "holds m0 w ov s \<equiv> current m0 ov s \<and> world (nr_Client r) s = w"

abbreviation safe :: "(string \<Rightarrow> overlay option) \<Rightarrow> 'c \<Rightarrow> bool" where
  "safe m0 s \<equiv> sound_step m0 (ovs s)"

text \<open>A status patch that leaves the community alone.\<close>

lemma status_patch_valid:
  assumes n: "ov_Name new = ov_Name ov" and c: "community new = community ov"
  shows "op_valid (holds m0 w ov) (PatchStatus (nr_Client r) ov new)
    (\<lambda>ov' s. holds m0 w ov' s \<and> status_patched ov new ov ov') (safe m0)"
proof -
  have "safe m0 s' \<and> (\<forall>ov'. res = Inr ov' \<longrightarrow> holds m0 w ov' s' \<and> status_patched ov new ov ov')"
    if h: "holds m0 w ov s" and p: "PatchStatus (nr_Client r) ov new s = (res, s')" for s res s'
  proof -
    have w: "world (nr_Client r) s' = w" using world_frame(1) [of ov new s] p h by simp
    from patch_status [OF p] show ?thesis
    proof (elim disjE exE conjE)
      fix e assume "res = Inl e" "ovs s' = ovs s"
      then show ?thesis using h by (simp add: current_def)
    next
      fix st ov' assume st: "ovs s (ov_Name new) = Some st" and sp: "status_patched ov new st ov'"
        and s': "ovs s' = (ovs s)(ov_Name new \<mapsto> ov')" and res: "\<forall>x. res = Inr x \<longrightarrow> x = ov'"
      have st': "st = ov" using st h n by (simp add: current_def)
      have "community ov' = community ov" "ov_Name ov' = ov_Name ov" using sp st' c by (simp_all add: status_patched_def)
      then have "sound_step m0 (ovs s')" "ovs s' (ov_Name ov') = Some ov'"
        using h st s' n by (auto simp: current_def intro: sound_step_same)
      then show ?thesis using res w sp st' by (auto simp: current_def)
    qed
  qed
  then show ?thesis unfolding op_valid_def by blast
qed

lemma finalizer_valid:
  assumes "\<not> ov_Deleting ov"
  shows "op_valid (holds m0 w ov) (nr_ensureFinalizer r ov)
    (\<lambda>ov' s. holds m0 w ov' s \<and> finalizerName \<in> set (ov_Finalizers ov') \<and> ov_Name ov' = ov_Name ov \<and>
       ov_Spec ov' = ov_Spec ov \<and> ov_Status ov' = ov_Status ov) (safe m0)"
proof (cases "finalizerName \<in> set (ov_Finalizers ov)")
  case True
  then show ?thesis
    unfolding nr_ensureFinalizer_def contains_finalizer by (auto intro!: op_valid_ret simp: current_def)
next
  case False
  obtain fs where fs: "AddFinalizer (nr_Client r) ov finalizerName = ov\<lparr>ov_Finalizers := fs\<rparr>"
      "set fs = insert finalizerName (set (ov_Finalizers ov))" using add_finalizer by blast
  have "safe m0 s' \<and> (\<forall>ov'. res = Inr ov' \<longrightarrow> holds m0 w ov' s' \<and> finalizerName \<in> set (ov_Finalizers ov') \<and>
      ov_Name ov' = ov_Name ov \<and> ov_Spec ov' = ov_Spec ov \<and> ov_Status ov' = ov_Status ov)"
    if h: "holds m0 w ov s" and p: "PatchOverlay (nr_Client r) ov (ov\<lparr>ov_Finalizers := fs\<rparr>) s = (res, s')" for s res s'
  proof -
    have w: "world (nr_Client r) s' = w" using world_frame(2) [of ov "ov\<lparr>ov_Finalizers := fs\<rparr>" s] p h by simp
    from patch_object [OF p] show ?thesis
    proof (elim disjE exE conjE)
      fix e assume "res = Inl e" "ovs s' = ovs s"
      then show ?thesis using h by (simp add: current_def)
    next
      fix st ov' assume st: "ovs s (ov_Name (ov\<lparr>ov_Finalizers := fs\<rparr>)) = Some st"
        and sp: "object_patched ov (ov\<lparr>ov_Finalizers := fs\<rparr>) st ov'"
        and s': "ovs s' = (ovs s)(ov_Name (ov\<lparr>ov_Finalizers := fs\<rparr>) := (if ov_Deleting ov' \<and> ov_Finalizers ov' = [] then None else Some ov'))"
        and res: "\<forall>x. res = Inr x \<longrightarrow> x = ov'"
      have st': "st = ov" using st h by (simp add: current_def)
      have o: "ov_Name ov' = ov_Name ov" "ov_Spec ov' = ov_Spec ov" "ov_Status ov' = ov_Status ov" "\<not> ov_Deleting ov'" "ov_Finalizers ov' = fs"
        using sp st' assms by (simp_all add: object_patched_def)
      then have "ovs s' = (ovs s)(ov_Name ov \<mapsto> ov')" using s' by simp
      then have "sound_step m0 (ovs s')" "ovs s' (ov_Name ov') = Some ov'"
        using h o by (auto simp: current_def intro: sound_step_same)
      then show ?thesis using res w o fs(2) by (auto simp: current_def)
    qed
  qed
  note valid = this
  have eq: "nr_ensureFinalizer r ov = PatchOverlay (nr_Client r) ov (ov\<lparr>ov_Finalizers := fs\<rparr>)"
    using False by (simp add: nr_ensureFinalizer_def contains_finalizer fs(1))
  show ?thesis unfolding op_valid_def eq using valid by blast
qed

text \<open>The pattern of the status updates: patch if the wanted value differs, then it is there.\<close>

lemma status_sync_valid:
  assumes n: "ov_Name new = ov_Name ov" and c: "community new = community ov"
    and same: "\<not> changed \<Longrightarrow> F ov"
    and patched: "\<And>ov'. changed \<Longrightarrow> status_patched ov new ov ov' \<Longrightarrow> F ov'"
  shows "op_valid (holds m0 w ov) (if changed then PatchStatus (nr_Client r) ov new else op_ret ov)
    (\<lambda>ov' s. holds m0 w ov' s \<and> F ov' \<and> ov_Name ov' = ov_Name ov \<and> ov_Finalizers ov' = ov_Finalizers ov \<and> ov_Spec ov' = ov_Spec ov \<and>
       community ov' = community ov) (safe m0)"
proof (cases changed)
  case True
  have "F ov' \<and> ov_Name ov' = ov_Name ov \<and> ov_Finalizers ov' = ov_Finalizers ov \<and> ov_Spec ov' = ov_Spec ov \<and>
      community ov' = community ov" if "status_patched ov new ov ov'" for ov'
    using that patched [OF True that] c by (simp add: status_patched_def)
  then show ?thesis using True by simp (rule op_valid_conseq [OF status_patch_valid [OF n c]], auto)
next
  case False
  then show ?thesis using same by (auto simp: current_def intro!: op_valid_ret)
qed

lemma gateways_valid:
  "op_valid (holds m0 w ov) (nr_syncGateways r ov)
    (\<lambda>ov' s. holds m0 w ov' s \<and>
       (\<exists>nodes. fst w (oc_GatewayNodeLabel (nr_Config r)) = Inr nodes \<and> gateways_of ov' = buildGateways nodes (oc_GatewayNodeLabel (nr_Config r))) \<and>
       ov_Name ov' = ov_Name ov \<and> ov_Finalizers ov' = ov_Finalizers ov \<and> ov_Spec ov' = ov_Spec ov \<and> community ov' = community ov)
    (safe m0)"
  unfolding nr_syncGateways_def Let_def
proof (rule op_valid_bind [where Q = "\<lambda>nodes s. holds m0 w ov s \<and> fst w (oc_GatewayNodeLabel (nr_Config r)) = Inr nodes"])
  show "op_valid (holds m0 w ov) (op_read (ListNodes (nr_Client r) (oc_GatewayNodeLabel (nr_Config r))))
      (\<lambda>nodes s. holds m0 w ov s \<and> fst w (oc_GatewayNodeLabel (nr_Config r)) = Inr nodes) (safe m0)"
    by (rule op_valid_read) (auto simp: current_def world_def)
next
  fix nodes
  let ?gws = "buildGateways nodes (oc_GatewayNodeLabel (nr_Config r))"
  have g: "gateways_of ov' = ?gws" if "status_patched ov (set_gateways ?gws ov) ov ov'" for ov'
    by (rule merged_elems [of _ "st_Gateways (ov_Status ov)"]) (use that in \<open>simp add: status_patched_def set_gateways_def\<close>)
  show "op_valid (\<lambda>s. holds m0 w ov s \<and> fst w (oc_GatewayNodeLabel (nr_Config r)) = Inr nodes)
      (if st_Gateways (ov_Status ov) \<noteq> Some ?gws then PatchStatus (nr_Client r) ov (set_gateways ?gws ov) else op_ret ov)
      (\<lambda>ov' s. holds m0 w ov' s \<and>
         (\<exists>nodes. fst w (oc_GatewayNodeLabel (nr_Config r)) = Inr nodes \<and> gateways_of ov' = buildGateways nodes (oc_GatewayNodeLabel (nr_Config r))) \<and>
         ov_Name ov' = ov_Name ov \<and> ov_Finalizers ov' = ov_Finalizers ov \<and> ov_Spec ov' = ov_Spec ov \<and> community ov' = community ov)
      (safe m0)"
    by (rule op_valid_pure, rule status_sync_valid) (use g in \<open>auto simp: set_gateways_def\<close>)
qed

lemma community_valid:
  "op_valid (holds m0 w ov) (nr_ensureCommunity r ov)
    (\<lambda>ov' s. holds m0 w ov' s \<and> community ov' \<noteq> [] \<and> (community ov \<noteq> [] \<longrightarrow> community ov' = community ov) \<and>
       ov_Name ov' = ov_Name ov \<and> ov_Finalizers ov' = ov_Finalizers ov \<and> ov_Spec ov' = ov_Spec ov \<and>
       gateways_of ov' = gateways_of ov) (safe m0)"
proof (cases "community ov = []")
  case False
  then have eq: "nr_ensureCommunity r ov = op_ret ov" by (simp add: nr_ensureCommunity_def)
  show ?thesis unfolding eq by (rule op_valid_ret) (simp add: current_def False)
next
  case True
  have "safe m0 s' \<and> (\<forall>ov'. res = Inr ov' \<longrightarrow> holds m0 w ov' s' \<and> community ov' \<noteq> [] \<and> ov_Name ov' = ov_Name ov \<and>
      ov_Finalizers ov' = ov_Finalizers ov \<and> ov_Spec ov' = ov_Spec ov \<and> gateways_of ov' = gateways_of ov)"
    if h: "holds m0 w ov s" and l: "ListOverlays (nr_Client r) s = Inr items"
      and a: "allocate (oc_ASN (nr_Config r)) (ov_Name ov) items = Inr c"
      and p: "PatchStatus (nr_Client r) ov (set_community c ov) s = (res, s')" for s res s' items c
  proof -
    have w: "world (nr_Client r) s' = w" using world_frame(1) [of ov "set_community c ov" s] p h by simp
    have cn: "c \<noteq> []" by (rule pool_not_Nil [OF allocate_fresh(1) [OF a]])
    have fresh: "community oa \<noteq> c" if "ovs s b = Some oa" "b \<noteq> ov_Name ov" for b oa
    proof (rule allocate_fresh(2) [OF a])
      show "oa \<in> set items" unfolding list_overlays [OF l] using that(1) by (rule ranI)
      show "ov_Name oa \<noteq> ov_Name ov" using ovs_name [OF that(1)] that(2) by simp
    qed
    from patch_status [OF p] show ?thesis
    proof (elim disjE exE conjE)
      fix e assume "res = Inl e" "ovs s' = ovs s"
      then show ?thesis using h unfolding current_def by simp
    next
      fix st ov' assume st: "ovs s (ov_Name (set_community c ov)) = Some st" and sp: "status_patched ov (set_community c ov) st ov'"
        and s': "ovs s' = (ovs s)(ov_Name (set_community c ov) \<mapsto> ov')" and res: "\<forall>x. res = Inr x \<longrightarrow> x = ov'"
      have st': "st = ov" using st h by (simp add: current_def set_community_def)
      have o: "community ov' = c" "ov_Name ov' = ov_Name ov" "ov_Finalizers ov' = ov_Finalizers ov" "ov_Spec ov' = ov_Spec ov"
          "gateways_of ov' = gateways_of ov"
        using sp [unfolded st'] True cn by (simp_all add: status_patched_def set_community_def merged_def)
      have s'': "ovs s' = (ovs s)(ov_Name ov \<mapsto> ov')" using s' by (simp add: set_community_def)
      have ss: "sound_step m0 (ovs s')" unfolding s''
        by (rule sound_step_allocate [of m0 "ovs s" "ov_Name ov" ov])
          (use h True fresh o(1) in \<open>simp_all add: current_def\<close>)
      have "ovs s' (ov_Name ov') = Some ov'" by (simp add: s'' o(2))
      then have "holds m0 w ov' s' \<and> community ov' \<noteq> [] \<and> ov_Name ov' = ov_Name ov \<and>
          ov_Finalizers ov' = ov_Finalizers ov \<and> ov_Spec ov' = ov_Spec ov \<and> gateways_of ov' = gateways_of ov"
        using ss by (simp only: current_def w o cn simp_thms not_False_eq_True)
      then show ?thesis using res ss by blast
    qed
  qed
  note step = this
  let ?al = "\<lambda>c s. \<exists>items. ListOverlays (nr_Client r) s = Inr items \<and> allocate (oc_ASN (nr_Config r)) (ov_Name ov) items = Inr c"
  have 1: "op_valid (holds m0 w ov) (op_wrap ''allocate community'' (nr_allocateCommunity r (ov_Name ov)))
      (\<lambda>c s. holds m0 w ov s \<and> ?al c s) (safe m0)"
    unfolding nr_allocateCommunity_def
    by (intro op_valid_wrap op_valid_bind [where Q = "\<lambda>items s. holds m0 w ov s \<and> ListOverlays (nr_Client r) s = Inr items"] op_valid_read)
      (auto simp: current_def)
  have 2: "op_valid (\<lambda>s. holds m0 w ov s \<and> ?al c s) (PatchStatus (nr_Client r) ov (set_community c ov))
      (\<lambda>ov' s. holds m0 w ov' s \<and> community ov' \<noteq> [] \<and> ov_Name ov' = ov_Name ov \<and> ov_Finalizers ov' = ov_Finalizers ov \<and>
         ov_Spec ov' = ov_Spec ov \<and> gateways_of ov' = gateways_of ov) (safe m0)" for c
    unfolding op_valid_def
  proof (intro allI impI, elim conjE exE)
    fix s res s' items
    assume "current m0 ov s" "world (nr_Client r) s = w" and l: "ListOverlays (nr_Client r) s = Inr items"
      and a: "allocate (oc_ASN (nr_Config r)) (ov_Name ov) items = Inr c"
      and p: "PatchStatus (nr_Client r) ov (set_community c ov) s = (res, s')"
    then show "safe m0 s' \<and> (\<forall>ov'. res = Inr ov' \<longrightarrow> holds m0 w ov' s' \<and> community ov' \<noteq> [] \<and> ov_Name ov' = ov_Name ov \<and>
        ov_Finalizers ov' = ov_Finalizers ov \<and> ov_Spec ov' = ov_Spec ov \<and> gateways_of ov' = gateways_of ov)"
      by (intro step [OF _ l a p] conjI)
  qed
  have eq: "nr_ensureCommunity r ov = op_bind (op_wrap ''allocate community'' (nr_allocateCommunity r (ov_Name ov)))
      (\<lambda>comm. PatchStatus (nr_Client r) ov (set_community comm ov))" using True by (simp add: nr_ensureCommunity_def)
  show ?thesis unfolding eq by (rule op_valid_conseq [OF op_valid_bind [OF 1 2]]) (use True in auto)
qed

lemma keys_valid:
  "op_valid (holds m0 w ov) (nr_ensureKeys r ov)
    (\<lambda>ov' s. holds m0 w ov' s \<and> (st_WGSecretRef (ov_Status ov') \<noteq> None \<and> gateways_of ov' = gateways_of ov) \<and>
       ov_Name ov' = ov_Name ov \<and> ov_Finalizers ov' = ov_Finalizers ov \<and> ov_Spec ov' = ov_Spec ov \<and> community ov' = community ov)
    (safe m0)"
  unfolding nr_ensureKeys_def case_prod_beta
proof (rule op_valid_bind [where Q = "\<lambda>_. holds m0 w ov"])
  show "op_valid (holds m0 w ov) (op_wrap ''ensure WG keypair'' (nr_Keys r ov)) (\<lambda>_. holds m0 w ov) (safe m0)"
    by (rule op_valid_wrap, rule op_valid_conseq [OF op_valid_frame [OF keys_frame,
          where P = "\<lambda>(m, w'). sound_step m0 m \<and> m (ov_Name ov) = Some ov \<and> w' = w" and I = "safe m0"]])
      (auto simp: current_def)
next
  fix ks :: "string \<times> string"
  let ?ref = "\<lparr>ref_Name = snd ks, ref_Namespace = oc_Namespace (nr_Config r)\<rparr>"
  show "op_valid (holds m0 w ov)
      (if st_PublicKey (ov_Status ov) \<noteq> fst ks \<or> map_option ref_Name (st_WGSecretRef (ov_Status ov)) \<noteq> Some (snd ks)
       then PatchStatus (nr_Client r) ov (set_keys (fst ks) ?ref ov) else op_ret ov)
      (\<lambda>ov' s. holds m0 w ov' s \<and> (st_WGSecretRef (ov_Status ov') \<noteq> None \<and> gateways_of ov' = gateways_of ov) \<and>
         ov_Name ov' = ov_Name ov \<and> ov_Finalizers ov' = ov_Finalizers ov \<and> ov_Spec ov' = ov_Spec ov \<and> community ov' = community ov)
      (safe m0)"
    by (rule status_sync_valid) (auto simp: set_keys_def status_patched_def)
qed

lemma agents_valid: "op_valid (holds m0 w ov) (nr_ensureAgents ns r) (\<lambda>_. holds m0 w ov) (safe m0)"
  by (rule op_valid_conseq [OF op_valid_frame [OF agents_frame,
        where P = "\<lambda>(m, w'). sound_step m0 m \<and> m (ov_Name ov) = Some ov \<and> w' = w" and I = "safe m0"]])
    (auto simp: current_def)

text \<open>Edges are resolved from nodes and pods only.\<close>

lemma resolveEdges_world:
  assumes "world k s = world k s'" "ov_Spec ov = ov_Spec ov'"
  shows "resolveEdges k cfg ov s = resolveEdges k cfg ov' s'"
proof -
  have w: "ListNodes k l s = ListNodes k l s'" "GetNode k n s = GetNode k n s'" "ListPods k ns sel s = ListPods k ns sel s'" for l n ns sel
    using assms(1) unfolding world_def prod.inject fun_eq_iff by blast+
  have e: "resolveEdge k gs e s = resolveEdge k gs e s'" for gs e
    unfolding resolveEdge_def w ..
  have "resolveAll k gs es s = resolveAll k gs es s'" for gs es
    by (induction es) (simp_all add: e split: sum.splits)
  then show ?thesis unfolding resolveEdges_def w assms(2) by (simp split: sum.splits)
qed

lemma edges_valid:
  "op_valid (\<lambda>s. holds m0 (world (nr_Client r) s0) ov s \<and> ov_Spec ov = ov_Spec ov0) (nr_syncEdges r ov)
    (\<lambda>_ s. \<exists>ov'. holds m0 (world (nr_Client r) s0) ov' s \<and>
       (resolveEdges (nr_Client r) (nr_Config r) ov0 s0 = Inr (edges_of ov') \<and> st_WGSecretRef (ov_Status ov') = st_WGSecretRef (ov_Status ov) \<and>
        gateways_of ov' = gateways_of ov) \<and>
       ov_Name ov' = ov_Name ov \<and> ov_Finalizers ov' = ov_Finalizers ov \<and> ov_Spec ov' = ov_Spec ov \<and> community ov' = community ov)
    (safe m0)"
proof -
  let ?h = "holds m0 (world (nr_Client r) s0)"
  let ?res = "\<lambda>es. resolveEdges (nr_Client r) (nr_Config r) ov0 s0 = Inr es"
  have 1: "op_valid (\<lambda>s. ?h ov s \<and> ov_Spec ov = ov_Spec ov0) (op_wrap ''resolve edges'' (op_read (resolveEdges (nr_Client r) (nr_Config r) ov)))
      (\<lambda>es s. ?h ov s \<and> ?res es) (safe m0)"
  proof (intro op_valid_wrap op_valid_read)
    fix s es assume h: "?h ov s \<and> ov_Spec ov = ov_Spec ov0" and "resolveEdges (nr_Client r) (nr_Config r) ov s = Inr es"
    moreover have "resolveEdges (nr_Client r) (nr_Config r) ov s = resolveEdges (nr_Client r) (nr_Config r) ov0 s0"
      using h by (intro resolveEdges_world) auto
    ultimately show "?h ov s \<and> ?res es" by simp
  qed (simp add: current_def)
  have 2: "op_valid (\<lambda>s. ?h ov s \<and> ?res es)
      (if st_Edges (ov_Status ov) \<noteq> Some es then op_bind (PatchStatus (nr_Client r) ov (set_edges es ov)) (\<lambda>_. op_ret ()) else op_ret ())
      (\<lambda>_ s. \<exists>ov'. ?h ov' s \<and> (?res (edges_of ov') \<and> st_WGSecretRef (ov_Status ov') = st_WGSecretRef (ov_Status ov) \<and>
         gateways_of ov' = gateways_of ov) \<and> ov_Name ov' = ov_Name ov \<and> ov_Finalizers ov' = ov_Finalizers ov \<and>
         ov_Spec ov' = ov_Spec ov \<and> community ov' = community ov) (safe m0)" for es
  proof -
    have e: "edges_of ov' = es" if "status_patched ov (set_edges es ov) ov ov'" for ov'
      by (rule merged_elems [of _ "st_Edges (ov_Status ov)"]) (use that in \<open>simp add: status_patched_def set_edges_def\<close>)
    have v: "?res es \<Longrightarrow> op_valid (?h ov) (if st_Edges (ov_Status ov) \<noteq> Some es then PatchStatus (nr_Client r) ov (set_edges es ov) else op_ret ov)
      (\<lambda>ov' s. ?h ov' s \<and> (?res (edges_of ov') \<and> st_WGSecretRef (ov_Status ov') = st_WGSecretRef (ov_Status ov) \<and>
         gateways_of ov' = gateways_of ov) \<and> ov_Name ov' = ov_Name ov \<and> ov_Finalizers ov' = ov_Finalizers ov \<and>
         ov_Spec ov' = ov_Spec ov \<and> community ov' = community ov) (safe m0)"
      by (rule status_sync_valid) (auto simp: e, auto simp: set_edges_def status_patched_def)
    have eq: "(if b then op_bind m (\<lambda>_. op_ret ()) else op_ret ()) = op_bind (if b then m else op_ret x) (\<lambda>_. op_ret ())"
      for b x and m :: "('c, overlay) op" by (simp add: op_bind_def op_ret_def fun_eq_iff)
    show ?thesis unfolding eq [where x = ov]
      by (rule op_valid_pure, rule op_valid_bind [OF v], assumption) (auto simp: current_def intro!: op_valid_ret)
  qed
  show ?thesis unfolding nr_syncEdges_def by (rule op_valid_bind [OF 1 2])
qed

section \<open>The whole call\<close>

text \<open>What a successful call leaves for an overlay that is not being deleted.\<close>

definition settled :: "'c \<Rightarrow> overlay \<Rightarrow> overlay \<Rightarrow> bool" where
  "settled s0 ov ov' \<longleftrightarrow> ov_Name ov' = ov_Name ov \<and> ov_Spec ov' = ov_Spec ov \<and>
     finalizerName \<in> set (ov_Finalizers ov') \<and>
     community ov' \<noteq> [] \<and> (community ov \<noteq> [] \<longrightarrow> community ov' = community ov) \<and>
     st_WGSecretRef (ov_Status ov') \<noteq> None \<and>
     (\<exists>nodes. ListNodes (nr_Client r) (oc_GatewayNodeLabel (nr_Config r)) s0 = Inr nodes \<and>
        gateways_of ov' = buildGateways nodes (oc_GatewayNodeLabel (nr_Config r))) \<and>
     resolveEdges (nr_Client r) (nr_Config r) ov s0 = Inr (edges_of ov')"

lemma live_valid:
  assumes "\<not> ov_Deleting ov"
  shows "op_valid (\<lambda>s. holds m0 (world (nr_Client r) s0) ov s) (nr_reconcileLive ns r ov)
    (\<lambda>_ s. \<exists>ov'. ovs s (ov_Name ov) = Some ov' \<and> settled s0 ov ov') (safe m0)"
proof -
  let ?w = "world (nr_Client r) s0" and ?gl = "oc_GatewayNodeLabel (nr_Config r)"
  let ?h = "\<lambda>x s. holds m0 ?w x s"
  let ?g = "\<lambda>x. \<exists>nodes. ListNodes (nr_Client r) ?gl s0 = Inr nodes \<and> gateways_of x = buildGateways nodes ?gl"
  let ?p1 = "\<lambda>x. ov_Name x = ov_Name ov \<and> ov_Spec x = ov_Spec ov \<and> finalizerName \<in> set (ov_Finalizers x) \<and> community x = community ov"
  let ?p2 = "\<lambda>x. ?p1 x \<and> ?g x"
  let ?c = "\<lambda>x. ov_Name x = ov_Name ov \<and> ov_Spec x = ov_Spec ov \<and> finalizerName \<in> set (ov_Finalizers x) \<and>
     community x \<noteq> [] \<and> (community ov \<noteq> [] \<longrightarrow> community x = community ov)"
  let ?p3 = "\<lambda>x. ?c x \<and> ?g x" and ?p4 = "\<lambda>x. ?c x \<and> ?g x \<and> st_WGSecretRef (ov_Status x) \<noteq> None"
  have w: "fst ?w ?gl = ListNodes (nr_Client r) ?gl s0" by (simp add: world_def)
  have v1: "op_valid (?h ov) (nr_ensureFinalizer r ov) (\<lambda>x s. ?h x s \<and> ?p1 x) (safe m0)"
    by (rule op_valid_conseq [OF finalizer_valid [OF assms]]) auto
  have v2: "op_valid (\<lambda>s. ?h x s \<and> ?p1 x) (nr_syncGateways r x) (\<lambda>y s. ?h y s \<and> ?p2 y) (safe m0)" for x
    by (rule op_valid_pure, rule op_valid_conseq [OF gateways_valid]) (auto simp: w)
  have v3: "op_valid (\<lambda>s. ?h x s \<and> ?p2 x) (nr_ensureCommunity r x) (\<lambda>y s. ?h y s \<and> ?p3 y) (safe m0)" for x
    by (rule op_valid_pure, rule op_valid_conseq [OF community_valid]) auto
  have v4: "op_valid (\<lambda>s. ?h x s \<and> ?p3 x) (nr_ensureKeys r x) (\<lambda>y s. ?h y s \<and> ?p4 y) (safe m0)" for x
    by (rule op_valid_pure, rule op_valid_conseq [OF keys_valid]) auto
  have v5: "op_valid (\<lambda>s. ?h x s \<and> ?p4 x) (nr_ensureAgents ns r) (\<lambda>_ s. ?h x s \<and> ?p4 x) (safe m0)" for x
    by (rule op_valid_pure, rule op_valid_conseq [OF agents_valid]) auto
  have v6: "op_valid (\<lambda>s. ?h x s \<and> ?p4 x) (nr_syncEdges r x)
      (\<lambda>_ s. \<exists>ov'. ovs s (ov_Name ov) = Some ov' \<and> settled s0 ov ov') (safe m0)" for x
    by (rule op_valid_pure, rule op_valid_conseq [OF edges_valid [where ?s0.0 = s0 and ?ov0.0 = ov]]) (auto simp: current_def settled_def)
  show ?thesis unfolding nr_reconcileLive_def
    by (rule op_valid_bind [OF v1], rule op_valid_bind [OF v2], rule op_valid_bind [OF v3], rule op_valid_bind [OF v4],
        rule op_valid_bind [OF v5], rule v6)
qed

lemma deletion_safe: "op_inv (\<lambda>s. sound_step m0 (ovs s)) (nr_handleDeletion ns r ov)"
proof -
  have p: "op_inv (\<lambda>s. sound_step m0 (ovs s)) (PatchOverlay (nr_Client r) base new)" for base new
  proof (rule op_invI)
    fix s res s' assume h: "sound_step m0 (ovs s)" and p: "PatchOverlay (nr_Client r) base new s = (res, s')"
    from patch_object [OF p] show "sound_step m0 (ovs s')"
    proof (elim disjE exE conjE)
      fix st ov' assume "ovs s (ov_Name new) = Some st" "object_patched base new st ov'"
        and s': "ovs s' = (ovs s)(ov_Name new := (if ov_Deleting ov' \<and> ov_Finalizers ov' = [] then None else Some ov'))"
      then show ?thesis using h
        by (auto simp: object_patched_def intro: sound_step_remove sound_step_same)
    qed (use h in simp)
  qed
  show ?thesis unfolding nr_handleDeletion_def Let_def
    by (intro op_inv_rules p op_frame_inv [OF ovs_frame_agents(2)])
qed

lemma Reconcile_safe: "nr_Reconcile ns r name s = (res, s') \<Longrightarrow> sound_step (ovs s) (ovs s')"
proof -
  assume a: "nr_Reconcile ns r name s = (res, s')"
  show ?thesis
  proof (cases "GetOverlay (nr_Client r) name s")
    case (Inl err)
    then show ?thesis using a by (auto simp: nr_Reconcile_def split: option.splits)
  next
    case (Inr ov)
    have c: "ovs s (ov_Name ov) = Some ov" using get_overlay [OF Inr] ovs_name by simp
    show ?thesis
    proof (cases "ov_Deleting ov")
      case True
      then have "nr_handleDeletion ns r ov s = (res, s')" using a Inr by (simp add: nr_Reconcile_def)
      then show ?thesis using op_invD [OF deletion_safe [of "ovs s"]] by (metis sound_step_refl)
    next
      case False
      then have l: "nr_reconcileLive ns r ov s = (res, s')" using a Inr by (simp add: nr_Reconcile_def)
      show ?thesis by (rule op_validD(1) [OF live_valid [OF False, of "ovs s" s] _ l]) (simp add: current_def c)
    qed
  qed
qed

lemma Reconcile_settles:
  assumes "nr_Reconcile ns r name s = (Inr u, s')" "GetOverlay (nr_Client r) name s = Inr ov" "\<not> ov_Deleting ov"
  shows "\<exists>ov'. ovs s' name = Some ov' \<and> settled s ov ov'"
proof -
  have n: "ovs s name = Some ov" "ov_Name ov = name" using get_overlay [OF assms(2)] ovs_name by auto
  have l: "nr_reconcileLive ns r ov s = (Inr u, s')" using assms by (simp add: nr_Reconcile_def)
  show ?thesis using op_validD(2) [OF live_valid [OF assms(3), of "ovs s" s] _ l refl] n by (simp add: current_def)
qed

text \<open>Deployments outside the internal agents are left alone when internal agents are ensured.\<close>

lemma internal_leaves_others:
  assumes "EnsureInternalDeployments ns (nr_Client r) namespace img gl overlays s = (res, s')"
    and nm: "\<And>n. nm \<noteq> internalDeplName n"
    and lab: "\<And>d. dps s (namespace, nm) = Some d \<Longrightarrow> gm_get (dp_Labels d) componentKey \<noteq> Some internalComponent"
  shows "dps s' (namespace, nm) = dps s (namespace, nm)"
proof -
  let ?k = "nr_Client r" and ?I = "\<lambda>t. dps t (namespace, nm) = dps s (namespace, nm)"
  have del: "op_inv ?I (deleteStale ?k T d)" if d: "d \<in> internals s namespace" for d T
  proof -
    have key: "(dp_Namespace d, dp_Name d) \<noteq> (namespace, nm)"
    proof
      assume "(dp_Namespace d, dp_Name d) = (namespace, nm)"
      moreover obtain n where "dps s (namespace, n) = Some d" using d unfolding internals_def by blast
      ultimately have "dps s (namespace, nm) = Some d" using dps_key by blast
      then show False using lab d unfolding internals_def by blast
    qed
    have "?I t'" if I: "?I t" and e: "(case DeleteDeployment ?k d t of (x, t1) \<Rightarrow> (IgnoreNotFound x, t1)) = (y, t')" for t y t'
    proof -
      obtain x where "DeleteDeployment ?k d t = (x, t')" using e by (auto split: prod.splits)
      from delete [OF this] have "dps t' = dps t \<or> dps t' = (dps t)((dp_Namespace d, dp_Name d) := None)" by blast
      then show ?thesis using I key by (metis fun_upd_other)
    qed
    then show ?thesis unfolding deleteStale_def by (intro op_inv_rules)
  qed
  have ins: "op_inv ?I (ensureInternal ?k namespace img n)" for n
    unfolding ensureInternal_def by (intro op_inv_rules) (use nm in \<open>auto dest!: create\<close>)
  show ?thesis
  proof (cases "\<exists>gws items. ListNodes ?k gl s = Inr gws \<and> ListDeployments ?k namespace (componentKey, internalComponent) s = Inr items")
    case False
    then have "s' = s" using assms(1)
      by (auto simp: EnsureInternalDeployments_def Let_def op_bind_def op_read_def split: sum.splits prod.splits)
    then show ?thesis by simp
  next
    case True
    then obtain gws items where l: "ListNodes ?k gl s = Inr gws" "ListDeployments ?k namespace (componentKey, internalComponent) s = Inr items"
      by blast
    let ?T = "targetNodes (nodeSet gws) overlays"
    let ?m = "op_bind (op_each (deleteStale ?k ?T) items) (\<lambda>_. op_each (ensureInternal ?k namespace img) (map fst (gm_range ns ?T)))"
    have "?m s = (res, s')" using assms(1) l by (simp add: EnsureInternalDeployments_def Let_def op_bind_def op_read_def)
    moreover have "op_inv ?I ?m"
      by (intro op_inv_bind op_inv_each del ins) (use list_deployments [OF l(2)] in \<open>simp add: internals_def\<close>)
    ultimately show ?thesis using op_invD [of ?I ?m s res s'] by blast
  qed
qed

text \<open>The two calls that change something in a deletion that succeeds.\<close>

lemma deletion_steps:
  assumes run: "nr_handleDeletion ns r ov s = (Inr u, s')" and fin: "finalizerName \<in> set (ov_Finalizers ov)"
  obtains all s1 fs x ov1 where "ListOverlays (nr_Client r) s = Inr all"
    "EnsureInternalDeployments ns (nr_Client r) (oc_Namespace (nr_Config r)) (oc_AgentImage (nr_Config r)) (oc_GatewayNodeLabel (nr_Config r))
       (filter (\<lambda>o1. ov_Name o1 \<noteq> ov_Name ov) all) s = (Inr x, s1)"
    "ovs s1 = ovs s" "set fs = set (ov_Finalizers ov) - {finalizerName}"
    "PatchOverlay (nr_Client r) ov (ov\<lparr>ov_Finalizers := fs\<rparr>) s1 = (Inr ov1, s')" "dps s' = dps s1"
proof -
  let ?k = "nr_Client r" and ?cfg = "nr_Config r"
  obtain fs where fs: "RemoveFinalizer ?k ov finalizerName = ov\<lparr>ov_Finalizers := fs\<rparr>" "set fs = set (ov_Finalizers ov) - {finalizerName}"
    using remove_finalizer by blast
  obtain all s1 x ov1 where 0: "ListOverlays ?k s = Inr all" and
    1: "EnsureInternalDeployments ns ?k (oc_Namespace ?cfg) (oc_AgentImage ?cfg) (oc_GatewayNodeLabel ?cfg)
         (filter (\<lambda>o1. ov_Name o1 \<noteq> ov_Name ov) all) s = (Inr x, s1)" and
    2: "PatchOverlay ?k ov (ov\<lparr>ov_Finalizers := fs\<rparr>) s1 = (Inr ov1, s')"
    using run fin unfolding nr_handleDeletion_def Let_def contains_finalizer fs(1)
    by simp (elim op_elims, simp)
  have "ovs s1 = ovs s" by (rule op_frameD [OF ovs_frame_agents(2) 1])
  moreover have "dps s' = dps s1" using patch_frame(2) [of ov "ov\<lparr>ov_Finalizers := fs\<rparr>" s1] 2 by simp
  ultimately show thesis using that [OF 0 1 _ fs(2) 2] by blast
qed

lemma deletion_finalizers:
  assumes run: "nr_handleDeletion ns r ov s = (Inr u, s')" and ov: "ovs s (ov_Name ov) = Some ov" "ov_Deleting ov"
    "finalizerName \<in> set (ov_Finalizers ov)"
  shows "ovs s' (ov_Name ov) = Some ov' \<Longrightarrow> finalizerName \<notin> set (ov_Finalizers ov')"
    and "ov_Finalizers ov = [finalizerName] \<Longrightarrow> ovs s' (ov_Name ov) = None"
proof -
  obtain s1 fs ov1 where o1: "ovs s1 = ovs s" and fs: "set fs = set (ov_Finalizers ov) - {finalizerName}"
    and 2: "PatchOverlay (nr_Client r) ov (ov\<lparr>ov_Finalizers := fs\<rparr>) s1 = (Inr ov1, s')"
    using deletion_steps [OF run ov(3)] by metis
  obtain st y where st: "ovs s (ov_Name ov) = Some st" and y: "object_patched ov (ov\<lparr>ov_Finalizers := fs\<rparr>) st y"
    and s': "ovs s' = (ovs s)(ov_Name ov := (if ov_Deleting y \<and> ov_Finalizers y = [] then None else Some y))"
    using patch_object [OF 2] o1 by auto
  have yf: "set (ov_Finalizers y) = set (ov_Finalizers ov) - {finalizerName}" "ov_Deleting y"
    using y st ov fs by (auto simp: object_patched_def)
  show "ovs s' (ov_Name ov) = Some ov' \<Longrightarrow> finalizerName \<notin> set (ov_Finalizers ov')"
    using s' yf by (auto split: if_splits)
  show "ov_Finalizers ov = [finalizerName] \<Longrightarrow> ovs s' (ov_Name ov) = None"
    using s' yf by simp
qed

lemma deletion_effect:
  assumes run: "nr_Reconcile ns r name s = (Inr u, s')"
    and ov: "GetOverlay (nr_Client r) name s = Inr ov" "ov_Deleting ov" "finalizerName \<in> set (ov_Finalizers ov)"
    and gws: "ListNodes (nr_Client r) (oc_GatewayNodeLabel (nr_Config r)) s = Inr gws"
  shows "(\<forall>ov'. ovs s' name = Some ov' \<longrightarrow> finalizerName \<notin> set (ov_Finalizers ov')) \<and>
    (ov_Finalizers ov = [finalizerName] \<longrightarrow> ovs s' name = None) \<and>
    {label (dp_Labels d) nodeKey | d n. dps s' (oc_Namespace (nr_Config r), n) = Some d \<and>
      gm_get (dp_Labels d) componentKey = Some internalComponent} =
    {es_NodeName e | e o1 n. ovs s n = Some o1 \<and> n \<noteq> name \<and> e \<in> set (edges_of o1) \<and> es_Ready e \<and> es_NodeName e \<noteq> []}
    - nd_Name ` set gws"
proof -
  have h: "nr_handleDeletion ns r ov s = (Inr u, s')" using run ov by (simp add: nr_Reconcile_def)
  have n: "ovs s (ov_Name ov) = Some ov" "ov_Name ov = name" using get_overlay [OF ov(1)] ovs_name by auto
  note fin = deletion_finalizers [OF h n(1) ov(2,3), unfolded n(2)]
  obtain all s1 x where l: "ListOverlays (nr_Client r) s = Inr all" and
    1: "EnsureInternalDeployments ns (nr_Client r) (oc_Namespace (nr_Config r)) (oc_AgentImage (nr_Config r)) (oc_GatewayNodeLabel (nr_Config r))
       (filter (\<lambda>o1. ov_Name o1 \<noteq> ov_Name ov) all) s = (Inr x, s1)" and d: "dps s' = dps s1"
    using deletion_steps [OF h ov(3)] by metis
  let ?T = "targetNodes (nodeSet gws) (filter (\<lambda>o1. ov_Name o1 \<noteq> ov_Name ov) all)"
  have i: "(\<lambda>d. label (dp_Labels d) nodeKey) ` internals s1 (oc_Namespace (nr_Config r)) = {n. gm_has ?T n}"
    using EnsureInternal_spec [OF 1] gws by (metis sum.inject(2))
  have "o1 \<in> set all \<and> ov_Name o1 \<noteq> name \<longleftrightarrow> (\<exists>n. ovs s n = Some o1 \<and> n \<noteq> name)" for o1
    unfolding list_overlays [OF l] ran_def using ovs_name [of s _ o1] by auto
  note others = this
  have T: "{n. gm_has ?T n} = {es_NodeName e | e o1 n. ovs s n = Some o1 \<and> n \<noteq> name \<and> e \<in> set (edges_of o1) \<and> es_Ready e \<and> es_NodeName e \<noteq> []}
      - nd_Name ` set gws" unfolding targetNodes_has nodeSet_has n(2) set_filter mem_Collect_eq others by auto
  have "{label (dp_Labels d) nodeKey | d n. dps s' (oc_Namespace (nr_Config r), n) = Some d \<and>
      gm_get (dp_Labels d) componentKey = Some internalComponent} = (\<lambda>d. label (dp_Labels d) nodeKey) ` internals s1 (oc_Namespace (nr_Config r))"
    unfolding internals_def d by blast
  then show ?thesis using fin unfolding i T by blast
qed

lemma deletion_leaves_others:
  assumes run: "nr_handleDeletion ns r ov s = (Inr u, s')" and ov: "finalizerName \<in> set (ov_Finalizers ov)"
    and "\<And>n. nm \<noteq> internalDeplName n"
    and "\<And>d. dps s (oc_Namespace (nr_Config r), nm) = Some d \<Longrightarrow> gm_get (dp_Labels d) componentKey \<noteq> Some internalComponent"
  shows "dps s' (oc_Namespace (nr_Config r), nm) = dps s (oc_Namespace (nr_Config r), nm)"
proof -
  obtain s1 all x where
    1: "EnsureInternalDeployments ns (nr_Client r) (oc_Namespace (nr_Config r)) (oc_AgentImage (nr_Config r)) (oc_GatewayNodeLabel (nr_Config r))
       (filter (\<lambda>o1. ov_Name o1 \<noteq> ov_Name ov) all) s = (Inr x, s1)" and d: "dps s' = dps s1"
    using deletion_steps [OF run ov] by metis
  show ?thesis using internal_leaves_others [OF 1 assms(3,4)] d by simp
qed

text \<open>With keys that cannot be made, a live overlay is never settled and no agent is deployed.\<close>

lemma keys_fail_no_agents:
  assumes keys: "\<And>ov s. \<exists>e. nr_Keys r ov s = (Inl e, s)"
    and run: "nr_reconcileLive ns r ov s = (res, s')"
  shows "(\<exists>e. res = Inl e) \<and> dps s' = dps s"
proof -
  have p: "op_inv (\<lambda>t. dps t = D) (PatchStatus (nr_Client r) b n)" "op_inv (\<lambda>t. dps t = D) (PatchOverlay (nr_Client r) b n)" for D b n
    using patch_frame by (simp_all add: op_inv_def)
  have inv: "op_inv (\<lambda>t. dps t = D) (nr_ensureFinalizer r o1)" "op_inv (\<lambda>t. dps t = D) (nr_syncGateways r o1)"
    "op_inv (\<lambda>t. dps t = D) (nr_ensureCommunity r o1)" for D o1
    unfolding nr_ensureFinalizer_def nr_syncGateways_def nr_ensureCommunity_def nr_allocateCommunity_def Let_def
    by (intro op_inv_rules p)+
  have k: "\<exists>e. nr_ensureKeys r o1 t = (Inl e, t)" for o1 t
    using keys [of o1 t] by (auto simp: nr_ensureKeys_def op_bind_def op_wrap_def)
  define tail where "tail = (\<lambda>ov3. op_bind (nr_ensureKeys r ov3) (\<lambda>ov4. op_bind (nr_ensureAgents ns r) (\<lambda>_. nr_syncEdges r ov4)))"
  have t: "\<exists>e. tail o1 t = (Inl e, t)" for o1 t using k [of o1 t] by (auto simp: tail_def op_bind_def)
  have "op_inv (\<lambda>t. dps t = D) (tail o1)" for D o1 using t unfolding op_inv_def by (metis snd_conv)
  then have live: "op_inv (\<lambda>t. dps t = dps s) (nr_reconcileLive ns r ov)"
    unfolding nr_reconcileLive_def tail_def [symmetric] by (intro op_inv_bind inv)
  have "dps s' = dps s" by (rule op_invD [OF live refl run])
  moreover have "res \<noteq> Inr u" for u
  proof
    assume "res = Inr u"
    then have "nr_reconcileLive ns r ov s = (Inr u, s')" using run by simp
    then show False unfolding nr_reconcileLive_def tail_def [symmetric] using t by (elim op_elims) (metis prod.inject sum.distinct(1))
  qed
  ultimately show ?thesis by (cases res) auto
qed

end

end
