(* ===== verification/Operator_Properties.thy ===== *)
theory Operator_Properties
  imports Operator_Correct
begin

text \<open>
  The operator at work: the reconciler as \<open>cmd/operator\<close> builds it and one with working keys and
  RBAC, the interpretations of the contract, the cluster as a state machine (reconcile calls in
  any order, interleaved with the changes of users), and the properties of the controller.
\<close>

section \<open>Reconcilers\<close>

text \<open>The reconciler that \<open>cmd/operator/main.go\<close> registers.\<close>

definition operator_reconciler :: "('c, 'l) kclient \<Rightarrow> op_config \<Rightarrow> ('c, 'l) reconciler" where
  "operator_reconciler k cfg = \<lparr>nr_Client = k, nr_Config = cfg, nr_Keys = EnsureKeyPair, nr_EnsureRBAC = EnsureAgentRBAC\<rparr>"

text \<open>The in-memory cluster with keys and RBAC in place.\<close>

definition mem_reconciler :: "op_config \<Rightarrow> (mem_cluster, string \<times> string) reconciler" where
  "mem_reconciler cfg = \<lparr>nr_Client = mem_client, nr_Config = cfg,
     nr_Keys = (\<lambda>ov. op_ret (''pub'', ''wg-'' @ ov_Name ov)), nr_EnsureRBAC = (\<lambda>ns s. (None, s))\<rparr>"

interpretation phase1: operator_contract "operator_reconciler mem_client cfg"
    "\<lambda>s. tbl_get ov_Name (mc_overlays s)" "\<lambda>s. tbl_get dp_key (mc_deployments s)" for cfg
  by (intro operator_contract.intro operator_contract_axioms.intro)
    (simp_all add: operator_reconciler_def memk.cluster_contract_axioms EnsureKeyPair_def EnsureAgentRBAC_def
      op_frame_def op_fail_def op_call_def)

interpretation memop: operator_contract "mem_reconciler cfg"
    "\<lambda>s. tbl_get ov_Name (mc_overlays s)" "\<lambda>s. tbl_get dp_key (mc_deployments s)" for cfg
  by (intro operator_contract.intro operator_contract_axioms.intro)
    (simp_all add: mem_reconciler_def memk.cluster_contract_axioms op_frame_def op_ret_def op_call_def)

section \<open>The cluster as a state machine\<close>

text \<open>
  Users create overlays (without a status: it is a subresource), change and delete them; the status
  belongs to the operator.
\<close>

definition user_change :: "(string \<Rightarrow> overlay option) \<Rightarrow> (string \<Rightarrow> overlay option) \<Rightarrow> bool" where
  "user_change m m' \<longleftrightarrow> (\<forall>n o'. m' n = Some o' \<longrightarrow>
     community o' = [] \<or> (\<exists>o1. m n = Some o1 \<and> community o' = community o1))"

inductive cluster_reach :: "('c, 'l) reconciler \<Rightarrow> ('c \<Rightarrow> string \<Rightarrow> overlay option) \<Rightarrow> 'c \<Rightarrow> 'c \<Rightarrow> bool"
  for r :: "('c, 'l) reconciler" and ovs s0 where
  start: "cluster_reach r ovs s0 s0"
| reconcile: "cluster_reach r ovs s0 s \<Longrightarrow> nr_Reconcile ns r name s = (res, s') \<Longrightarrow> cluster_reach r ovs s0 s'"
| user: "cluster_reach r ovs s0 s \<Longrightarrow> user_change (ovs s) (ovs s') \<Longrightarrow> cluster_reach r ovs s0 s'"

lemma user_change_unique:
  assumes "user_change m m'" "unique_communities m"
  shows "unique_communities m'"
  unfolding unique_communities_def
proof (intro allI impI notI, elim conjE)
  fix a b oa ob
  assume ab: "m' a = Some oa" "m' b = Some ob" "a \<noteq> b" "community oa \<noteq> []" "community oa = community ob"
  obtain pa where "m a = Some pa" "community oa = community pa" using assms(1) ab unfolding user_change_def by blast
  moreover obtain pb where "m b = Some pb" "community ob = community pb" using assms(1) ab unfolding user_change_def by metis
  ultimately show False using assms(2) ab unfolding unique_communities_def by metis
qed

context operator_contract
begin

lemma reach_unique: "cluster_reach r ovs s0 s \<Longrightarrow> unique_communities (ovs s0) \<Longrightarrow> unique_communities (ovs s)"
proof (induction rule: cluster_reach.induct)
  case (reconcile s ns name res s')
  then show ?case using Reconcile_safe [OF reconcile.hyps(2)] by (simp add: sound_step_def)
next
  case (user s s')
  then show ?case using user_change_unique by blast
qed

end

section \<open>Edges and gateways\<close>

lemma resolveEdge_cases:
  assumes "resolveEdge k gs e s = Inr st"
  shows "st = pendingEdge e \<or> (\<exists>sel pods pod nd. ParseSelector k (edge_PodLabelsSelector e) = Inr sel \<and>
    ListPods k (edge_PodNamespace e) sel s = Inr pods \<and> filter (\<lambda>p. pd_Phase p = podRunning \<and> \<not> pd_Deleting p) pods = [pod] \<and>
    \<not> gm_has gs (pd_NodeName pod) \<and> GetNode k (pd_NodeName pod) s = Inr nd \<and>
    st = pendingEdge e\<lparr>es_PodName := pd_Name pod, es_PodIP := pd_PodIP pod, es_NodeName := pd_NodeName pod,
      es_NodeIP := firstInternalIP (nd_Addresses nd), es_Ready := True\<rparr>)"
  using assms unfolding resolveEdge_def by (auto split: sum.splits list.splits if_splits)

lemma gw_fold:
  "gw_NodeName (fold gw_addAddress as gw) = gw_NodeName gw"
  "gw_IsSecondary (fold gw_addAddress as gw) = gw_IsSecondary gw"
  "gw_NodeIP (fold gw_addAddress as gw) = last (gw_NodeIP gw # map snd (filter (\<lambda>a. fst a = NodeInternalIP) as))"
  "gw_PublicIP (fold gw_addAddress as gw) = last (gw_PublicIP gw # map snd (filter (\<lambda>a. fst a = NodeExternalIP) as))"
  by (induction as arbitrary: gw) (auto simp: gw_addAddress_def split: addr_type.splits)

lemma sort_key_mset_unique:
  assumes "mset xs = mset ys" "inj_on f (set xs)"
  shows "sort_key f xs = sort_key f ys"
proof (rule map_inj_on)
  have "mset (map f (sort_key f xs)) = mset (map f (sort_key f ys))" using assms(1) by simp
  then show "map f (sort_key f xs) = map f (sort_key f ys)"
    by (metis properties_for_sort sorted_sort_key)
  show "inj_on f (set (sort_key f xs) \<union> set (sort_key f ys))"
    using assms mset_eq_setD [OF assms(1)] by simp
qed

section \<open>Properties\<close>

definition ex_config :: op_config where
  "ex_config = \<lparr>oc_Namespace = ''sys'', oc_ASN = 65000, oc_AgentImage = ''img'', oc_GatewayNodeLabel = ex_label, oc_LogLevel = ''info''\<rparr>"

definition ex_pod :: pod where
  "ex_pod = \<lparr>pd_Name = ''web-0'', pd_Phase = podRunning, pd_Deleting = False, pd_NodeName = ''node-1'', pd_PodIP = ''10.244.1.8''\<rparr>"

definition ex_spec_edge :: edge where
  "ex_spec_edge = \<lparr>edge_PodNamespace = ''default'', edge_PodLabelsSelector = ''app=web'', edge_VirtualIP = ''10.200.0.7''\<rparr>"

definition ex_fresh :: overlay where
  "ex_fresh = ex_new\<lparr>ov_Spec := (ov_Spec ex_new)\<lparr>spec_Edges := [ex_spec_edge]\<rparr>,
     ov_Status := (ov_Status ex_new)\<lparr>st_Gateways := None, st_Edges := None\<rparr>\<rparr>"

definition ex_start :: mem_cluster where
  "ex_start = ex_cluster\<lparr>mc_overlays := [ex_blue, ex_red, ex_fresh], mc_pods := [(''default'', [(''app'', ''web'')], ex_pod)]\<rparr>"

definition ex_reconciled :: "(go_error + unit) \<times> mem_cluster" where
  "ex_reconciled = nr_Reconcile [] (mem_reconciler ex_config) ''new'' ex_start"

abbreviation stored :: "mem_cluster \<Rightarrow> string \<Rightarrow> overlay option" where
  "stored s \<equiv> tbl_get ov_Name (mc_overlays s)"

text \<open>C2: No two overlays ever share a BGP community: starting from a cluster where communities are
  unique, they stay unique under any sequence of reconcile calls, successful or failing at any
  point, interleaved with the creation, change and deletion of overlays by users. The client is
  assumed to return current objects.\<close>

theorem communities_stay_unique:
  assumes "operator_contract r ovs dps" "unique_communities (ovs s0)" "cluster_reach r ovs s0 s"
    and "ovs s a = Some oa" "ovs s b = Some ob" "a \<noteq> b" "community oa \<noteq> []"
  shows "community oa \<noteq> community ob"
  using operator_contract.reach_unique [OF assms(1,3,2)] assms(4-7) unfolding unique_communities_def by blast

lemma ex_reconciled_run: "nr_Reconcile [] (mem_reconciler ex_config) ''new'' ex_start = (Inr (), snd ex_reconciled)"
proof -
  have "fst ex_reconciled = Inr ()" by code_simp
  from pair_fst [OF this] show ?thesis unfolding ex_reconciled_def .
qed

lemma ex_start_unique: "unique_communities (stored ex_start)"
proof -
  have u: "unique_communities (tbl_get ov_Name xs)" if "list_all (\<lambda>x. list_all (\<lambda>y. ov_Name x = ov_Name y \<or> community x = [] \<or> community x \<noteq> community y) xs) xs" for xs
    unfolding unique_communities_def
  proof (intro allI impI, elim conjE)
    fix a b oa ob
    assume "tbl_get ov_Name xs a = Some oa" "tbl_get ov_Name xs b = Some ob" and ab: "a \<noteq> b" "community oa \<noteq> []"
    then have "oa \<in> set xs" "ob \<in> set xs" "ov_Name oa = a" "ov_Name ob = b"
      by (auto simp: tbl_get_def find_Some_iff)
    then show "community oa \<noteq> community ob" using that ab unfolding list_all_iff by blast
  qed
  show ?thesis by (rule u) code_simp
qed

theorem communities_stay_unique_witness:
  "community (the (stored (snd ex_reconciled) ''new'')) \<noteq> community (the (stored (snd ex_reconciled) ''blue''))"
proof -
  have e: "stored (snd ex_reconciled) ''new'' \<noteq> None" "stored (snd ex_reconciled) ''blue'' \<noteq> None"
    "community (the (stored (snd ex_reconciled) ''new'')) \<noteq> []" by code_simp+
  have "cluster_reach (mem_reconciler ex_config) stored ex_start (snd ex_reconciled)"
    by (rule cluster_reach.reconcile [OF cluster_reach.start ex_reconciled_run])
  note r = this
  have ab: "''new'' \<noteq> ''blue''" by simp
  obtain oa ob where o: "stored (snd ex_reconciled) ''new'' = Some oa" "stored (snd ex_reconciled) ''blue'' = Some ob"
    using e(1,2) unfolding not_None_eq by blast
  show ?thesis
    using communities_stay_unique [OF memop.operator_contract_axioms ex_start_unique r o ab] e(3) unfolding o option.sel by blast
qed

text \<open>C18: A reconcile call creates no overlay and never changes a community that was given, for any
  overlay and whatever the outcome of the call: communities are stable.\<close>

theorem community_stable:
  assumes "operator_contract r ovs dps" "nr_Reconcile ns r name s = (res, s')" "ovs s' n = Some ov'"
  shows "\<exists>ov. ovs s n = Some ov \<and> (community ov = [] \<or> community ov' = community ov)"
  using operator_contract.Reconcile_safe [OF assms(1,2)] assms(3) unfolding sound_step_def evolves_def by blast

theorem community_stable_witness: "\<exists>ov. stored ex_start ''blue'' = Some ov \<and>
    (community ov = [] \<or> community (the (stored (snd ex_reconciled) ''blue'')) = community ov)"
proof -
  have "stored (snd ex_reconciled) ''blue'' \<noteq> None" by code_simp
  then obtain o1 where o: "stored (snd ex_reconciled) ''blue'' = Some o1" unfolding not_None_eq by blast
  show ?thesis using community_stable [OF memop.operator_contract_axioms ex_reconciled_run o] unfolding o option.sel .
qed

text \<open>C5: When a reconcile call on an overlay that is not being deleted succeeds, the stored overlay has
  the finalizer, a community, a WireGuard secret, the gateways built from the nodes that carry the
  gateway label, and the edges its specification resolves to; its name and specification are
  unchanged.\<close>

theorem reconcile_settles:
  assumes r: "operator_contract r ovs dps"
    and run: "nr_Reconcile ns r name s = (Inr u, s')" and ov: "GetOverlay (nr_Client r) name s = Inr ov" "\<not> ov_Deleting ov"
  defines "gl \<equiv> oc_GatewayNodeLabel (nr_Config r)"
  shows "\<exists>ov' nodes. ovs s' name = Some ov' \<and> ov_Spec ov' = ov_Spec ov \<and> finalizerName \<in> set (ov_Finalizers ov') \<and>
    community ov' \<noteq> [] \<and> st_WGSecretRef (ov_Status ov') \<noteq> None \<and>
    ListNodes (nr_Client r) gl s = Inr nodes \<and> gateways_of ov' = buildGateways nodes gl \<and>
    resolveEdges (nr_Client r) (nr_Config r) ov s = Inr (edges_of ov')"
  using operator_contract.Reconcile_settles [OF r run ov] unfolding operator_contract.settled_def [OF r] gl_def by blast

theorem reconcile_settles_witness:
  "\<exists>ov'. stored (snd ex_reconciled) ''new'' = Some ov' \<and> finalizerName \<in> set (ov_Finalizers ov') \<and> community ov' \<noteq> [] \<and>
     edges_of ov' = [\<lparr>es_VirtualIP = ''10.200.0.7'', es_PodNamespace = ''default'', es_PodName = ''web-0'', es_PodIP = ''10.244.1.8'',
       es_NodeName = ''node-1'', es_NodeIP = ''10.0.0.21'', es_Ready = True\<rparr>]"
proof -
  have c: "nr_Client (mem_reconciler ex_config) = mem_client" "nr_Config (mem_reconciler ex_config) = ex_config"
    by (simp_all add: mem_reconciler_def)
  have g: "GetOverlay mem_client ''new'' ex_start = Inr ex_fresh" "\<not> ov_Deleting ex_fresh"
    and e: "resolveEdges mem_client ex_config ex_fresh ex_start = Inr [\<lparr>es_VirtualIP = ''10.200.0.7'', es_PodNamespace = ''default'',
      es_PodName = ''web-0'', es_PodIP = ''10.244.1.8'', es_NodeName = ''node-1'', es_NodeIP = ''10.0.0.21'', es_Ready = True\<rparr>]"
    by code_simp+
  show ?thesis
    using reconcile_settles [OF memop.operator_contract_axioms ex_reconciled_run, unfolded c, OF g] unfolding e sum.inject by metis
qed

lemma firstInternalIP_hd: "firstInternalIP as = hd (map snd (filter (\<lambda>a. fst a = NodeInternalIP) as) @ [[]])"
  by (induction as) (auto simp: firstInternalIP_def split: option.splits)

text \<open>C16: The status of an edge is exact: resolving the edges of an overlay gives one status per edge
  of the specification, in their order. Call a pod the host of an edge if the edge's selector parses,
  the pod is the only running pod in the edge's namespace that matches and is not being deleted,
  and its node does not carry the gateway label. If an edge has a host, its status is ready and
  names the pod, its address, its node and the first internal address of the node (empty if it has
  none); otherwise the status is not ready and has only the virtual IP and the namespace.\<close>

theorem edges_resolved:
  assumes res: "resolveEdges k cfg ov s = Inr sts" and gws: "ListNodes k (oc_GatewayNodeLabel cfg) s = Inr gws"
  defines "host \<equiv> \<lambda>e pod. \<exists>sel pods. ParseSelector k (edge_PodLabelsSelector e) = Inr sel \<and>
      ListPods k (edge_PodNamespace e) sel s = Inr pods \<and>
      filter (\<lambda>p. pd_Phase p = ''Running'' \<and> \<not> pd_Deleting p) pods = [pod] \<and> pd_NodeName pod \<notin> nd_Name ` set gws"
  shows "list_all2 (\<lambda>e st.
      (\<forall>pod. host e pod \<longrightarrow> (\<exists>nd. GetNode k (pd_NodeName pod) s = Inr nd \<and>
         st = \<lparr>es_VirtualIP = edge_VirtualIP e, es_PodNamespace = edge_PodNamespace e, es_PodName = pd_Name pod, es_PodIP = pd_PodIP pod,
           es_NodeName = pd_NodeName pod, es_NodeIP = hd (map snd (filter (\<lambda>a. fst a = NodeInternalIP) (nd_Addresses nd)) @ [[]]), es_Ready = True\<rparr>)) \<and>
      ((\<nexists>pod. host e pod) \<longrightarrow>
         st = \<lparr>es_VirtualIP = edge_VirtualIP e, es_PodNamespace = edge_PodNamespace e, es_PodName = [], es_PodIP = [],
           es_NodeName = [], es_NodeIP = [], es_Ready = False\<rparr>))
    (spec_Edges (ov_Spec ov)) sts"
proof -
  have e: "(\<forall>pod. host e pod \<longrightarrow> (\<exists>nd. GetNode k (pd_NodeName pod) s = Inr nd \<and>
         st = pendingEdge e\<lparr>es_PodName := pd_Name pod, es_PodIP := pd_PodIP pod, es_NodeName := pd_NodeName pod,
           es_NodeIP := firstInternalIP (nd_Addresses nd), es_Ready := True\<rparr>)) \<and> ((\<nexists>pod. host e pod) \<longrightarrow> st = pendingEdge e)"
    if r: "resolveEdge k (nodeSet gws) e s = Inr st" for e st
  proof (cases "\<exists>pod. host e pod")
    case True
    then obtain pod where h: "host e pod" ..
    then obtain sel pods where p: "ParseSelector k (edge_PodLabelsSelector e) = Inr sel" "ListPods k (edge_PodNamespace e) sel s = Inr pods"
        "filter (\<lambda>p. pd_Phase p = podRunning \<and> \<not> pd_Deleting p) pods = [pod]" "pd_NodeName pod \<notin> nd_Name ` set gws"
      unfolding host_def podRunning_def by blast
    have u: "q = pod" if "host e q" for q using that p(1,2,3) unfolding host_def podRunning_def by (elim exE conjE) simp
    obtain nd where "GetNode k (pd_NodeName pod) s = Inr nd" "st = pendingEdge e\<lparr>es_PodName := pd_Name pod, es_PodIP := pd_PodIP pod,
        es_NodeName := pd_NodeName pod, es_NodeIP := firstInternalIP (nd_Addresses nd), es_Ready := True\<rparr>"
      using r p nodeSet_has [of gws] by (auto simp: resolveEdge_def split: sum.splits)
    then show ?thesis using h u by blast
  next
    case False
    have "st = pendingEdge e"
    proof (rule ccontr)
      assume n: "st \<noteq> pendingEdge e"
      obtain sel where 1: "ParseSelector k (edge_PodLabelsSelector e) = Inr sel" using r n by (auto simp: resolveEdge_def split: sum.splits)
      obtain pods where 2: "ListPods k (edge_PodNamespace e) sel s = Inr pods" using r 1 by (auto simp: resolveEdge_def split: sum.splits)
      obtain pod where 3: "filter (\<lambda>p. pd_Phase p = podRunning \<and> \<not> pd_Deleting p) pods = [pod]" "pd_NodeName pod \<notin> nd_Name ` set gws"
        using r n 1 2 nodeSet_has [of gws] by (auto simp: resolveEdge_def split: list.splits if_splits)
      show False using False 1 2 3 unfolding host_def podRunning_def by blast
    qed
    then show ?thesis using False by blast
  qed
  have "resolveAll k (nodeSet gws) es s = Inr sts \<Longrightarrow> list_all2 (\<lambda>e st. resolveEdge k (nodeSet gws) e s = Inr st) es sts" for es sts
    by (induction es arbitrary: sts) (auto split: sum.splits)
  then have "list_all2 (\<lambda>e st. resolveEdge k (nodeSet gws) e s = Inr st) (spec_Edges (ov_Spec ov)) sts"
    using res gws unfolding resolveEdges_def by simp
  then show ?thesis
    by (rule list_all2_mono) (drule e, simp only: pendingEdge_def edge_status.simps firstInternalIP_hd)
qed

theorem edges_resolved_witness:
  "resolveEdges mem_client ex_config ex_fresh ex_start = Inr [\<lparr>es_VirtualIP = ''10.200.0.7'', es_PodNamespace = ''default'',
     es_PodName = ''web-0'', es_PodIP = ''10.244.1.8'', es_NodeName = ''node-1'', es_NodeIP = ''10.0.0.21'', es_Ready = True\<rparr>]"
proof -
  let ?res = "resolveEdges mem_client ex_config ex_fresh ex_start"
  have "\<not> isl ?res" by code_simp
  then obtain sts where r: "?res = Inr sts" by (cases ?res) auto
  let ?gws = "filter (\<lambda>nd. gm_has (nd_Labels nd) (oc_GatewayNodeLabel ex_config)) (tbl_list nd_Name (mc_nodes ex_start))"
  have l: "ListNodes mem_client (oc_GatewayNodeLabel ex_config) ex_start = Inr ?gws" by (simp add: mem_client_def)
  have s: "spec_Edges (ov_Spec ex_fresh) = [ex_spec_edge]" by (simp add: ex_fresh_def)
  have p: "ParseSelector mem_client (edge_PodLabelsSelector ex_spec_edge) = Inr (''app'', ''web'')"
    "ListPods mem_client (edge_PodNamespace ex_spec_edge) (''app'', ''web'') ex_start = Inr [ex_pod]"
    "filter (\<lambda>p. pd_Phase p = ''Running'' \<and> \<not> pd_Deleting p) [ex_pod] = [ex_pod]" by code_simp+
  have g: "pd_NodeName ex_pod \<notin> nd_Name ` set ?gws" unfolding set_map [symmetric] by code_simp
  have ip: "map_sum id (\<lambda>nd. hd (map snd (filter (\<lambda>a. fst a = NodeInternalIP) (nd_Addresses nd)) @ [[]]))
      (GetNode mem_client (pd_NodeName ex_pod) ex_start) = Inr ''10.0.0.21''" by code_simp
  obtain st where st: "sts = [st]" and e: "\<forall>pod. (\<exists>sel pods. ParseSelector mem_client (edge_PodLabelsSelector ex_spec_edge) = Inr sel \<and>
      ListPods mem_client (edge_PodNamespace ex_spec_edge) sel ex_start = Inr pods \<and>
      filter (\<lambda>p. pd_Phase p = ''Running'' \<and> \<not> pd_Deleting p) pods = [pod] \<and> pd_NodeName pod \<notin> nd_Name ` set ?gws) \<longrightarrow>
      (\<exists>nd. GetNode mem_client (pd_NodeName pod) ex_start = Inr nd \<and>
         st = \<lparr>es_VirtualIP = edge_VirtualIP ex_spec_edge, es_PodNamespace = edge_PodNamespace ex_spec_edge, es_PodName = pd_Name pod,
           es_PodIP = pd_PodIP pod, es_NodeName = pd_NodeName pod,
           es_NodeIP = hd (map snd (filter (\<lambda>a. fst a = NodeInternalIP) (nd_Addresses nd)) @ [[]]), es_Ready = True\<rparr>)"
    using edges_resolved [OF r l] unfolding s list_all2_Cons1 list_all2_Nil by (elim exE conjE) (rule that, simp only:)
  obtain nd where nd: "GetNode mem_client (pd_NodeName ex_pod) ex_start = Inr nd"
    and "st = \<lparr>es_VirtualIP = edge_VirtualIP ex_spec_edge, es_PodNamespace = edge_PodNamespace ex_spec_edge, es_PodName = pd_Name ex_pod,
      es_PodIP = pd_PodIP ex_pod, es_NodeName = pd_NodeName ex_pod,
      es_NodeIP = hd (map snd (filter (\<lambda>a. fst a = NodeInternalIP) (nd_Addresses nd)) @ [[]]), es_Ready = True\<rparr>"
    using e [THEN spec, THEN mp, OF exI, OF exI, OF conjI, OF p(1) conjI, OF p(2) conjI, OF p(3) g] by (elim exE conjE) (rule that)
  moreover have "hd (map snd (filter (\<lambda>a. fst a = NodeInternalIP) (nd_Addresses nd)) @ [[]]) = ''10.0.0.21''"
    using ip unfolding nd by simp
  ultimately show ?thesis unfolding r st by (simp only: ex_spec_edge_def ex_pod_def edge.simps pod.simps)
qed

text \<open>C28: The gateways of the status are sorted by node name, one per labelled node with the last
  internal and the last external address the node reports (the zero value if there is none), marked
  secondary iff the label says so; and, node names being unique, they do not depend on the order in
  which the nodes were listed, so that the status does not change when nothing else did.\<close>

theorem buildGateways_exact:
  assumes "mset nodes' = mset nodes" "distinct (map nd_Name nodes)"
  defines "ip \<equiv> (\<lambda>nd ty. last ([] # map snd (filter (\<lambda>a. fst a = ty) (nd_Addresses nd))))"
  shows "buildGateways nodes' l = buildGateways nodes l \<and> sorted (map gw_NodeName (buildGateways nodes l)) \<and>
    mset (buildGateways nodes l) = mset (map (\<lambda>nd. \<lparr>gw_NodeName = nd_Name nd, gw_NodeIP = ip nd NodeInternalIP,
      gw_PublicIP = ip nd NodeExternalIP, gw_IsSecondary = (label (nd_Labels nd) l = ''secondary'')\<rparr>) nodes)"
proof -
  have g: "gw_of_node l nd = \<lparr>gw_NodeName = nd_Name nd, gw_NodeIP = ip nd NodeInternalIP,
      gw_PublicIP = ip nd NodeExternalIP, gw_IsSecondary = (label (nd_Labels nd) l = ''secondary'')\<rparr>" for nd
    by (rule gateway.equality) (simp_all add: gw_of_node_def gw_fold ip_def)
  have n: "gw_NodeName \<circ> gw_of_node l = nd_Name" by (rule ext) (simp add: g)
  have "distinct (map (gw_NodeName \<circ> gw_of_node l) nodes)" unfolding n by (rule assms(2))
  then have "inj_on gw_NodeName (set (map (gw_of_node l) nodes))" by (simp add: distinct_map inj_on_imageI)
  then have "sort_key gw_NodeName (map (gw_of_node l) nodes') = sort_key gw_NodeName (map (gw_of_node l) nodes)"
    by (intro sort_key_mset_unique [symmetric]) (simp_all add: assms(1))
  then show ?thesis unfolding buildGateways_def mset_sort g [symmetric] by simp
qed

theorem buildGateways_exact_witness:
  "buildGateways (rev (mc_nodes ex_cluster)) ex_label = buildGateways (mc_nodes ex_cluster) ex_label"
proof -
  have "distinct (map nd_Name (mc_nodes ex_cluster))" by code_simp
  from buildGateways_exact [OF mset_rev this] show ?thesis by blast
qed

text \<open>C19: When a reconcile call on an overlay that is being deleted succeeds, the overlay has lost the
  finalizer (and is gone if that was the last one), and the internal agents run on exactly the nodes
  that host a ready edge of one of the other overlays and carry no gateway label.\<close>

theorem deletion_completes:
  assumes r: "operator_contract r ovs dps" and run: "nr_Reconcile ns r name s = (Inr u, s')"
    and ov: "GetOverlay (nr_Client r) name s = Inr ov" "ov_Deleting ov" "finalizerName \<in> set (ov_Finalizers ov)"
    and gws: "ListNodes (nr_Client r) (oc_GatewayNodeLabel (nr_Config r)) s = Inr gws"
  defines "hosts \<equiv> {es_NodeName e | e o1 n. ovs s n = Some o1 \<and> n \<noteq> name \<and> e \<in> set (edges_of o1) \<and> es_Ready e \<and> es_NodeName e \<noteq> []}
    - nd_Name ` set gws"
  shows "(\<forall>ov'. ovs s' name = Some ov' \<longrightarrow> finalizerName \<notin> set (ov_Finalizers ov')) \<and>
    (ov_Finalizers ov = [finalizerName] \<longrightarrow> ovs s' name = None) \<and>
    {label (dp_Labels d) nodeKey | d n. dps s' (oc_Namespace (nr_Config r), n) = Some d \<and>
      gm_get (dp_Labels d) componentKey = Some internalComponent} = hosts"
  by (rule operator_contract.deletion_effect [OF r run ov gws, folded hosts_def])

definition ex_dying :: overlay where
  "ex_dying = ex_red\<lparr>ov_Deleting := True, ov_Finalizers := [finalizerName]\<rparr>"

definition ex_before :: mem_cluster where
  "ex_before = ex_cluster\<lparr>mc_overlays := [ex_blue, ex_dying],
     mc_deployments := gatewayMutate ''img'' [ex_dying] ''primary'' [] (new_deployment ''sys'' (gatewayDeplName ''primary'')) # mc_deployments ex_cluster\<rparr>"

definition ex_deleted :: "(go_error + unit) \<times> mem_cluster" where
  "ex_deleted = nr_Reconcile [] (mem_reconciler ex_config) ''red'' ex_before"

lemma ex_deleted_run: "nr_Reconcile [] (mem_reconciler ex_config) ''red'' ex_before = (Inr (), snd ex_deleted)"
proof -
  have "fst ex_deleted = Inr ()" by code_simp
  from pair_fst [OF this] show ?thesis unfolding ex_deleted_def .
qed

lemma mem_reconciler_sel: "nr_Client (mem_reconciler cfg) = mem_client" "nr_Config (mem_reconciler cfg) = cfg"
  by (simp_all add: mem_reconciler_def)

lemma ex_dying_get:
  "GetOverlay (nr_Client (mem_reconciler ex_config)) ''red'' ex_before = Inr ex_dying" "ov_Deleting ex_dying"
  "finalizerName \<in> set (ov_Finalizers ex_dying)"
  unfolding mem_reconciler_sel by code_simp+

theorem deletion_completes_witness: "stored (snd ex_deleted) ''red'' = None"
proof -
  have l: "ListNodes (nr_Client (mem_reconciler ex_config)) (oc_GatewayNodeLabel (nr_Config (mem_reconciler ex_config))) ex_before =
      Inr (filter (\<lambda>nd. gm_has (nd_Labels nd) ex_label) (tbl_list nd_Name (mc_nodes ex_before)))"
    unfolding mem_reconciler_sel by (simp add: mem_client_def ex_config_def)
  have "ov_Finalizers ex_dying = [finalizerName]" by (simp add: ex_dying_def)
  then show ?thesis using deletion_completes [OF memop.operator_contract_axioms ex_deleted_run ex_dying_get l] by blast
qed

text \<open>C35: The deletion of an overlay does not touch the gateway deployments: a gateway deployment
  that mounts the WireGuard secret of the deleted overlay still mounts it afterwards.\<close>

theorem deletion_keeps_gateway_deployments:
  assumes r: "operator_contract r ovs dps" and run: "nr_Reconcile ns r name s = (Inr u, s')"
    and ov: "GetOverlay (nr_Client r) name s = Inr ov" "ov_Deleting ov" "finalizerName \<in> set (ov_Finalizers ov)"
    and d: "dps s (oc_Namespace (nr_Config r), gatewayDeplName role) = Some d" "gm_get (dp_Labels d) componentKey \<noteq> Some internalComponent"
  shows "dps s' (oc_Namespace (nr_Config r), gatewayDeplName role) = Some d"
proof -
  have h: "nr_handleDeletion ns r ov s = (Inr u, s')" using run ov by (simp add: nr_Reconcile_def)
  have n: "gatewayDeplName role \<noteq> internalDeplName x" for x by (simp add: gatewayDeplName_def internalDeplName_def)
  show ?thesis using operator_contract.deletion_leaves_others [OF r h ov(3) n] d by simp
qed

theorem deletion_keeps_gateway_deployments_witness:
  "\<exists>d. tbl_get dp_key (mc_deployments (snd ex_deleted)) (''sys'', gatewayDeplName ''primary'') = Some d"
proof -
  define d where "d = gatewayMutate ''img'' [ex_dying] ''primary'' [] (new_deployment ''sys'' (gatewayDeplName ''primary''))"
  have c: "oc_Namespace ex_config = ''sys''" by (simp add: ex_config_def)
  have g: "tbl_get dp_key (mc_deployments ex_before) (''sys'', gatewayDeplName ''primary'') = Some d"
    "gm_get (dp_Labels d) componentKey \<noteq> Some internalComponent" unfolding d_def by code_simp+
  show ?thesis
    using deletion_keeps_gateway_deployments [OF memop.operator_contract_axioms ex_deleted_run ex_dying_get, unfolded mem_reconciler_sel c, OF g] by blast
qed

text \<open>C34: In this phase, where no key pair can be made, no overlay that is not being deleted is ever
  reconciled: the call ends with an error and no agent deployment is created, changed or deleted.\<close>

theorem phase1_never_deploys:
  assumes "operator_contract (operator_reconciler k cfg) ovs dps"
    and run: "nr_Reconcile ns (operator_reconciler k cfg) name s = (res, s')"
    and ov: "GetOverlay k name s = Inr ov" "\<not> ov_Deleting ov"
  shows "(\<exists>err. res = Inl err) \<and> dps s' = dps s"
proof -
  have "nr_Client (operator_reconciler k cfg) = k" by (simp add: operator_reconciler_def)
  then have l: "nr_reconcileLive ns (operator_reconciler k cfg) ov s = (res, s')" using run ov by (simp add: nr_Reconcile_def)
  show ?thesis
    by (rule operator_contract.keys_fail_no_agents [OF assms(1) _ l]) (simp add: operator_reconciler_def EnsureKeyPair_def op_fail_def)
qed

theorem phase1_never_deploys_witness:
  "\<exists>err. fst (nr_Reconcile [] (operator_reconciler mem_client ex_config) ''new'' ex_start) = Inl err"
proof -
  have g: "GetOverlay mem_client ''new'' ex_start = Inr ex_fresh" "\<not> ov_Deleting ex_fresh" by code_simp+
  show ?thesis using phase1_never_deploys [OF phase1.operator_contract_axioms surjective_pairing g] by blast
qed

text \<open>A configuration that loads is complete: the ASN is not zero and every other field is not
  empty, fields that the file sets being kept; and loading fails exactly when the file cannot be
  read or parsed or sets no ASN.\<close>

theorem operator_config_complete:
  assumes "NewYAML path = Inr p" "Populate p = Inr cfg0"
  shows "case oc_Load NewYAML Populate path of
      Inl err \<Rightarrow> oc_ASN cfg0 = 0
    | Inr cfg \<Rightarrow> oc_ASN cfg = oc_ASN cfg0 \<and> oc_ASN cfg \<noteq> 0 \<and>
        (\<forall>f \<in> {oc_Namespace, oc_AgentImage, oc_GatewayNodeLabel, oc_LogLevel}. f cfg \<noteq> [] \<and> (f cfg0 \<noteq> [] \<longrightarrow> f cfg = f cfg0))"
  using assms by (simp add: oc_Load_def Let_def oc_validate_def oc_applyDefaults_def)

theorem operator_config_complete_witness:
  "\<exists>cfg. oc_Load (\<lambda>path. Inr path) (\<lambda>p. Inr (ex_config\<lparr>oc_Namespace := []\<rparr>)) ''operator.yaml'' = Inr cfg \<and> oc_Namespace cfg \<noteq> []"
proof -
  let ?l = "oc_Load (\<lambda>path. Inr path) (\<lambda>p. Inr (ex_config\<lparr>oc_Namespace := []\<rparr>)) ''operator.yaml''"
  have "\<not> isl ?l" by code_simp
  then obtain cfg where c: "?l = Inr cfg" by (cases ?l) auto
  show ?thesis using operator_config_complete [of "\<lambda>path. Inr path" "''operator.yaml''" _ "\<lambda>p. Inr (ex_config\<lparr>oc_Namespace := []\<rparr>)", OF refl refl]
    unfolding c by simp
qed

end
