(* ===== verification/Operator_Live.thy ===== *)
theory Operator_Live
  imports Operator_Properties
begin

text \<open>
  Total correctness of the controller: when the API server and the key generator do their work, a
  call of \<open>Reconcile\<close> succeeds, and a second call finds nothing to change in the overlays and
  brings the internal agents in line with the edges that the first one resolved.
\<close>

section \<open>Operations that succeed\<close>

definition op_succ :: "('c \<Rightarrow> bool) \<Rightarrow> ('c, 'a) op \<Rightarrow> bool" where
  "op_succ P m \<longleftrightarrow> (\<forall>s. P s \<longrightarrow> (\<exists>x. fst (m s) = Inr x))"

named_theorems op_succ_rules "success of composed operations"

lemma op_succI: "(\<And>s. P s \<Longrightarrow> \<exists>x. fst (m s) = Inr x) \<Longrightarrow> op_succ P m"
  by (simp add: op_succ_def)

lemma op_succE:
  assumes "op_succ P m" "P s"
  obtains x s' where "m s = (Inr x, s')"
proof -
  obtain x where "fst (m s) = Inr x" using assms unfolding op_succ_def by blast
  from pair_fst [OF this] that show thesis by blast
qed

lemma op_succ_ret [op_succ_rules]: "op_succ P (op_ret x)"
  by (simp add: op_succ_def op_ret_def)

lemma op_succ_read: "(\<And>s. P s \<Longrightarrow> \<exists>x. f s = Inr x) \<Longrightarrow> op_succ P (op_read f)"
  by (simp add: op_succ_def op_read_def)

lemma op_succ_wrap [op_succ_rules]: "op_succ P m \<Longrightarrow> op_succ P (op_wrap t m)"
  unfolding op_succ_def op_wrap_def by (fastforce split: prod.splits sum.splits)

lemma op_succ_call: "(\<And>s. P s \<Longrightarrow> fst (f s) = None) \<Longrightarrow> op_succ P (op_call f)"
  unfolding op_succ_def op_call_def by (fastforce split: prod.splits option.splits)

lemma op_succ_if [op_succ_rules]: "(b \<Longrightarrow> op_succ P m) \<Longrightarrow> (\<not> b \<Longrightarrow> op_succ P m') \<Longrightarrow> op_succ P (if b then m else m')"
  by simp

lemma op_succ_weaken: "op_succ P m \<Longrightarrow> (\<And>s. P' s \<Longrightarrow> P s) \<Longrightarrow> op_succ P' m"
  by (simp add: op_succ_def)

lemma op_succ_bind:
  assumes "op_succ P m" "op_valid P m Q I" "\<And>x. op_succ (Q x) (f x)"
  shows "op_succ P (op_bind m f)"
proof (rule op_succI)
  fix s assume "P s"
  obtain x s1 where m: "m s = (Inr x, s1)" by (rule op_succE [OF assms(1) \<open>P s\<close>])
  then have "Q x s1" using op_validD(2) [OF assms(2) \<open>P s\<close>] by blast
  then show "\<exists>y. fst (op_bind m f s) = Inr y" using assms(3) [of x] m by (simp add: op_succ_def op_bind_def)
qed

text \<open>Without preconditions.\<close>

abbreviation op_always :: "('c, 'a) op \<Rightarrow> bool" where
  "op_always m \<equiv> op_succ (\<lambda>_. True) m"

lemma op_always_bind [op_succ_rules]: "op_always m \<Longrightarrow> (\<And>x. op_always (f x)) \<Longrightarrow> op_always (op_bind m f)"
  by (rule op_succ_bind [where Q = "\<lambda>_ _. True" and I = "\<lambda>_. True"]) (simp_all add: op_valid_def)

lemma op_always_each [op_succ_rules]: "(\<And>x. op_always (f x)) \<Longrightarrow> op_always (op_each f xs)"
  by (induction xs) (simp_all add: op_succ_rules)

section \<open>A cluster that does its work\<close>

text \<open>Running pods are on nodes that exist.\<close>

definition pods_placed :: "('c, 'l) kclient \<Rightarrow> 'c \<Rightarrow> bool" where
  "pods_placed k s \<longleftrightarrow> (\<forall>ns sel pods p. ListPods k ns sel s = Inr pods \<longrightarrow> p \<in> set pods \<longrightarrow>
     pd_Phase p = podRunning \<longrightarrow> (\<exists>nd. GetNode k (pd_NodeName p) s = Inr nd))"

text \<open>
  Every call succeeds that the API server has no reason to refuse: patches of objects that exist,
  \<open>CreateOrUpdate\<close> with a mutation that keeps name and namespace. The key generator has one key pair
  per overlay, made on the first call.
\<close>

locale available_operator = operator_contract r ovs dps
  for r :: "('c, 'l) reconciler" and ovs dps +
  fixes kp :: "string \<Rightarrow> string \<times> string"
  assumes get_ok: "ovs s n = Some ov \<Longrightarrow> GetOverlay (nr_Client r) n s = Inr ov"
      "ovs s n = None \<Longrightarrow> \<exists>x. GetOverlay (nr_Client r) n s = Inl (NotFound x)"
    and lists_ok: "\<exists>os. ListOverlays (nr_Client r) s = Inr os" "\<exists>nds. ListNodes (nr_Client r) l s = Inr nds"
      "\<exists>ds. ListDeployments (nr_Client r) ns lab s = Inr ds" "\<exists>ps. ListPods (nr_Client r) ns sel s = Inr ps"
    and patch_ok: "ovs s (ov_Name new) \<noteq> None \<Longrightarrow> \<exists>x. fst (PatchStatus (nr_Client r) base new s) = Inr x"
      "ovs s (ov_Name new) \<noteq> None \<Longrightarrow> \<exists>x. fst (PatchOverlay (nr_Client r) base new s) = Inr x"
    and delete_ok: "IgnoreNotFound (fst (DeleteDeployment (nr_Client r) d s)) = None"
    and create_ok: "(\<And>d. dp_Namespace (f d) = dp_Namespace d \<and> dp_Name (f d) = dp_Name d) \<Longrightarrow>
      fst (CreateOrUpdate (nr_Client r) ns n f s) = None"
    and keys_ok: "fst (nr_Keys r ov s) = Inr (kp (ov_Name ov))"
    and rbac_ok: "fst (nr_EnsureRBAC r ns s) = None"
begin

lemma gatewayMutate_key:
  "dp_Namespace (gatewayMutate img overlays role nodes d) = dp_Namespace d \<and> dp_Name (gatewayMutate img overlays role nodes d) = dp_Name d"
  by (simp add: gatewayMutate_def Let_def split: prod.splits)

lemma gateway_agents_succeed: "op_always (EnsureGatewayDeployments (nr_Client r) namespace img gl overlays)"
  unfolding EnsureGatewayDeployments_def
  by (intro op_succ_rules op_succ_read op_succ_call create_ok gatewayMutate_key lists_ok)

lemma internal_agents_succeed: "op_always (EnsureInternalDeployments ns (nr_Client r) namespace img gl overlays)"
proof -
  have "fst (case DeleteDeployment (nr_Client r) d s of (e, s') \<Rightarrow> (IgnoreNotFound e, s')) = None" for d s
    using delete_ok [of d s] by (simp split: prod.splits) (metis fst_conv)
  then show ?thesis unfolding EnsureInternalDeployments_def Let_def deleteStale_def ensureInternal_def
    by (intro op_succ_rules op_succ_read op_succ_call create_ok lists_ok) simp_all
qed

lemma agents_succeed: "op_always (nr_ensureAgents ns r)"
  unfolding nr_ensureAgents_def Let_def
  by (intro op_succ_rules op_succ_read op_succ_call gateway_agents_succeed internal_agents_succeed lists_ok rbac_ok)

abbreviation placed :: "'c \<Rightarrow> bool" where
  "placed s \<equiv> pods_placed (nr_Client r) s"

lemma resolveEdge_ok:
  assumes "placed s"
  shows "\<exists>st. resolveEdge (nr_Client r) gs e s = Inr st"
proof -
  have nd: "\<exists>nd. GetNode (nr_Client r) (pd_NodeName pod) s = Inr nd"
    if "ListPods (nr_Client r) ns sel s = Inr pods" "filter (\<lambda>p. pd_Phase p = podRunning \<and> \<not> pd_Deleting p) pods = [pod]" for ns sel pods pod
  proof -
    have "pod \<in> set (filter (\<lambda>p. pd_Phase p = podRunning \<and> \<not> pd_Deleting p) pods)" unfolding that(2) by simp
    then show ?thesis using assms that(1) unfolding pods_placed_def by auto
  qed
  show ?thesis
  proof (cases "ParseSelector (nr_Client r) (edge_PodLabelsSelector e)")
    case (Inr sel)
    obtain pods where l: "ListPods (nr_Client r) (edge_PodNamespace e) sel s = Inr pods" using lists_ok(4) by blast
    show ?thesis using nd [OF l] by (auto simp: resolveEdge_def Inr l split: list.split)
  qed (simp add: resolveEdge_def)
qed

lemma resolveEdges_ok:
  assumes "placed s"
  shows "\<exists>es. resolveEdges (nr_Client r) (nr_Config r) ov s = Inr es"
proof -
  have "\<exists>sts. resolveAll (nr_Client r) gs es s = Inr sts" for gs es
  proof (induction es)
    case (Cons e es)
    then show ?case using resolveEdge_ok [OF assms, of gs e] by auto
  qed simp
  moreover obtain nds where "ListNodes (nr_Client r) (oc_GatewayNodeLabel (nr_Config r)) s = Inr nds" using lists_ok(2) by blast
  ultimately show ?thesis by (simp add: resolveEdges_def)
qed

lemma placed_world: "world (nr_Client r) s = world (nr_Client r) s' \<Longrightarrow> placed s = placed s'"
  unfolding pods_placed_def world_def prod.inject fun_eq_iff by simp

section \<open>A call succeeds\<close>

lemma allocation_succeeds:
  assumes "sound_step m0 (ovs s)" "ovs s name \<noteq> None" "finite (dom m0)" "card (dom m0) \<le> 65535" "ListOverlays (nr_Client r) s = Inr items"
  shows "\<exists>c. allocate asn name items = Inr c"
proof (rule ccontr)
  assume "\<nexists>c. allocate asn name items = Inr c"
  then have "\<exists>e. allocate asn name items = Inl e" by (metis sum.exhaust)
  then have sub: "set (pool asn) \<subseteq> community ` {o1 \<in> set items. ov_Name o1 \<noteq> name}" unfolding allocate_fails .
  have d: "dom (ovs s) \<subseteq> dom m0" using assms(1) unfolding sound_step_def evolves_def by blast
  then have fin: "finite (dom (ovs s) - {name})" using assms(3) finite_subset by blast
  have "{o1 \<in> set items. ov_Name o1 \<noteq> name} \<subseteq> (\<lambda>n. the (ovs s n)) ` (dom (ovs s) - {name})"
  proof
    fix o1 assume "o1 \<in> {o1 \<in> set items. ov_Name o1 \<noteq> name}"
    then obtain n where n: "ovs s n = Some o1" "ov_Name o1 \<noteq> name" unfolding list_overlays [OF assms(5)] by (auto simp: ran_def)
    then show "o1 \<in> (\<lambda>n. the (ovs s n)) ` (dom (ovs s) - {name})" using ovs_name [OF n(1)] by (intro image_eqI [of _ _ n]) auto
  qed
  then have sub': "set (pool asn) \<subseteq> (\<lambda>n. community (the (ovs s n))) ` (dom (ovs s) - {name})"
    using sub by (fastforce simp: image_iff)
  have "65535 = card (set (pool asn))" using pool_length pool_distinct distinct_card by metis
  also have "\<dots> \<le> card (dom (ovs s) - {name})" by (rule surj_card_le [OF fin sub'])
  also have "\<dots> < card (dom (ovs s))"
    by (rule card_Diff1_less) (use assms(2,3) d finite_subset in auto)
  also have "\<dots> \<le> 65535" using card_mono [OF assms(3) d] assms(4) by simp
  finally show False by simp
qed

lemma patch_succ:
  "ov_Name new = ov_Name ov \<Longrightarrow> op_succ (holds m0 w ov) (PatchStatus (nr_Client r) base new)"
  "ov_Name new = ov_Name ov \<Longrightarrow> op_succ (holds m0 w ov) (PatchOverlay (nr_Client r) base new)"
  by (auto intro!: op_succI patch_ok simp: current_def)

lemma finalizer_succ: "op_succ (holds m0 w ov) (nr_ensureFinalizer r ov)"
proof -
  obtain fs where "AddFinalizer (nr_Client r) ov finalizerName = ov\<lparr>ov_Finalizers := fs\<rparr>" using add_finalizer by blast
  then show ?thesis unfolding nr_ensureFinalizer_def by (intro op_succ_rules patch_succ) simp
qed

lemma gateways_succ: "op_succ (holds m0 w ov) (nr_syncGateways r ov)"
  unfolding nr_syncGateways_def Let_def
  by (rule op_succ_bind [where Q = "\<lambda>_. holds m0 w ov" and I = "\<lambda>_. True"])
    (intro op_succ_rules op_succ_read op_valid_read lists_ok patch_succ; simp add: set_gateways_def)+

lemma community_succ:
  assumes "finite (dom m0)" "card (dom m0) \<le> 65535"
  shows "op_succ (holds m0 w ov) (nr_ensureCommunity r ov)"
proof -
  have a: "op_succ (holds m0 w ov) (nr_allocateCommunity r (ov_Name ov))"
    unfolding nr_allocateCommunity_def
  proof (rule op_succ_bind [where Q = "\<lambda>items s. holds m0 w ov s \<and> ListOverlays (nr_Client r) s = Inr items" and I = "\<lambda>_. True"])
    show "op_succ (\<lambda>s. holds m0 w ov s \<and> ListOverlays (nr_Client r) s = Inr items)
        (op_read (\<lambda>_. allocate (oc_ASN (nr_Config r)) (ov_Name ov) items))" for items
      by (rule op_succ_read) (auto simp: current_def intro: allocation_succeeds [OF _ _ assms])
  qed (auto intro!: op_succ_read op_valid_read lists_ok)
  have f: "op_valid (holds m0 w ov) (op_wrap t (nr_allocateCommunity r n)) (\<lambda>_. holds m0 w ov) (\<lambda>_. True)" for t n
    unfolding nr_allocateCommunity_def
    by (intro op_valid_wrap op_valid_bind [where Q = "\<lambda>_. holds m0 w ov"] op_valid_read) simp_all
  show ?thesis unfolding nr_ensureCommunity_def
    by (intro op_succ_rules op_succ_bind [OF op_succ_wrap [OF a] f] patch_succ) (simp add: set_community_def)
qed

lemma keys_held: "op_valid (holds m0 w ov) (op_wrap t (nr_Keys r ov)) (\<lambda>x s. holds m0 w ov s \<and> x = kp (ov_Name ov)) (safe m0)"
proof (intro op_valid_wrap op_validI)
  fix s res s' assume h: "holds m0 w ov s" and k: "nr_Keys r ov s = (res, s')"
  have "ovs s' = ovs s \<and> world (nr_Client r) s' = world (nr_Client r) s" using op_frameD [OF keys_frame k] by simp
  then have h': "holds m0 w ov s'" using h by (simp add: current_def)
  then show "safe m0 s'" by (simp add: current_def)
next
  fix s x s' assume h: "holds m0 w ov s" and k: "nr_Keys r ov s = (Inr x, s')"
  have "ovs s' = ovs s \<and> world (nr_Client r) s' = world (nr_Client r) s" using op_frameD [OF keys_frame k] by simp
  then show "holds m0 w ov s' \<and> x = kp (ov_Name ov)" using h k keys_ok [of ov s] by (simp add: current_def)
qed

lemma keys_succ: "op_succ (holds m0 w ov) (nr_ensureKeys r ov)"
  unfolding nr_ensureKeys_def case_prod_beta
proof (rule op_succ_bind [OF _ keys_held])
  show "op_succ (holds m0 w ov) (op_wrap ''ensure WG keypair'' (nr_Keys r ov))"
    by (intro op_succ_rules op_succI) (simp add: keys_ok)
qed (rule op_succ_weaken [where P = "holds m0 w ov"], (intro op_succ_rules patch_succ; simp add: set_keys_def), simp)

lemma edges_succ:
  assumes "w = world (nr_Client r) s0" "placed s0"
  shows "op_succ (holds m0 w ov) (nr_syncEdges r ov)"
  unfolding nr_syncEdges_def
proof (rule op_succ_bind [where Q = "\<lambda>_. holds m0 w ov" and I = "\<lambda>_. True"])
  have "placed s" if "holds m0 w ov s" for s
  proof -
    have "world (nr_Client r) s = world (nr_Client r) s0" using that assms(1) by simp
    from placed_world [OF this] show ?thesis using assms(2) by blast
  qed
  then show "op_succ (holds m0 w ov) (op_wrap ''resolve edges'' (op_read (resolveEdges (nr_Client r) (nr_Config r) ov)))"
    by (intro op_succ_rules op_succ_read resolveEdges_ok)
  show "op_valid (holds m0 w ov) (op_wrap ''resolve edges'' (op_read (resolveEdges (nr_Client r) (nr_Config r) ov))) (\<lambda>_. holds m0 w ov) (\<lambda>_. True)"
    by (intro op_valid_wrap op_valid_read) simp_all
  fix es
  have n: "ov_Name (set_edges es ov) = ov_Name ov" by (simp add: set_edges_def)
  have "op_succ (holds m0 w ov) (op_bind (PatchStatus (nr_Client r) ov (set_edges es ov)) (\<lambda>_. op_ret ()))"
    by (rule op_succ_bind [OF patch_succ(1) [OF n] _ op_succ_ret, where Q = "\<lambda>_ _. True" and I = "\<lambda>_. True"]) (simp add: op_valid_def)
  then show "op_succ (holds m0 w ov) (if st_Edges (ov_Status ov) \<noteq> Some es
      then op_bind (PatchStatus (nr_Client r) ov (set_edges es ov)) (\<lambda>_. op_ret ()) else op_ret ())"
    by (intro op_succ_rules)
qed

text \<open>The blocks hand on the stored overlay.\<close>

lemma blocks_hold:
  "\<not> ov_Deleting x \<Longrightarrow> op_valid (holds m0 w x) (nr_ensureFinalizer r x) (\<lambda>y s. holds m0 w y s \<and> ov_Name y = ov_Name x) (safe m0)"
  "op_valid (holds m0 w x) (nr_syncGateways r x) (\<lambda>y s. holds m0 w y s \<and> ov_Name y = ov_Name x) (safe m0)"
  "op_valid (holds m0 w x) (nr_ensureCommunity r x) (\<lambda>y s. holds m0 w y s \<and> ov_Name y = ov_Name x) (safe m0)"
  "op_valid (holds m0 w x) (nr_ensureKeys r x) (\<lambda>y s. holds m0 w y s \<and> ov_Name y = ov_Name x) (safe m0)"
  by (rule op_valid_conseq [OF finalizer_valid] op_valid_conseq [OF gateways_valid] op_valid_conseq [OF community_valid]
      op_valid_conseq [OF keys_valid]; auto)+

lemma op_succ_pure: "(F \<Longrightarrow> op_succ P m) \<Longrightarrow> op_succ (\<lambda>s. P s \<and> F) m"
  by (auto simp: op_succ_def)

lemma live_succ:
  assumes d: "\<not> ov_Deleting ov" and f: "finite (dom m0)" "card (dom m0) \<le> 65535" and s0: "placed s0"
  shows "op_succ (holds m0 (world (nr_Client r) s0) ov) (nr_reconcileLive ns r ov)"
  unfolding nr_reconcileLive_def
  by (rule op_succ_bind [OF finalizer_succ blocks_hold(1) [OF d]], rule op_succ_pure,
      rule op_succ_bind [OF gateways_succ blocks_hold(2)], rule op_succ_pure,
      rule op_succ_bind [OF community_succ [OF f] blocks_hold(3)], rule op_succ_pure,
      rule op_succ_bind [OF keys_succ blocks_hold(4)], rule op_succ_pure,
      rule op_succ_bind [OF op_succ_weaken [OF agents_succeed TrueI] agents_valid], rule edges_succ [OF refl s0])

lemma deletion_succ: "op_succ (\<lambda>s. ovs s (ov_Name ov) \<noteq> None) (nr_handleDeletion ns r ov)"
proof -
  let ?P = "\<lambda>s. ovs s (ov_Name ov) \<noteq> None"
  obtain fs where fs: "RemoveFinalizer (nr_Client r) ov finalizerName = ov\<lparr>ov_Finalizers := fs\<rparr>" using remove_finalizer by blast
  have p: "op_succ ?P (op_bind (PatchOverlay (nr_Client r) ov (RemoveFinalizer (nr_Client r) ov finalizerName)) (\<lambda>_. op_ret ()))"
    by (rule op_succ_bind [where Q = "\<lambda>_ _. True" and I = "\<lambda>_. True"]) (auto intro!: op_succI op_succ_ret patch_ok simp: fs op_valid_def)
  have e: "op_valid ?P (op_wrap t (EnsureInternalDeployments ns (nr_Client r) a b c os)) (\<lambda>_. ?P) ?P" for t a b c os
    by (rule op_valid_wrap, rule op_valid_frame [OF ovs_frame_agents(2), where P = "\<lambda>m. m (ov_Name ov) \<noteq> None"])
  have l: "op_valid ?P (op_read (ListOverlays (nr_Client r))) (\<lambda>_. ?P) ?P" by (rule op_valid_read) simp_all
  show ?thesis unfolding nr_handleDeletion_def Let_def
    by (intro op_succ_rules op_succ_bind [OF op_succ_read l] lists_ok
        op_succ_bind [OF op_succ_wrap [OF op_succ_weaken [OF internal_agents_succeed TrueI]] e] p)
qed

lemma Reconcile_succeeds:
  assumes "placed s" "finite (dom (ovs s))" "card (dom (ovs s)) \<le> 65535"
  shows "\<exists>s'. nr_Reconcile ns r name s = (Inr (), s')"
proof (cases "ovs s name")
  case None
  then obtain x where "GetOverlay (nr_Client r) name s = Inl (NotFound x)" using get_ok(2) by blast
  then show ?thesis by (simp add: nr_Reconcile_def)
next
  case (Some ov)
  have g: "GetOverlay (nr_Client r) name s = Inr ov" by (rule get_ok(1) [OF Some])
  have n: "ovs s (ov_Name ov) = Some ov" using Some ovs_name [OF Some] by simp
  show ?thesis
  proof (cases "ov_Deleting ov")
    case True
    have "ovs s (ov_Name ov) \<noteq> None" using n by simp
    then obtain s' where "nr_handleDeletion ns r ov s = (Inr (), s')" using op_succE [OF deletion_succ, of s ov ns] by (metis old.unit.exhaust)
    then show ?thesis using g True by (simp add: nr_Reconcile_def)
  next
    case False
    have h: "holds (ovs s) (world (nr_Client r) s) ov s" using n by (simp add: current_def)
    obtain x s' where "nr_reconcileLive ns r ov s = (Inr x, s')" by (rule op_succE [OF live_succ [OF False assms(2,3,1)] h])
    then show ?thesis using g False by (simp add: nr_Reconcile_def)
  qed
qed

section \<open>What a call keeps\<close>

text \<open>Nodes and pods.\<close>

lemma world_patch:
  "op_frame (world (nr_Client r)) (PatchStatus (nr_Client r) b n)" "op_frame (world (nr_Client r)) (PatchOverlay (nr_Client r) b n)"
  using world_frame(1,2) by (simp_all add: op_frame_def)

lemma op_frame_if: "op_frame v m \<Longrightarrow> op_frame v m' \<Longrightarrow> op_frame v (if b then m else m')"
  by simp

lemma op_frame_ret: "op_frame v (op_ret x)"
  by (simp add: op_frame_def op_ret_def)

lemma world_live: "op_frame (world (nr_Client r)) (nr_reconcileLive ns r ov)"
proof -
  have k: "op_frame (world (nr_Client r)) (nr_Keys r x)" for x using keys_frame [of x] by (simp add: op_frame_def)
  have a: "op_frame (world (nr_Client r)) (nr_ensureAgents ns r)" using agents_frame [of ns] by (simp add: op_frame_def)
  show ?thesis
    unfolding nr_reconcileLive_def nr_ensureFinalizer_def nr_syncGateways_def nr_ensureCommunity_def nr_allocateCommunity_def
      nr_ensureKeys_def nr_syncEdges_def Let_def case_prod_beta
    by (intro op_frame_bind op_frame_wrap op_frame_if op_frame_read op_frame_ret world_patch k a)
qed

text \<open>A property of the stored overlay that a patch does not affect.\<close>

lemma patch_inv:
  "(\<And>st x. status_patched b c st x \<Longrightarrow> J st \<Longrightarrow> J x) \<Longrightarrow> op_inv (\<lambda>s. \<forall>x. ovs s n = Some x \<longrightarrow> J x) (PatchStatus (nr_Client r) b c)"
  "(\<And>st x. object_patched b c st x \<Longrightarrow> J st \<Longrightarrow> J x) \<Longrightarrow> op_inv (\<lambda>s. \<forall>x. ovs s n = Some x \<longrightarrow> J x) (PatchOverlay (nr_Client r) b c)"
proof -
  assume J: "\<And>st x. status_patched b c st x \<Longrightarrow> J st \<Longrightarrow> J x"
  show "op_inv (\<lambda>s. \<forall>x. ovs s n = Some x \<longrightarrow> J x) (PatchStatus (nr_Client r) b c)"
    by (rule op_invI, drule patch_status, elim disjE exE conjE) (auto dest: J)
next
  assume J: "\<And>st x. object_patched b c st x \<Longrightarrow> J st \<Longrightarrow> J x"
  show "op_inv (\<lambda>s. \<forall>x. ovs s n = Some x \<longrightarrow> J x) (PatchOverlay (nr_Client r) b c)"
    by (rule op_invI, drule patch_object, elim disjE exE conjE) (auto dest: J split: if_splits)
qed

text \<open>Whether the stored overlay is being deleted.\<close>

lemma undeleted_live: "op_inv (\<lambda>s. \<forall>x. ovs s n = Some x \<longrightarrow> \<not> ov_Deleting x) (nr_reconcileLive ns r ov)"
proof -
  let ?I = "\<lambda>s. \<forall>x. ovs s n = Some x \<longrightarrow> \<not> ov_Deleting x"
  have p: "op_inv ?I (PatchStatus (nr_Client r) b c)" "op_inv ?I (PatchOverlay (nr_Client r) b c)" for b c
    by (rule patch_inv; simp add: status_patched_def object_patched_def)+
  have k: "op_inv ?I (nr_Keys r x)" for x using op_frame_inv [OF keys_frame, where P = "\<lambda>(m, w). \<forall>x. m n = Some x \<longrightarrow> \<not> ov_Deleting x"] by simp
  have a: "op_inv ?I (nr_ensureAgents ns r)" using op_frame_inv [OF agents_frame, where P = "\<lambda>(m, w). \<forall>x. m n = Some x \<longrightarrow> \<not> ov_Deleting x"] by simp
  show ?thesis
    unfolding nr_reconcileLive_def nr_ensureFinalizer_def nr_syncGateways_def nr_ensureCommunity_def nr_allocateCommunity_def
      nr_ensureKeys_def nr_syncEdges_def Let_def case_prod_beta
    by (intro op_inv_rules p k a)
qed

text \<open>The key pair, once it is in the status.\<close>

definition keyed :: "overlay \<Rightarrow> bool" where
  "keyed ov \<longleftrightarrow> st_PublicKey (ov_Status ov) = fst (kp (ov_Name ov)) \<and>
     map_option ref_Name (st_WGSecretRef (ov_Status ov)) = Some (snd (kp (ov_Name ov)))"

abbreviation keyed_at :: "string \<Rightarrow> 'c \<Rightarrow> bool" where
  "keyed_at n s \<equiv> \<forall>x. ovs s n = Some x \<longrightarrow> keyed x"

lemma keyed_patch:
  assumes "st_PublicKey (ov_Status new) = st_PublicKey (ov_Status base)" "st_WGSecretRef (ov_Status new) = st_WGSecretRef (ov_Status base)"
  shows "op_inv (keyed_at n) (PatchStatus (nr_Client r) base new)"
  by (rule patch_inv) (use assms in \<open>auto simp: status_patched_def keyed_def\<close>)

lemma keys_keyed: "op_valid (\<lambda>s. holds m0 w x s \<and> ov_Name x = n) (nr_ensureKeys r x) (\<lambda>_. keyed_at n) (\<lambda>_. True)"
proof (rule op_valid_pure)
  assume n: "ov_Name x = n"
  have "op_valid (holds m0 w x) (nr_ensureKeys r x) (\<lambda>y s. holds m0 w y s \<and> keyed y \<and> ov_Name y = n) (safe m0)"
    unfolding nr_ensureKeys_def case_prod_beta
  proof (rule op_valid_bind [OF keys_held], rule op_valid_pure)
    fix ks assume ks: "ks = kp (ov_Name x)"
    let ?new = "set_keys (fst ks) \<lparr>ref_Name = snd ks, ref_Namespace = oc_Namespace (nr_Config r)\<rparr> x"
    show "op_valid (holds m0 w x) (if st_PublicKey (ov_Status x) \<noteq> fst ks \<or> map_option ref_Name (st_WGSecretRef (ov_Status x)) \<noteq> Some (snd ks)
        then PatchStatus (nr_Client r) x ?new else op_ret x) (\<lambda>y s. holds m0 w y s \<and> keyed y \<and> ov_Name y = n) (safe m0)"
      by (rule op_valid_conseq [OF status_sync_valid [where F = keyed]])
        (auto simp: set_keys_def status_patched_def keyed_def ks n)
  qed
  then show "op_valid (holds m0 w x) (nr_ensureKeys r x) (\<lambda>_. keyed_at n) (\<lambda>_. True)"
    by (rule op_valid_conseq) (use n in \<open>auto simp: current_def\<close>)
qed

lemma op_valid_inv: "op_inv J m \<Longrightarrow> op_valid J m (\<lambda>_. J) (\<lambda>_. True)"
  unfolding op_valid_def op_inv_def by (metis snd_conv)

lemma live_keyed:
  assumes "\<not> ov_Deleting ov"
  shows "op_valid (holds m0 w ov) (nr_reconcileLive ns r ov) (\<lambda>_. keyed_at (ov_Name ov)) (\<lambda>_. True)"
proof -
  let ?n = "ov_Name ov"
  have a: "op_inv (keyed_at ?n) (nr_ensureAgents ns r)"
    using op_frame_inv [OF agents_frame, where P = "\<lambda>(m, w). \<forall>x. m ?n = Some x \<longrightarrow> keyed x"] by simp
  have e: "op_inv (keyed_at ?n) (nr_syncEdges r x)" for x
    unfolding nr_syncEdges_def by (intro op_inv_rules keyed_patch) (simp_all add: set_edges_def)
  have 2: "op_valid (\<lambda>s. holds m0 w x s \<and> ov_Name x = ?n) (nr_syncGateways r x) (\<lambda>y s. holds m0 w y s \<and> ov_Name y = ?n) (\<lambda>_. True)" for x
    by (rule op_valid_pure, rule op_valid_conseq [OF blocks_hold(2)]) auto
  have 3: "op_valid (\<lambda>s. holds m0 w x s \<and> ov_Name x = ?n) (nr_ensureCommunity r x) (\<lambda>y s. holds m0 w y s \<and> ov_Name y = ?n) (\<lambda>_. True)" for x
    by (rule op_valid_pure, rule op_valid_conseq [OF blocks_hold(3)]) auto
  have 1: "op_valid (holds m0 w ov) (nr_ensureFinalizer r ov) (\<lambda>y s. holds m0 w y s \<and> ov_Name y = ?n) (\<lambda>_. True)"
    by (rule op_valid_conseq [OF blocks_hold(1) [OF assms]]) auto
  show ?thesis unfolding nr_reconcileLive_def
    by (rule op_valid_bind [OF 1], rule op_valid_bind [OF 2], rule op_valid_bind [OF 3], rule op_valid_bind [OF keys_keyed],
        rule op_valid_bind [OF op_valid_inv [OF a]], rule op_valid_inv [OF e])
qed

section \<open>A second call\<close>

text \<open>An overlay whose status is what the operator would write for the nodes and pods \<open>w\<close>.\<close>

definition steady :: "'c \<Rightarrow> overlay \<Rightarrow> bool" where
  "steady s0 ov \<longleftrightarrow> settled s0 ov ov \<and> keyed ov \<and> \<not> ov_Deleting ov"

text \<open>A patch that brings nothing new leaves everything as it is; nil and empty count as the same.\<close>

lemma omitempty_cong: "elems a = elems b \<Longrightarrow> omitempty a = omitempty b"
  by (cases a; cases b) (auto simp: omitempty_def)

lemma status_noop:
  assumes p: "status_patched ov new ov ov'"
    and c: "community new = community ov" "st_PublicKey (ov_Status new) = st_PublicKey (ov_Status ov)"
      "st_WGSecretRef (ov_Status new) = st_WGSecretRef (ov_Status ov)" "gateways_of new = gateways_of ov" "edges_of new = edges_of ov"
  shows "ov' = ov"
proof -
  have "ov_Status ov' = ov_Status ov"
    by (rule overlay_status.equality) (use p c omitempty_cong [OF c(4)] omitempty_cong [OF c(5)] in \<open>simp_all add: status_patched_def\<close>)
  then show ?thesis by (intro overlay.equality) (use p in \<open>simp_all add: status_patched_def\<close>)
qed

abbreviation still :: "(string \<Rightarrow> overlay option) \<Rightarrow> _ \<Rightarrow> 'c \<Rightarrow> bool" where
  "still m w s \<equiv> ovs s = m \<and> world (nr_Client r) s = w"

lemma noop_patch:
  assumes m: "m (ov_Name ov) = Some ov" and n: "ov_Name new = ov_Name ov"
    and c: "community new = community ov" "st_PublicKey (ov_Status new) = st_PublicKey (ov_Status ov)"
      "st_WGSecretRef (ov_Status new) = st_WGSecretRef (ov_Status ov)" "gateways_of new = gateways_of ov" "edges_of new = edges_of ov"
  shows "op_valid (still m w) (PatchStatus (nr_Client r) ov new) (\<lambda>x s. still m w s \<and> x = ov) (still m w)"
proof -
  have "still m w s' \<and> (\<forall>x. res = Inr x \<longrightarrow> still m w s' \<and> x = ov)" if h: "still m w s" and p: "PatchStatus (nr_Client r) ov new s = (res, s')" for s res s'
  proof -
    have w: "world (nr_Client r) s' = w" using world_frame(1) [of ov new s] p h by simp
    from patch_status [OF p] show ?thesis
    proof (elim disjE exE conjE)
      fix st ov' assume st: "ovs s (ov_Name new) = Some st" "status_patched ov new st ov'"
        and s': "ovs s' = (ovs s)(ov_Name new \<mapsto> ov')" "\<forall>x. res = Inr x \<longrightarrow> x = ov'"
      have "st = ov" using st(1) h m n by simp
      then have "ov' = ov" using status_noop [OF _ c] st(2) by blast
      then show ?thesis using s' w h m n by (auto simp: fun_upd_idem)
    qed (use w h in simp)
  qed
  then show ?thesis unfolding op_valid_def by blast
qed

lemma op_valid_if: "(b \<Longrightarrow> op_valid P m Q I) \<Longrightarrow> (\<not> b \<Longrightarrow> op_valid P m' Q I) \<Longrightarrow> op_valid P (if b then m else m') Q I"
  by simp

text \<open>
  The agents that the overlays \<open>m\<close> ask for are there: internal agents on the nodes of their ready edges,
  and gateway deployments that mount their secrets.
\<close>

definition secrets_mounted :: "(string \<Rightarrow> overlay option) \<Rightarrow> (string \<times> string \<Rightarrow> deployment option) \<Rightarrow> bool" where
  "secrets_mounted m D \<longleftrightarrow> (\<forall>role \<in> {''primary'', ''secondary''}. \<exists>d. D (oc_Namespace (nr_Config r), gatewayDeplName role) = Some d \<and>
     set (dp_Volumes d) = {wgVolume o1 ref | o1 ref. o1 \<in> ran m \<and> st_WGSecretRef (ov_Status o1) = Some ref} \<and>
     (\<exists>ct. dp_Containers d = [ct] \<and> set (ct_VolumeMounts ct) = {wgMount o1 | o1. o1 \<in> ran m \<and> st_WGSecretRef (ov_Status o1) \<noteq> None}))"

definition agents_for :: "(string \<Rightarrow> overlay option) \<Rightarrow> node list \<Rightarrow> (string \<times> string \<Rightarrow> deployment option) \<Rightarrow> bool" where
  "agents_for m gws D \<longleftrightarrow> {label (dp_Labels d) nodeKey | d n. D (oc_Namespace (nr_Config r), n) = Some d \<and>
      gm_get (dp_Labels d) componentKey = Some internalComponent} =
     {es_NodeName e | e o1. o1 \<in> ran m \<and> e \<in> set (edges_of o1) \<and> es_Ready e \<and> es_NodeName e \<noteq> []} - nd_Name ` set gws \<and>
     secrets_mounted m D"

lemma gateway_mutated:
  "gm_get (dp_Labels (gatewayMutate img overlays role nodes d)) componentKey = Some ''gateway''"
  "set (dp_Volumes (gatewayMutate img overlays role nodes d)) =
     {wgVolume o1 ref | o1 ref. o1 \<in> set overlays \<and> st_WGSecretRef (ov_Status o1) = Some ref}"
  "\<exists>ct. dp_Containers (gatewayMutate img overlays role nodes d) = [ct] \<and>
     set (ct_VolumeMounts ct) = {wgMount o1 | o1. o1 \<in> set overlays \<and> st_WGSecretRef (ov_Status o1) \<noteq> None}"
proof -
  show "gm_get (dp_Labels (gatewayMutate img overlays role nodes d)) componentKey = Some ''gateway''"
    by (simp add: gatewayMutate_def Let_def gatewayLabels_def nameKey_def componentKey_def gm_get_def split: prod.splits)
  have "dp_Volumes (gatewayMutate img overlays role nodes d) = fst (buildWGVolumes overlays)"
    by (simp add: gatewayMutate_def Let_def split: prod.splits)
  then show "set (dp_Volumes (gatewayMutate img overlays role nodes d)) =
     {wgVolume o1 ref | o1 ref. o1 \<in> set overlays \<and> st_WGSecretRef (ov_Status o1) = Some ref}"
    by (force simp: buildWGVolumes_eq List.map_filter_def image_iff)
  obtain ct where ct: "dp_Containers (gatewayMutate img overlays role nodes d) = [ct]" "ct_VolumeMounts ct = snd (buildWGVolumes overlays)"
    by (simp add: gatewayMutate_def Let_def case_prod_beta)
  have "set (ct_VolumeMounts ct) = {wgMount o1 | o1. o1 \<in> set overlays \<and> st_WGSecretRef (ov_Status o1) \<noteq> None}"
    unfolding ct(2) buildWGVolumes_eq by auto
  then show "\<exists>ct. dp_Containers (gatewayMutate img overlays role nodes d) = [ct] \<and>
     set (ct_VolumeMounts ct) = {wgMount o1 | o1. o1 \<in> set overlays \<and> st_WGSecretRef (ov_Status o1) \<noteq> None}" using ct(1) by blast
qed

lemma mounted_after_agents:
  assumes g: "EnsureGatewayDeployments (nr_Client r) (oc_Namespace (nr_Config r)) img gl all s1 = (Inr y, s2)"
    and i: "EnsureInternalDeployments ns (nr_Client r) (oc_Namespace (nr_Config r)) img' gl' all' s2 = (res, s')" and all: "set all = ran m"
  shows "secrets_mounted m (dps s')"
  unfolding secrets_mounted_def
proof
  fix role assume role: "role \<in> {''primary'', ''secondary''}"
  obtain gws d0 where d: "dps s2 (oc_Namespace (nr_Config r), gatewayDeplName role) = Some (gatewayMutate img all role (nodesOfRole gl gws role) d0)"
    by (rule EnsureGateway_spec [OF g role])
  have n: "gatewayDeplName role \<noteq> internalDeplName n" for n by (simp add: gatewayDeplName_def internalDeplName_def)
  have c: "''gateway'' \<noteq> internalComponent" by (simp add: internalComponent_def)
  have "dps s' (oc_Namespace (nr_Config r), gatewayDeplName role) = dps s2 (oc_Namespace (nr_Config r), gatewayDeplName role)"
  proof (rule internal_leaves_others [OF i n])
    fix d1 assume "dps s2 (oc_Namespace (nr_Config r), gatewayDeplName role) = Some d1"
    then show "gm_get (dp_Labels d1) componentKey \<noteq> Some internalComponent" using d c gateway_mutated(1) by (metis option.inject)
  qed
  note d' = this [unfolded d]
  show "\<exists>d. dps s' (oc_Namespace (nr_Config r), gatewayDeplName role) = Some d \<and>
      set (dp_Volumes d) = {wgVolume o1 ref | o1 ref. o1 \<in> ran m \<and> st_WGSecretRef (ov_Status o1) = Some ref} \<and>
      (\<exists>ct. dp_Containers d = [ct] \<and> set (ct_VolumeMounts ct) = {wgMount o1 | o1. o1 \<in> ran m \<and> st_WGSecretRef (ov_Status o1) \<noteq> None})"
    unfolding all [symmetric] by (rule exI, rule conjI [OF d'], rule conjI [OF gateway_mutated(2) gateway_mutated(3)])
qed

lemma agents_still:
  assumes "fst w (oc_GatewayNodeLabel (nr_Config r)) = Inr gws"
  shows "op_valid (still m w) (nr_ensureAgents ns r) (\<lambda>_ s. still m w s \<and> agents_for m gws (dps s)) (still m w)"
proof (rule op_validI)
  fix s res s' assume h: "still m w s" and a: "nr_ensureAgents ns r s = (res, s')"
  show "still m w s'" using op_frameD [OF agents_frame a] h by simp
next
  fix s u s' assume h: "still m w s" and a: "nr_ensureAgents ns r s = (Inr u, s')"
  let ?k = "nr_Client r" and ?cfg = "nr_Config r"
  have st: "still m w s'" using op_frameD [OF agents_frame a] h by simp
  obtain s1 all s2 x y where 1: "op_call (nr_EnsureRBAC r (oc_Namespace ?cfg)) s = (Inr x, s1)" and 2: "ListOverlays ?k s1 = Inr all"
    and 3: "EnsureGatewayDeployments ?k (oc_Namespace ?cfg) (oc_AgentImage ?cfg) (oc_GatewayNodeLabel ?cfg) all s1 = (Inr y, s2)"
    and 4: "EnsureInternalDeployments ns ?k (oc_Namespace ?cfg) (oc_AgentImage ?cfg) (oc_GatewayNodeLabel ?cfg) all s2 = (Inr u, s')"
    using a unfolding nr_ensureAgents_def Let_def by (elim op_bindE op_wrapE op_readE) simp
  have w1: "ovs s1 = m \<and> world ?k s1 = w" using op_frameD [OF rbac_frame 1] h by simp
  have "world ?k s2 = w" using op_frameD [OF world_frame_agents(1) 3] w1 by simp
  then have g: "ListNodes ?k (oc_GatewayNodeLabel ?cfg) s2 = Inr gws" using assms by (auto simp: world_def)
  have all: "set all = ran m" using list_overlays [OF 2] w1 by simp
  have "(\<lambda>d. label (dp_Labels d) nodeKey) ` internals s' (oc_Namespace ?cfg) = {n. gm_has (targetNodes (nodeSet gws) all) n}"
    using EnsureInternal_spec [OF 4] g by (metis sum.inject(2))
  also have "\<dots> = {es_NodeName e | e o1. o1 \<in> ran m \<and> e \<in> set (edges_of o1) \<and> es_Ready e \<and> es_NodeName e \<noteq> []} - nd_Name ` set gws"
    unfolding targetNodes_has nodeSet_has all by auto
  finally show "still m w s' \<and> agents_for m gws (dps s')" using st mounted_after_agents [OF 3 4 all] unfolding agents_for_def internals_def by blast
qed

lemma op_valid_and_frame:
  assumes "op_valid P m Q I" "op_frame v m"
  shows "op_valid (\<lambda>s. P s \<and> A (v s)) m (\<lambda>x s. Q x s \<and> A (v s)) I"
proof -
  have "I s' \<and> (\<forall>x. res = Inr x \<longrightarrow> Q x s' \<and> A (v s'))" if "P s" "A (v s)" "m s = (res, s')" for s res s'
    using op_validD [OF assms(1) that(1,3)] op_frameD [OF assms(2) that(3)] that(2) by simp
  then show ?thesis unfolding op_valid_def by blast
qed

lemma gateways_still:
  assumes m: "m (ov_Name ov) = Some ov" and g: "fst w (oc_GatewayNodeLabel (nr_Config r)) = Inr gws"
      "gateways_of ov = buildGateways gws (oc_GatewayNodeLabel (nr_Config r))"
  shows "op_valid (still m w) (nr_syncGateways r ov) (\<lambda>x s. still m w s \<and> x = ov) (still m w)"
  unfolding nr_syncGateways_def Let_def
proof (rule op_valid_bind [where Q = "\<lambda>items s. still m w s \<and> items = gws"])
  show "op_valid (still m w) (op_read (ListNodes (nr_Client r) (oc_GatewayNodeLabel (nr_Config r)))) (\<lambda>items s. still m w s \<and> items = gws) (still m w)"
    by (rule op_valid_read) (use g(1) in \<open>auto simp: world_def\<close>)
  show "op_valid (\<lambda>s. still m w s \<and> items = gws)
      (if st_Gateways (ov_Status ov) \<noteq> Some (buildGateways items (oc_GatewayNodeLabel (nr_Config r)))
       then PatchStatus (nr_Client r) ov (set_gateways (buildGateways items (oc_GatewayNodeLabel (nr_Config r))) ov) else op_ret ov)
      (\<lambda>x s. still m w s \<and> x = ov) (still m w)" for items
    by (rule op_valid_pure, intro op_valid_if noop_patch op_valid_ret) (use m g(2) in \<open>simp_all add: set_gateways_def\<close>)
qed

lemma keys_still:
  assumes "keyed ov"
  shows "op_valid (still m w) (nr_ensureKeys r ov) (\<lambda>x s. still m w s \<and> x = ov) (still m w)"
proof -
  have k: "op_valid (still m w) (op_wrap ''ensure WG keypair'' (nr_Keys r ov)) (\<lambda>x s. still m w s \<and> x = kp (ov_Name ov)) (still m w)"
  proof (intro op_valid_wrap op_validI)
    fix s res s' assume h: "still m w s" and k: "nr_Keys r ov s = (res, s')"
    show "still m w s'" using op_frameD [OF keys_frame k] h by simp
  next
    fix s x s' assume h: "still m w s" and k: "nr_Keys r ov s = (Inr x, s')"
    show "still m w s' \<and> x = kp (ov_Name ov)" using op_frameD [OF keys_frame k] h k keys_ok [of ov s] by simp
  qed
  have c: "(st_PublicKey (ov_Status ov) \<noteq> fst (kp (ov_Name ov)) \<or> map_option ref_Name (st_WGSecretRef (ov_Status ov)) \<noteq> Some (snd (kp (ov_Name ov)))) = False"
    using assms unfolding keyed_def by blast
  show ?thesis unfolding nr_ensureKeys_def case_prod_beta
    by (rule op_valid_bind [OF k], rule op_valid_pure, simp only: c if_False, rule op_valid_ret, simp)
qed

lemma edges_still:
  assumes m: "m (ov_Name ov) = Some ov" and w: "w = world (nr_Client r) s0"
    and e: "resolveEdges (nr_Client r) (nr_Config r) ov s0 = Inr (edges_of ov)"
  shows "op_valid (still m w) (nr_syncEdges r ov) (\<lambda>_. still m w) (still m w)"
  unfolding nr_syncEdges_def
proof (rule op_valid_bind [where Q = "\<lambda>es s. still m w s \<and> es = edges_of ov"])
  show "op_valid (still m w) (op_wrap ''resolve edges'' (op_read (resolveEdges (nr_Client r) (nr_Config r) ov)))
      (\<lambda>es s. still m w s \<and> es = edges_of ov) (still m w)"
  proof (intro op_valid_wrap op_valid_read)
    fix s es assume h: "still m w s" and r: "resolveEdges (nr_Client r) (nr_Config r) ov s = Inr es"
    have "resolveEdges (nr_Client r) (nr_Config r) ov s = resolveEdges (nr_Client r) (nr_Config r) ov s0"
      by (rule resolveEdges_world) (use h w in simp_all)
    then show "still m w s \<and> es = edges_of ov" using h r e by simp
  qed
  fix es
  have n: "es = edges_of ov \<Longrightarrow> op_valid (still m w) (PatchStatus (nr_Client r) ov (set_edges es ov)) (\<lambda>x s. still m w s \<and> x = ov) (still m w)"
    by (rule noop_patch) (simp_all add: set_edges_def m)
  have "es = edges_of ov \<Longrightarrow> op_valid (still m w) (op_bind (PatchStatus (nr_Client r) ov (set_edges es ov)) (\<lambda>_. op_ret ())) (\<lambda>_. still m w) (still m w)"
    by (rule op_valid_bind [OF n], assumption) (rule op_valid_ret, simp)
  then show "op_valid (\<lambda>s. still m w s \<and> es = edges_of ov) (if st_Edges (ov_Status ov) \<noteq> Some es
      then op_bind (PatchStatus (nr_Client r) ov (set_edges es ov)) (\<lambda>_. op_ret ()) else op_ret ()) (\<lambda>_. still m w) (still m w)"
    by (intro op_valid_pure op_valid_if op_valid_ret) simp_all
qed

lemma edges_dps: "op_frame dps (nr_syncEdges r ov)"
proof -
  have "op_frame dps (PatchStatus (nr_Client r) b n)" for b n using patch_frame(1) by (simp add: op_frame_def)
  then show ?thesis unfolding nr_syncEdges_def by (intro op_frame_bind op_frame_wrap op_frame_read op_frame_if op_frame_ret)
qed

lemma live_still:
  assumes st: "steady s0 ov" and m: "m (ov_Name ov) = Some ov" and w: "w = world (nr_Client r) s0"
    and gws: "ListNodes (nr_Client r) (oc_GatewayNodeLabel (nr_Config r)) s0 = Inr gws"
  shows "op_valid (still m w) (nr_reconcileLive ns r ov) (\<lambda>_ s. still m w s \<and> agents_for m gws (dps s)) (still m w)"
proof -
  have g: "fst w (oc_GatewayNodeLabel (nr_Config r)) = Inr gws" using w gws by (simp add: world_def)
  have s: "finalizerName \<in> set (ov_Finalizers ov)" "community ov \<noteq> []" "keyed ov"
      "gateways_of ov = buildGateways gws (oc_GatewayNodeLabel (nr_Config r))"
      "resolveEdges (nr_Client r) (nr_Config r) ov s0 = Inr (edges_of ov)"
    using st gws by (simp_all add: steady_def settled_def)
  have f: "nr_ensureFinalizer r ov = op_ret ov" "nr_ensureCommunity r ov = op_ret ov"
    using s(1,2) by (simp_all add: nr_ensureFinalizer_def nr_ensureCommunity_def contains_finalizer)
  have ret: "op_valid (still m w) (op_ret ov) (\<lambda>x s. still m w s \<and> x = ov) (still m w)" by (rule op_valid_ret) simp
  have e: "op_valid (\<lambda>s. still m w s \<and> agents_for m gws (dps s)) (nr_syncEdges r ov) (\<lambda>_ s. still m w s \<and> agents_for m gws (dps s)) (still m w)"
    by (rule op_valid_and_frame [OF edges_still [of m ov, OF m w s(5)] edges_dps])
  note rest = op_valid_bind [OF agents_still [OF g] e]
  show ?thesis unfolding nr_reconcileLive_def f(1)
    by (rule op_valid_bind [OF ret], rule op_valid_pure, simp only:, rule op_valid_bind [OF gateways_still [of m ov, OF m g s(4)]], rule op_valid_pure,
        simp only: f(2), rule op_valid_bind [OF ret], rule op_valid_pure, simp only:, rule op_valid_bind [OF keys_still [OF s(3)]],
        rule op_valid_pure, simp only:, rule rest)
qed

lemma first_steady:
  assumes run: "nr_Reconcile ns r name s = (Inr u, s1)" and ov: "ovs s name = Some ov" "\<not> ov_Deleting ov"
  obtains ov1 where "ovs s1 name = Some ov1" "settled s ov ov1" "steady s1 ov1" "world (nr_Client r) s1 = world (nr_Client r) s"
proof -
  have g: "GetOverlay (nr_Client r) name s = Inr ov" by (rule get_ok(1) [OF ov(1)])
  have n: "ov_Name ov = name" by (rule ovs_name [OF ov(1)])
  have l: "nr_reconcileLive ns r ov s = (Inr u, s1)" using run g ov(2) by (simp add: nr_Reconcile_def)
  obtain ov1 where o: "ovs s1 name = Some ov1" "settled s ov ov1" using Reconcile_settles [OF run g ov(2)] by blast
  have w: "world (nr_Client r) s1 = world (nr_Client r) s" by (rule op_frameD [OF world_live l])
  have "\<forall>x. ovs s name = Some x \<longrightarrow> \<not> ov_Deleting x" using ov by simp
  from op_invD [OF undeleted_live this l] have d: "\<not> ov_Deleting ov1" using o(1) by blast
  have h: "holds (ovs s) (world (nr_Client r) s) ov s" using ov(1) n by (simp add: current_def)
  have k: "keyed ov1" using op_validD(2) [OF live_keyed [OF ov(2)] h l refl] o(1) n by blast
  have nodes: "ListNodes (nr_Client r) gl s1 = ListNodes (nr_Client r) gl s" for gl
    using w unfolding world_def prod.inject fun_eq_iff by blast
  have "resolveEdges (nr_Client r) (nr_Config r) ov1 s1 = resolveEdges (nr_Client r) (nr_Config r) ov s"
    by (rule resolveEdges_world [OF w]) (use o(2) in \<open>simp add: settled_def\<close>)
  then have "settled s1 ov1 ov1" using o(2) unfolding settled_def nodes by metis
  then show thesis using that [OF o _ w] k d by (simp add: steady_def)
qed

lemma dom_shrinks: "nr_Reconcile ns r name s = (res, s') \<Longrightarrow> dom (ovs s') \<subseteq> dom (ovs s)"
  using Reconcile_safe unfolding sound_step_def evolves_def by blast

lemma Reconcile_twice:
  assumes ok: "placed s" "finite (dom (ovs s))" "card (dom (ovs s)) \<le> 65535" and ov: "ovs s name = Some ov" "\<not> ov_Deleting ov"
    and gws: "ListNodes (nr_Client r) (oc_GatewayNodeLabel (nr_Config r)) s = Inr gws"
  shows "\<exists>s1 s2 ov1. nr_Reconcile ns r name s = (Inr (), s1) \<and> nr_Reconcile ns' r name s1 = (Inr (), s2) \<and>
    ovs s1 name = Some ov1 \<and> settled s ov ov1 \<and> keyed ov1 \<and> ovs s2 = ovs s1 \<and> agents_for (ovs s1) gws (dps s2)"
proof -
  obtain s1 where 1: "nr_Reconcile ns r name s = (Inr (), s1)" using Reconcile_succeeds [OF ok] by blast
  obtain ov1 where o: "ovs s1 name = Some ov1" "settled s ov ov1" "steady s1 ov1" "world (nr_Client r) s1 = world (nr_Client r) s"
    by (rule first_steady [OF 1 ov])
  have d: "dom (ovs s1) \<subseteq> dom (ovs s)" by (rule dom_shrinks [OF 1])
  have "placed s1" using placed_world [OF o(4)] ok(1) by blast
  moreover have "finite (dom (ovs s1))" by (rule finite_subset [OF d ok(2)])
  moreover have "card (dom (ovs s1)) \<le> 65535" using card_mono [OF ok(2) d] ok(3) by simp
  ultimately obtain s2 where 2: "nr_Reconcile ns' r name s1 = (Inr (), s2)" using Reconcile_succeeds by blast
  have l: "nr_reconcileLive ns' r ov1 s1 = (Inr (), s2)"
    using 2 get_ok(1) [OF o(1)] o(3) by (simp add: nr_Reconcile_def steady_def)
  have n: "ovs s1 (ov_Name ov1) = Some ov1" using o(1) ovs_name [OF o(1)] by simp
  have g: "ListNodes (nr_Client r) (oc_GatewayNodeLabel (nr_Config r)) s1 = Inr gws"
    using o(4) gws unfolding world_def prod.inject fun_eq_iff by metis
  have "ovs s2 = ovs s1 \<and> agents_for (ovs s1) gws (dps s2)"
    using op_validD(2) [OF live_still [of s1 ov1 "ovs s1", OF o(3) n refl g] _ l refl] by blast
  then show ?thesis using 1 2 o(1,2,3) by (auto simp: steady_def)
qed

end

section \<open>Properties\<close>

interpretation memav: available_operator "mem_reconciler cfg" "\<lambda>s. tbl_get ov_Name (mc_overlays s)" "\<lambda>s. tbl_get dp_key (mc_deployments s)"
    "\<lambda>n. (''pub'', ''wg-'' @ n)" for cfg
proof (unfold_locales, goal_cases)
  case (10 f ns n s)
  let ?d = "case tbl_get dp_key (mc_deployments s) (ns, n) of None \<Rightarrow> new_deployment ns n | Some d \<Rightarrow> d"
  have "dp_key ?d = (ns, n)" using tbl_get_key [of dp_key "mc_deployments s" "(ns, n)"] by (auto simp: dp_key_def new_deployment_def split: option.splits)
  then have "dp_key (f ?d) = (ns, n)" using 10 [of ?d] by (simp add: dp_key_def)
  then show ?case by (simp add: mem_reconciler_def mem_client_def Let_def)
qed (auto simp: mem_reconciler_def mem_client_def mem_not_found_def mem_store_def op_ret_def split: prod.splits)

lemma ex_start_placed: "pods_placed mem_client ex_start"
  unfolding pods_placed_def
proof (intro allI impI)
  fix ns sel pods p assume "ListPods mem_client ns sel ex_start = Inr pods" "p \<in> set pods"
  then have "p = ex_pod" by (auto simp: mem_client_def ex_start_def split: if_splits)
  moreover have "\<not> isl (GetNode mem_client (pd_NodeName ex_pod) ex_start)" by code_simp
  ultimately show "\<exists>nd. GetNode mem_client (pd_NodeName p) ex_start = Inr nd" by (metis sum.collapse(2))
qed

lemma stored_dom: "finite (dom (stored s)) \<and> card (dom (stored s)) \<le> length (mc_overlays s)"
proof -
  have "dom (stored s) \<subseteq> ov_Name ` set (mc_overlays s)" by (auto simp: tbl_get_def find_Some_iff)
  moreover have "card (ov_Name ` set (mc_overlays s)) \<le> length (mc_overlays s)" using card_length [of "map ov_Name (mc_overlays s)"] by simp
  ultimately show ?thesis by (meson List.finite_set card_mono finite_imageI finite_subset le_trans)
qed

lemma ex_start_small: "finite (dom (stored ex_start))" "card (dom (stored ex_start)) \<le> 65535"
  using stored_dom [of ex_start] by (simp_all add: ex_start_def)

text \<open>C9: Two calls bring an overlay to rest. Let the API server refuse nothing without a reason, the key
  generator and the RBAC step work, running pods be on nodes that exist and overlays be at most
  65535; reconcile a live overlay twice: both calls succeed, the first one leaves a community, the generated
  public key with a reference to the generated secret, the gateways and the edges as they resolve
  in the status, and the second one changes no overlay at all; after it the internal deployments
  are labelled with exactly the nodes that host a ready edge of some overlay and carry no gateway
  label. (The first call deploys agents for the edges as they were resolved before it.)\<close>

theorem reconcile_converges:
  assumes av: "available_operator r ovs dps kp" and ok: "pods_placed (nr_Client r) s"
    "finite (dom (ovs s))" "card (dom (ovs s)) \<le> 65535"
    and ov: "ovs s name = Some ov" "\<not> ov_Deleting ov"
    and gws: "ListNodes (nr_Client r) (oc_GatewayNodeLabel (nr_Config r)) s = Inr gws"
  shows "\<exists>s1 s2 ov1. nr_Reconcile ns r name s = (Inr (), s1) \<and> nr_Reconcile ns' r name s1 = (Inr (), s2) \<and> ovs s2 = ovs s1 \<and>
    ovs s1 name = Some ov1 \<and> community ov1 \<noteq> [] \<and> st_PublicKey (ov_Status ov1) = fst (kp name) \<and>
    map_option ref_Name (st_WGSecretRef (ov_Status ov1)) = Some (snd (kp name)) \<and>
    gateways_of ov1 = buildGateways gws (oc_GatewayNodeLabel (nr_Config r)) \<and>
    resolveEdges (nr_Client r) (nr_Config r) ov s = Inr (edges_of ov1) \<and>
    {label (dp_Labels d) nodeKey | d n. dps s2 (oc_Namespace (nr_Config r), n) = Some d \<and>
        gm_get (dp_Labels d) componentKey = Some internalComponent} =
      {es_NodeName e | e o1. o1 \<in> ran (ovs s1) \<and> e \<in> set (edges_of o1) \<and> es_Ready e \<and> es_NodeName e \<noteq> []} - nd_Name ` set gws"
proof -
  obtain s1 s2 ov1 where 1: "nr_Reconcile ns r name s = (Inr (), s1)" "nr_Reconcile ns' r name s1 = (Inr (), s2)" "ovs s2 = ovs s1"
    and o: "ovs s1 name = Some ov1" and st: "operator_contract.settled r s ov ov1" and k: "available_operator.keyed kp ov1"
    and a: "available_operator.agents_for r (ovs s1) gws (dps s2)"
    using available_operator.Reconcile_twice [OF av ok ov gws, of ns ns'] by blast
  have oc: "operator_contract r ovs dps" using av by (rule available_operator.axioms)
  have cc: "cluster_contract (nr_Client r) ovs dps" using oc by (rule operator_contract.axioms)
  have n: "ov_Name ov1 = name" by (rule cluster_contract.ovs_name [OF cc o])
  have "community ov1 \<noteq> []" "gateways_of ov1 = buildGateways gws (oc_GatewayNodeLabel (nr_Config r))"
    "resolveEdges (nr_Client r) (nr_Config r) ov s = Inr (edges_of ov1)"
    using st gws unfolding operator_contract.settled_def [OF oc] by auto
  moreover have "st_PublicKey (ov_Status ov1) = fst (kp name)" "map_option ref_Name (st_WGSecretRef (ov_Status ov1)) = Some (snd (kp name))"
    using k n unfolding available_operator.keyed_def [OF av] by simp_all
  ultimately show ?thesis using 1 o a [unfolded available_operator.agents_for_def [OF av], THEN conjunct1]
    by (intro exI conjI)
qed

definition ex_again :: "(go_error + unit) \<times> mem_cluster" where
  "ex_again = nr_Reconcile [] (mem_reconciler ex_config) ''new'' (snd ex_reconciled)"

theorem reconcile_converges_witness: "stored (snd ex_again) = stored (snd ex_reconciled)"
proof -
  have c: "nr_Client (mem_reconciler ex_config) = mem_client" by (simp add: mem_reconciler_def)
  have p: "pods_placed (nr_Client (mem_reconciler ex_config)) ex_start" unfolding c by (rule ex_start_placed)
  have o: "stored ex_start ''new'' = Some ex_fresh" "\<not> ov_Deleting ex_fresh" by code_simp+
  have l: "ListNodes (nr_Client (mem_reconciler ex_config)) (oc_GatewayNodeLabel (nr_Config (mem_reconciler ex_config))) ex_start =
      Inr (filter (\<lambda>nd. gm_has (nd_Labels nd) (oc_GatewayNodeLabel (nr_Config (mem_reconciler ex_config)))) (tbl_list nd_Name (mc_nodes ex_start)))"
    unfolding c by (simp add: mem_client_def)
  obtain s1 s2 where r: "nr_Reconcile [] (mem_reconciler ex_config) ''new'' ex_start = (Inr (), s1)"
      "nr_Reconcile [] (mem_reconciler ex_config) ''new'' s1 = (Inr (), s2)" "stored s2 = stored s1"
    using reconcile_converges [OF memav.available_operator_axioms p ex_start_small o l, where ns = "[]" and ns' = "[]"]
    by (elim exE conjE) (rule that)
  have "s1 = snd ex_reconciled" "s2 = snd ex_again" using r(1,2) by (simp_all add: ex_reconciled_def ex_again_def)
  then show ?thesis using r(3) by simp
qed

end
