(* ===== verification/Operator_Sweep.thy ===== *)
theory Operator_Sweep
  imports Operator_Live
begin

text \<open>
  All overlays of a cluster: a change of a node or a pod enqueues every overlay (\<open>enqueueAll\<close>), and
  the controller works through the queue. Reconciling one overlay leaves the others alone, so that
  one pass brings every overlay to rest and a second one the agents of all of them.
\<close>

text \<open>One pass over a queue of requests; a request that fails would end it.\<close>

definition sweep :: "nat list \<Rightarrow> ('c, 'l) reconciler \<Rightarrow> string list \<Rightarrow> ('c, unit) op" where
  "sweep ns r names = op_each (nr_Reconcile ns r) names"

lemma op_valid_and_inv:
  assumes "op_valid P m Q I" "op_inv J m"
  shows "op_valid (\<lambda>s. P s \<and> J s) m (\<lambda>x s. Q x s \<and> J s) I"
proof -
  have "I s' \<and> (\<forall>x. res = Inr x \<longrightarrow> Q x s' \<and> J s')" if "P s" "J s" "m s = (res, s')" for s res s'
    using op_validD [OF assms(1) that(1,3)] op_invD [OF assms(2) that(2,3)] by simp
  then show ?thesis unfolding op_valid_def by blast
qed

lemma op_valid_trivial: "op_valid P m Q I \<Longrightarrow> op_valid P m Q (\<lambda>_. True)"
  by (auto simp: op_valid_def)

context available_operator
begin

section \<open>Other overlays\<close>

lemma patch_other:
  "ov_Name new \<noteq> n' \<Longrightarrow> op_inv (\<lambda>s. ovs s n' = y) (PatchStatus (nr_Client r) base new)"
  "ov_Name new \<noteq> n' \<Longrightarrow> op_inv (\<lambda>s. ovs s n' = y) (PatchOverlay (nr_Client r) base new)"
proof -
  assume n: "ov_Name new \<noteq> n'"
  show "op_inv (\<lambda>s. ovs s n' = y) (PatchStatus (nr_Client r) base new)"
    by (rule op_invI, drule patch_status, elim disjE exE conjE) (use n in auto)
  show "op_inv (\<lambda>s. ovs s n' = y) (PatchOverlay (nr_Client r) base new)"
    by (rule op_invI, drule patch_object, elim disjE exE conjE) (use n in auto)
qed

lemma blocks_other:
  assumes "ov_Name x \<noteq> n'"
  shows "op_inv (\<lambda>s. ovs s n' = y) (nr_ensureFinalizer r x)" "op_inv (\<lambda>s. ovs s n' = y) (nr_syncGateways r x)"
    "op_inv (\<lambda>s. ovs s n' = y) (nr_ensureCommunity r x)" "op_inv (\<lambda>s. ovs s n' = y) (nr_ensureKeys r x)"
    "op_inv (\<lambda>s. ovs s n' = y) (nr_syncEdges r x)"
proof -
  obtain fs where fs: "AddFinalizer (nr_Client r) x finalizerName = x\<lparr>ov_Finalizers := fs\<rparr>" using add_finalizer by blast
  have k: "op_inv (\<lambda>s. ovs s n' = y) (nr_Keys r x)" using op_frame_inv [OF keys_frame, where P = "\<lambda>(m, w). m n' = y"] by simp
  show "op_inv (\<lambda>s. ovs s n' = y) (nr_ensureFinalizer r x)" unfolding nr_ensureFinalizer_def fs
    by (intro op_inv_rules patch_other) (simp add: assms)
  show "op_inv (\<lambda>s. ovs s n' = y) (nr_syncGateways r x)" unfolding nr_syncGateways_def Let_def
    by (intro op_inv_rules patch_other) (simp add: assms set_gateways_def)
  show "op_inv (\<lambda>s. ovs s n' = y) (nr_ensureCommunity r x)" unfolding nr_ensureCommunity_def nr_allocateCommunity_def
    by (intro op_inv_rules patch_other) (simp add: assms set_community_def)
  show "op_inv (\<lambda>s. ovs s n' = y) (nr_ensureKeys r x)" unfolding nr_ensureKeys_def case_prod_beta
    by (intro op_inv_rules patch_other k) (simp add: assms set_keys_def)
  show "op_inv (\<lambda>s. ovs s n' = y) (nr_syncEdges r x)" unfolding nr_syncEdges_def
    by (intro op_inv_rules patch_other) (simp add: assms set_edges_def)
qed

lemma live_other:
  assumes d: "\<not> ov_Deleting ov" and n: "ov_Name ov \<noteq> n'"
  shows "op_valid (\<lambda>s. holds m0 w ov s \<and> ovs s n' = y) (nr_reconcileLive ns r ov) (\<lambda>_ s. ovs s n' = y) (\<lambda>_. True)"
proof -
  let ?P = "\<lambda>x s. (holds m0 w x s \<and> ovs s n' = y) \<and> ov_Name x = ov_Name ov"
  have b: "op_valid (?P x) (B x) ?P (\<lambda>_. True)"
    if "op_valid (holds m0 w x) (B x) (\<lambda>y s. holds m0 w y s \<and> ov_Name y = ov_Name x) (safe m0)"
      and "ov_Name x \<noteq> n' \<Longrightarrow> op_inv (\<lambda>s. ovs s n' = y) (B x)" for B and x
    by (rule op_valid_pure, rule op_valid_conseq [OF op_valid_and_inv [OF that]]) (use n in auto)
  have 1: "op_valid (\<lambda>s. holds m0 w ov s \<and> ovs s n' = y) (nr_ensureFinalizer r ov) ?P (\<lambda>_. True)"
    by (rule op_valid_conseq [OF op_valid_and_inv [OF blocks_hold(1) [OF d] blocks_other(1) [OF n]]]) auto
  have a: "op_inv (\<lambda>s. ovs s n' = y) (nr_ensureAgents ns r)" using op_frame_inv [OF agents_frame, where P = "\<lambda>(m, w). m n' = y"] by simp
  have e: "op_valid (\<lambda>s. ovs s n' = y \<and> ov_Name x = ov_Name ov) (nr_syncEdges r x) (\<lambda>_ s. ovs s n' = y) (\<lambda>_. True)" for x
    by (rule op_valid_pure, rule op_valid_inv, rule blocks_other(5)) (use n in simp)
  have ae: "op_valid (?P x) (nr_ensureAgents ns r) (\<lambda>_ s. ovs s n' = y \<and> ov_Name x = ov_Name ov) (\<lambda>_. True)" for x
    by (rule op_valid_pure, rule op_valid_conseq [OF op_valid_inv [OF a]]) auto
  show ?thesis unfolding nr_reconcileLive_def
    by (rule op_valid_bind [OF 1], rule op_valid_bind [OF b [where B = "nr_syncGateways r", OF blocks_hold(2) blocks_other(2)]], assumption,
        rule op_valid_bind [OF b [where B = "nr_ensureCommunity r", OF blocks_hold(3) blocks_other(3)]], assumption,
        rule op_valid_bind [OF b [where B = "nr_ensureKeys r", OF blocks_hold(4) blocks_other(4)]], assumption,
        rule op_valid_bind [OF ae], rule e)
qed

lemma deletion_other: "ov_Name ov \<noteq> n' \<Longrightarrow> op_inv (\<lambda>s. ovs s n' = y) (nr_handleDeletion ns r ov)"
proof -
  assume n: "ov_Name ov \<noteq> n'"
  obtain fs where fs: "RemoveFinalizer (nr_Client r) ov finalizerName = ov\<lparr>ov_Finalizers := fs\<rparr>" using remove_finalizer by blast
  have e: "op_inv (\<lambda>s. ovs s n' = y) (EnsureInternalDeployments ns (nr_Client r) a b c os)" for a b c os
    by (rule op_frame_inv [OF ovs_frame_agents(2), where P = "\<lambda>m. m n' = y"])
  show ?thesis unfolding nr_handleDeletion_def Let_def fs by (intro op_inv_rules patch_other e) (simp add: n)
qed

lemma world_deletion: "op_frame (world (nr_Client r)) (nr_handleDeletion ns r ov)"
  unfolding nr_handleDeletion_def Let_def
  by (intro op_frame_bind op_frame_wrap op_frame_if op_frame_read op_frame_ret world_patch world_frame_agents)

text \<open>The three ways a call can go.\<close>

lemma Reconcile_cases:
  obtains (gone) "ovs s name = None" "nr_Reconcile ns r name s = (Inr (), s)"
  | (deleting) ov where "ovs s name = Some ov" "ov_Name ov = name" "ov_Deleting ov" "nr_Reconcile ns r name s = nr_handleDeletion ns r ov s"
  | (live) ov where "ovs s name = Some ov" "ov_Name ov = name" "\<not> ov_Deleting ov" "nr_Reconcile ns r name s = nr_reconcileLive ns r ov s"
proof (cases "ovs s name")
  case None
  then obtain x where "GetOverlay (nr_Client r) name s = Inl (NotFound x)" using get_ok(2) by blast
  then show thesis using gone None by (simp add: nr_Reconcile_def)
next
  case (Some ov)
  then show thesis using deleting [OF Some] live [OF Some] ovs_name [OF Some] get_ok(1) [OF Some]
    by (cases "ov_Deleting ov") (simp_all add: nr_Reconcile_def)
qed

lemma Reconcile_other:
  assumes run: "nr_Reconcile ns r name s = (Inr u, s')" and n: "n' \<noteq> name"
  shows "ovs s' n' = ovs s n'" and "world (nr_Client r) s' = world (nr_Client r) s"
proof -
  have "ovs s' n' = ovs s n' \<and> world (nr_Client r) s' = world (nr_Client r) s"
  proof (cases rule: Reconcile_cases [where s = s and name = name and ns = ns])
    case gone
    then show ?thesis using run by simp
  next
    case (deleting ov)
    then have h: "nr_handleDeletion ns r ov s = (Inr u, s')" using run by simp
    show ?thesis using op_invD [OF deletion_other [of ov n' "ovs s n'"] _ h] op_frameD [OF world_deletion h] n deleting(2) by simp
  next
    case (live ov)
    then have h: "nr_reconcileLive ns r ov s = (Inr u, s')" using run by simp
    have "holds (ovs s) (world (nr_Client r) s) ov s \<and> ovs s n' = ovs s n'" using live(1,2) by (simp add: current_def)
    from op_validD(2) [OF live_other [OF live(3)] this h refl] show ?thesis using op_frameD [OF world_live h] n live(2) by simp
  qed
  then show "ovs s' n' = ovs s n'" "world (nr_Client r) s' = world (nr_Client r) s" by simp_all
qed

lemma Reconcile_world: "nr_Reconcile ns r name s = (Inr u, s') \<Longrightarrow> world (nr_Client r) s' = world (nr_Client r) s"
proof -
  assume "nr_Reconcile ns r name s = (Inr u, s')"
  moreover have "CHR ''x'' # name \<noteq> name" by simp
  ultimately show ?thesis by (rule Reconcile_other(2))
qed

section \<open>Overlays at rest\<close>

definition quiet :: "'c \<Rightarrow> overlay \<Rightarrow> bool" where
  "quiet s0 ov \<longleftrightarrow> (if ov_Deleting ov then finalizerName \<notin> set (ov_Finalizers ov) else steady s0 ov)"

lemma steady_world:
  assumes "world (nr_Client r) s = world (nr_Client r) s0" "steady s ov"
  shows "steady s0 ov"
proof -
  have "ListNodes (nr_Client r) gl s = ListNodes (nr_Client r) gl s0" for gl
    using assms(1) unfolding world_def prod.inject fun_eq_iff by blast
  moreover have "resolveEdges (nr_Client r) (nr_Config r) ov s = resolveEdges (nr_Client r) (nr_Config r) ov s0"
    by (rule resolveEdges_world [OF assms(1) refl])
  ultimately show ?thesis using assms(2) by (simp add: steady_def settled_def)
qed

lemma deletion_deleting: "op_inv (\<lambda>s. \<forall>x. ovs s n = Some x \<longrightarrow> ov_Deleting x) (nr_handleDeletion ns r ov)"
proof -
  have p: "op_inv (\<lambda>s. \<forall>x. ovs s n = Some x \<longrightarrow> ov_Deleting x) (PatchOverlay (nr_Client r) b c)" for b c
    by (rule patch_inv(2)) (simp add: object_patched_def)
  have e: "op_inv (\<lambda>s. \<forall>x. ovs s n = Some x \<longrightarrow> ov_Deleting x) (EnsureInternalDeployments ns (nr_Client r) a b c os)" for a b c os
    by (rule op_frame_inv [OF ovs_frame_agents(2), where P = "\<lambda>m. \<forall>x. m n = Some x \<longrightarrow> ov_Deleting x"])
  show ?thesis unfolding nr_handleDeletion_def Let_def by (intro op_inv_rules p e)
qed

text \<open>A call leaves its overlay at rest, and a live overlay stays live.\<close>

lemma Reconcile_quiet:
  assumes run: "nr_Reconcile ns r name s = (Inr u, s')" and w: "world (nr_Client r) s = world (nr_Client r) s0"
  shows "ovs s' name = Some ov' \<Longrightarrow> quiet s0 ov'"
    and "ovs s name = Some ov \<Longrightarrow> \<not> ov_Deleting ov \<Longrightarrow> \<exists>x. ovs s' name = Some x \<and> \<not> ov_Deleting x \<and> ov_Spec x = ov_Spec ov"
proof -
  have w': "world (nr_Client r) s' = world (nr_Client r) s0" using Reconcile_world [OF run] w by simp
  have "(\<forall>ov'. ovs s' name = Some ov' \<longrightarrow> quiet s0 ov') \<and>
    (\<forall>ov. ovs s name = Some ov \<longrightarrow> \<not> ov_Deleting ov \<longrightarrow> (\<exists>x. ovs s' name = Some x \<and> \<not> ov_Deleting x \<and> ov_Spec x = ov_Spec ov))"
  proof (cases rule: Reconcile_cases [where s = s and name = name and ns = ns])
    case gone
    then show ?thesis using run by simp
  next
    case (deleting o1)
    then have h: "nr_handleDeletion ns r o1 s = (Inr u, s')" using run by simp
    have "\<forall>x. ovs s name = Some x \<longrightarrow> ov_Deleting x" using deleting(1,3) by simp
    from op_invD [OF deletion_deleting this h] have d: "\<forall>x. ovs s' name = Some x \<longrightarrow> ov_Deleting x" .
    have f: "finalizerName \<notin> set (ov_Finalizers x)" if x: "ovs s' name = Some x" for x
    proof (cases "finalizerName \<in> set (ov_Finalizers o1)")
      case True
      have n: "ovs s (ov_Name o1) = Some o1" using deleting(1,2) by simp
      show ?thesis by (rule deletion_finalizers(1) [OF h n deleting(3) True]) (use x deleting(2) in simp)
    next
      case False
      then have "s' = s" using h by (simp add: nr_handleDeletion_def contains_finalizer op_ret_def)
      then show ?thesis using x deleting(1) False by simp
    qed
    show ?thesis using d f deleting(1,3) by (auto simp: quiet_def)
  next
    case (live o1)
    obtain o2 where o2: "ovs s' name = Some o2" "settled s o1 o2" "steady s' o2" by (rule first_steady [OF run live(1,3)])
    have "steady s0 o2" by (rule steady_world [OF w' o2(3)])
    then show ?thesis using o2(1,2) live(1) by (auto simp: quiet_def steady_def settled_def)
  qed
  then show "ovs s' name = Some ov' \<Longrightarrow> quiet s0 ov'"
    "ovs s name = Some ov \<Longrightarrow> \<not> ov_Deleting ov \<Longrightarrow> \<exists>x. ovs s' name = Some x \<and> \<not> ov_Deleting x \<and> ov_Spec x = ov_Spec ov" by blast+
qed

section \<open>A pass over the queue\<close>

definition ready :: "'c \<Rightarrow> 'c \<Rightarrow> bool" where
  "ready s0 s \<longleftrightarrow> world (nr_Client r) s = world (nr_Client r) s0 \<and> placed s \<and> finite (dom (ovs s)) \<and> card (dom (ovs s)) \<le> 65535"

lemma ready_step:
  assumes "nr_Reconcile ns r name s = (Inr u, s')" "ready s0 s"
  shows "ready s0 s'"
proof -
  have w: "world (nr_Client r) s' = world (nr_Client r) s" by (rule Reconcile_world [OF assms(1)])
  have d: "dom (ovs s') \<subseteq> dom (ovs s)" by (rule dom_shrinks [OF assms(1)])
  show ?thesis using w placed_world [OF w] d card_mono [OF _ d] assms(2) finite_subset [OF d] unfolding ready_def by (metis le_trans)
qed

lemma sweep_rests:
  assumes "ready s0 s" "\<forall>n \<in> N. \<forall>ov. ovs s n = Some ov \<longrightarrow> quiet s0 ov"
  shows "\<exists>s'. sweep ns r names s = (Inr (), s') \<and> ready s0 s' \<and> dom (ovs s') \<subseteq> dom (ovs s) \<and>
    (\<forall>n \<in> N \<union> set names. \<forall>ov. ovs s' n = Some ov \<longrightarrow> quiet s0 ov) \<and>
    (\<forall>n ov. ovs s n = Some ov \<and> \<not> ov_Deleting ov \<longrightarrow> (\<exists>x. ovs s' n = Some x \<and> \<not> ov_Deleting x \<and> ov_Spec x = ov_Spec ov))"
  using assms
proof (induction names arbitrary: s N)
  case Nil
  then show ?case by (auto simp: sweep_def op_ret_def)
next
  case (Cons name names)
  obtain s1 where 1: "nr_Reconcile ns r name s = (Inr (), s1)" using Reconcile_succeeds Cons.prems(1) unfolding ready_def by blast
  have r1: "ready s0 s1" by (rule ready_step [OF 1 Cons.prems(1)])
  have w: "world (nr_Client r) s = world (nr_Client r) s0" using Cons.prems(1) by (simp add: ready_def)
  have q: "\<forall>n \<in> insert name N. \<forall>ov. ovs s1 n = Some ov \<longrightarrow> quiet s0 ov"
    using Reconcile_quiet(1) [OF 1 w] Reconcile_other(1) [OF 1] Cons.prems(2) by (metis insertE)
  have l: "\<exists>x. ovs s1 n = Some x \<and> \<not> ov_Deleting x \<and> ov_Spec x = ov_Spec ov" if "ovs s n = Some ov" "\<not> ov_Deleting ov" for n ov
    using Reconcile_quiet(2) [OF 1 w, of ov] Reconcile_other(1) [OF 1, of n] that by (cases "n = name") auto
  obtain s2 where 2: "sweep ns r names s1 = (Inr (), s2)" "ready s0 s2" "dom (ovs s2) \<subseteq> dom (ovs s1)"
    and q2: "\<forall>n \<in> insert name N \<union> set names. \<forall>ov. ovs s2 n = Some ov \<longrightarrow> quiet s0 ov"
    and l2: "\<forall>n ov. ovs s1 n = Some ov \<and> \<not> ov_Deleting ov \<longrightarrow> (\<exists>x. ovs s2 n = Some x \<and> \<not> ov_Deleting x \<and> ov_Spec x = ov_Spec ov)"
    using Cons.IH [OF r1 q] by (elim exE conjE) (rule that)
  have "sweep ns r (name # names) s = (Inr (), s2)" using 1 2(1) by (simp add: sweep_def op_bind_def)
  moreover have "dom (ovs s2) \<subseteq> dom (ovs s)" using 2(3) dom_shrinks [OF 1] by blast
  moreover have "\<exists>x. ovs s2 n = Some x \<and> \<not> ov_Deleting x \<and> ov_Spec x = ov_Spec ov" if h: "ovs s n = Some ov" "\<not> ov_Deleting ov" for n ov
  proof -
    obtain x where x: "ovs s1 n = Some x \<and> \<not> ov_Deleting x \<and> ov_Spec x = ov_Spec ov" using l [OF h] by (elim exE)
    with l2 have "\<exists>y. ovs s2 n = Some y \<and> \<not> ov_Deleting y \<and> ov_Spec y = ov_Spec x" by blast
    with x show ?thesis by simp
  qed
  ultimately show ?case using 2(2) q2 by (intro exI [of _ s2] conjI) auto
qed

text \<open>With every overlay at rest a call changes no overlay, and that of a live one puts the agents in line.\<close>

definition all_quiet :: "'c \<Rightarrow> 'c \<Rightarrow> bool" where
  "all_quiet s0 s \<longleftrightarrow> ready s0 s \<and> (\<forall>n ov. ovs s n = Some ov \<longrightarrow> quiet s0 ov)"

definition undeleted :: "'c \<Rightarrow> string \<Rightarrow> bool" where
  "undeleted s n \<longleftrightarrow> (\<exists>ov. ovs s n = Some ov \<and> \<not> ov_Deleting ov)"

lemma Reconcile_at_rest:
  assumes q: "all_quiet s0 s" and gws: "ListNodes (nr_Client r) (oc_GatewayNodeLabel (nr_Config r)) s0 = Inr gws"
  shows "\<exists>s'. nr_Reconcile ns r name s = (Inr (), s') \<and> ovs s' = ovs s \<and>
    (agents_for (ovs s) gws (dps s) \<or> undeleted s name \<longrightarrow> agents_for (ovs s) gws (dps s'))"
proof (cases rule: Reconcile_cases [where s = s and name = name and ns = ns])
  case gone
  then show ?thesis by (simp add: undeleted_def)
next
  case (deleting ov)
  have "finalizerName \<notin> set (ov_Finalizers ov)" using q deleting(1,3) by (auto simp: all_quiet_def quiet_def)
  then show ?thesis using deleting by (simp add: undeleted_def nr_handleDeletion_def contains_finalizer op_ret_def)
next
  case (live ov)
  obtain s' where s': "nr_Reconcile ns r name s = (Inr (), s')" using Reconcile_succeeds q unfolding all_quiet_def ready_def by blast
  then have l: "nr_reconcileLive ns r ov s = (Inr (), s')" using live(4) by simp
  have st: "steady s0 ov" using q live(1,3) by (auto simp: all_quiet_def quiet_def)
  have n: "ovs s (ov_Name ov) = Some ov" using live(1,2) by simp
  have still: "ovs s = ovs s \<and> world (nr_Client r) s = world (nr_Client r) s0" using q by (simp add: all_quiet_def ready_def)
  have "ovs s' = ovs s \<and> agents_for (ovs s) gws (dps s')"
    using op_validD(2) [OF live_still [of s0 ov "ovs s", OF st n refl gws] still l refl] by blast
  then show ?thesis using s' by blast
qed

lemma sweep_at_rest:
  assumes "all_quiet s0 s" and gws: "ListNodes (nr_Client r) (oc_GatewayNodeLabel (nr_Config r)) s0 = Inr gws"
  shows "\<exists>s'. sweep ns r names s = (Inr (), s') \<and> ovs s' = ovs s \<and>
    (agents_for (ovs s) gws (dps s) \<or> (\<exists>n \<in> set names. undeleted s n) \<longrightarrow> agents_for (ovs s) gws (dps s'))"
  using assms(1)
proof (induction names arbitrary: s)
  case Nil
  then show ?case by (simp add: sweep_def op_ret_def)
next
  case (Cons name names)
  obtain s1 where 1: "nr_Reconcile ns r name s = (Inr (), s1)" "ovs s1 = ovs s"
    "agents_for (ovs s) gws (dps s) \<or> undeleted s name \<longrightarrow> agents_for (ovs s) gws (dps s1)"
    using Reconcile_at_rest [OF Cons.prems gws, of ns name] by (elim exE conjE) (rule that)
  have u: "undeleted s1 = undeleted s" by (simp add: undeleted_def 1(2) fun_eq_iff)
  have "all_quiet s0 s1" using Cons.prems ready_step [OF 1(1)] 1(2) by (simp add: all_quiet_def)
  from Cons.IH [OF this] obtain s2 where 2: "sweep ns r names s1 = (Inr (), s2)" "ovs s2 = ovs s"
    "agents_for (ovs s) gws (dps s1) \<or> (\<exists>n \<in> set names. undeleted s n) \<longrightarrow> agents_for (ovs s) gws (dps s2)"
    unfolding 1(2) u by (elim exE conjE) (rule that)
  have "sweep ns r (name # names) s = (Inr (), s2)" using 1(1) 2(1) by (simp add: sweep_def op_bind_def)
  then show ?case using 1(3) 2(2,3) by auto
qed

lemma enqueued_all: "dom (ovs s) \<subseteq> set (enqueueAll (nr_Client r) s)"
proof
  fix n assume "n \<in> dom (ovs s)"
  then obtain ov where ov: "ovs s n = Some ov" by blast
  obtain items where "ListOverlays (nr_Client r) s = Inr items" using lists_ok(1) by blast
  moreover have "ov \<in> set items" using list_overlays [OF calculation] ov by (auto simp: ran_def)
  ultimately show "n \<in> set (enqueueAll (nr_Client r) s)" using ovs_name [OF ov] by (force simp: enqueueAll_def)
qed

lemma sweep_twice:
  assumes ok: "placed s" "finite (dom (ovs s))" "card (dom (ovs s)) \<le> 65535" "dom (ovs s) \<subseteq> set names"
    and gws: "ListNodes (nr_Client r) (oc_GatewayNodeLabel (nr_Config r)) s = Inr gws"
    and lv: "undeleted s n"
  shows "\<exists>s1 s2. sweep ns r names s = (Inr (), s1) \<and> sweep ns' r names s1 = (Inr (), s2) \<and> ovs s2 = ovs s1 \<and>
    (\<forall>n ov. ovs s n = Some ov \<and> \<not> ov_Deleting ov \<longrightarrow> (\<exists>x. ovs s1 n = Some x \<and> ov_Spec x = ov_Spec ov \<and> steady s x)) \<and>
    agents_for (ovs s1) gws (dps s2)"
proof -
  have rd: "ready s s" using ok by (simp add: ready_def)
  have e: "\<forall>n \<in> {}. \<forall>ov. ovs s n = Some ov \<longrightarrow> quiet s ov" by simp
  obtain s1 where 1: "sweep ns r names s = (Inr (), s1)" "ready s s1" "dom (ovs s1) \<subseteq> dom (ovs s)"
    and q: "\<forall>n \<in> {} \<union> set names. \<forall>ov. ovs s1 n = Some ov \<longrightarrow> quiet s ov"
    and l: "\<forall>n ov. ovs s n = Some ov \<and> \<not> ov_Deleting ov \<longrightarrow> (\<exists>x. ovs s1 n = Some x \<and> \<not> ov_Deleting x \<and> ov_Spec x = ov_Spec ov)"
    using sweep_rests [OF rd e, of ns names] by (elim exE conjE) (rule that)
  have q1: "all_quiet s s1" using 1(2,3) q ok(4) unfolding all_quiet_def by blast
  obtain s2 where 2: "sweep ns' r names s1 = (Inr (), s2)" "ovs s2 = ovs s1"
    "agents_for (ovs s1) gws (dps s1) \<or> (\<exists>n \<in> set names. undeleted s1 n) \<longrightarrow> agents_for (ovs s1) gws (dps s2)"
    using sweep_at_rest [OF q1 gws, of ns' names] by (elim exE conjE) (rule that)
  have "undeleted s1 n" using lv l unfolding undeleted_def by blast
  moreover have "n \<in> set names" using lv ok(4) unfolding undeleted_def by blast
  ultimately have a: "agents_for (ovs s1) gws (dps s2)" using 2(3) by blast
  have "\<exists>x. ovs s1 n = Some x \<and> ov_Spec x = ov_Spec ov \<and> steady s x" if h: "ovs s n = Some ov \<and> \<not> ov_Deleting ov" for n ov
  proof -
    obtain x where x: "ovs s1 n = Some x \<and> \<not> ov_Deleting x \<and> ov_Spec x = ov_Spec ov" using l h by blast
    moreover have "quiet s x" using q1 x unfolding all_quiet_def by blast
    ultimately show ?thesis by (simp add: quiet_def)
  qed
  then show ?thesis using 1(1) 2(1,2) a by blast
qed

end


section \<open>Properties\<close>

text \<open>C8: A pass over the queue settles the cluster. Let a change enqueue every overlay that exists, at
  least one of them live, the API server available, every running pod on a known node and at most
  65535 overlays: all requests of the pass succeed, and every live overlay ends it with its spec
  untouched, a community, its generated public key and a reference to its generated secret, the
  gateways of the cluster and its edges as they resolve. A second pass succeeds too and changes no
  overlay; after it the internal deployments are labelled with exactly the nodes without the gateway
  label that host a ready edge of some overlay, and the deployment of each gateway role has as
  volumes, and mounts in its container at the overlay's key path, the secrets of exactly the
  overlays that refer to one.\<close>

theorem sweep_converges:
  assumes av: "available_operator r ovs dps kp" and ok: "pods_placed (nr_Client r) s"
    "finite (dom (ovs s))" "card (dom (ovs s)) \<le> 65535"
    and lv: "ovs s name = Some ov" "\<not> ov_Deleting ov"
    and gws: "ListNodes (nr_Client r) (oc_GatewayNodeLabel (nr_Config r)) s = Inr gws"
    and names: "names = enqueueAll (nr_Client r) s"
  shows "\<exists>s1 s2. sweep ns r names s = (Inr (), s1) \<and> sweep ns' r names s1 = (Inr (), s2) \<and> ovs s2 = ovs s1 \<and>
    (\<forall>n ov. ovs s n = Some ov \<and> \<not> ov_Deleting ov \<longrightarrow> (\<exists>x. ovs s1 n = Some x \<and> ov_Spec x = ov_Spec ov \<and>
       community x \<noteq> [] \<and> st_PublicKey (ov_Status x) = fst (kp n) \<and>
       map_option ref_Name (st_WGSecretRef (ov_Status x)) = Some (snd (kp n)) \<and>
       gateways_of x = buildGateways gws (oc_GatewayNodeLabel (nr_Config r)) \<and>
       resolveEdges (nr_Client r) (nr_Config r) x s = Inr (edges_of x))) \<and>
    {label (dp_Labels d) nodeKey | d n. dps s2 (oc_Namespace (nr_Config r), n) = Some d \<and>
        gm_get (dp_Labels d) componentKey = Some internalComponent} =
      {es_NodeName e | e o1. o1 \<in> ran (ovs s1) \<and> e \<in> set (edges_of o1) \<and> es_Ready e \<and> es_NodeName e \<noteq> []} - nd_Name ` set gws \<and>
    (\<forall>role \<in> {''primary'', ''secondary''}. \<exists>d. dps s2 (oc_Namespace (nr_Config r), gatewayDeplName role) = Some d \<and>
       set (dp_Volumes d) = {\<lparr>vl_Name = ''wg-'' @ ov_Name o1, vl_SecretName = ref_Name ref\<rparr> | o1 ref.
          o1 \<in> ran (ovs s1) \<and> st_WGSecretRef (ov_Status o1) = Some ref} \<and>
       (\<exists>ct. dp_Containers d = [ct] \<and> set (ct_VolumeMounts ct) = {\<lparr>mt_Name = ''wg-'' @ ov_Name o1,
          mt_MountPath = ''/etc/pontifex/wg/'' @ ov_Name o1 @ ''/private'', mt_SubPath = ''private'', mt_ReadOnly = True\<rparr> | o1.
          o1 \<in> ran (ovs s1) \<and> st_WGSecretRef (ov_Status o1) \<noteq> None}))"
proof -
  have oc: "operator_contract r ovs dps" using av by (rule available_operator.axioms)
  have cc: "cluster_contract (nr_Client r) ovs dps" using oc by (rule operator_contract.axioms)
  have d: "dom (ovs s) \<subseteq> set names" unfolding names by (rule available_operator.enqueued_all [OF av])
  have u: "available_operator.undeleted ovs s name" using lv unfolding available_operator.undeleted_def [OF av] by blast
  obtain s1 s2 where 1: "sweep ns r names s = (Inr (), s1)" "sweep ns' r names s1 = (Inr (), s2)" "ovs s2 = ovs s1"
    and q: "\<forall>n ov. ovs s n = Some ov \<and> \<not> ov_Deleting ov \<longrightarrow>
      (\<exists>x. ovs s1 n = Some x \<and> ov_Spec x = ov_Spec ov \<and> available_operator.steady r kp s x)"
    and a: "available_operator.agents_for r (ovs s1) gws (dps s2)"
    using available_operator.sweep_twice [OF av ok d gws u, of ns ns'] by (elim exE conjE) (rule that)
  have st: "community x \<noteq> [] \<and> st_PublicKey (ov_Status x) = fst (kp n) \<and>
       map_option ref_Name (st_WGSecretRef (ov_Status x)) = Some (snd (kp n)) \<and>
      gateways_of x = buildGateways gws (oc_GatewayNodeLabel (nr_Config r)) \<and>
      resolveEdges (nr_Client r) (nr_Config r) x s = Inr (edges_of x)"
    if "available_operator.steady r kp s x" "ovs s1 n = Some x" for x n
    using that(1) gws cluster_contract.ovs_name [OF cc that(2)]
    by (simp add: available_operator.steady_def [OF av] operator_contract.settled_def [OF oc] available_operator.keyed_def [OF av])
  note ag = a [unfolded available_operator.agents_for_def [OF av] available_operator.secrets_mounted_def [OF av] wgVolume_def wgMount_def]
  have live: "\<forall>n ov. ovs s n = Some ov \<and> \<not> ov_Deleting ov \<longrightarrow> (\<exists>x. ovs s1 n = Some x \<and> ov_Spec x = ov_Spec ov \<and>
       community x \<noteq> [] \<and> st_PublicKey (ov_Status x) = fst (kp n) \<and>
       map_option ref_Name (st_WGSecretRef (ov_Status x)) = Some (snd (kp n)) \<and>
       gateways_of x = buildGateways gws (oc_GatewayNodeLabel (nr_Config r)) \<and>
       resolveEdges (nr_Client r) (nr_Config r) x s = Inr (edges_of x))"
    using q st by blast
  show ?thesis by (intro exI conjI) (rule 1 live ag [THEN conjunct1] ag [THEN conjunct2])+
qed

definition ex_swept :: "(go_error + unit) \<times> mem_cluster" where
  "ex_swept = sweep [] (mem_reconciler ex_config) (enqueueAll mem_client ex_start) ex_start"

theorem sweep_converges_witness:
  "fst ex_swept = Inr () \<and> (\<exists>x. stored (snd ex_swept) ''new'' = Some x \<and> community x \<noteq> [] \<and> st_PublicKey (ov_Status x) = ''pub'' \<and>
     map_option ref_Name (st_WGSecretRef (ov_Status x)) = Some ''wg-new'')"
proof -
  have c: "nr_Client (mem_reconciler ex_config) = mem_client" by (simp add: mem_reconciler_def)
  have p: "pods_placed (nr_Client (mem_reconciler ex_config)) ex_start" unfolding c by (rule ex_start_placed)
  have o: "stored ex_start ''new'' = Some ex_fresh" "\<not> ov_Deleting ex_fresh" by code_simp+
  have l: "ListNodes (nr_Client (mem_reconciler ex_config)) (oc_GatewayNodeLabel (nr_Config (mem_reconciler ex_config))) ex_start =
      Inr (filter (\<lambda>nd. gm_has (nd_Labels nd) (oc_GatewayNodeLabel (nr_Config (mem_reconciler ex_config)))) (tbl_list nd_Name (mc_nodes ex_start)))"
    unfolding c by (simp add: mem_client_def)
  have e: "enqueueAll mem_client ex_start = enqueueAll (nr_Client (mem_reconciler ex_config)) ex_start" unfolding c ..
  obtain s1 s2 where r: "sweep [] (mem_reconciler ex_config) (enqueueAll mem_client ex_start) ex_start = (Inr (), s1)"
    and a: "\<forall>n ov. stored ex_start n = Some ov \<and> \<not> ov_Deleting ov \<longrightarrow> (\<exists>x. stored s1 n = Some x \<and> ov_Spec x = ov_Spec ov \<and>
       community x \<noteq> [] \<and> st_PublicKey (ov_Status x) = fst (''pub'', ''wg-'' @ n) \<and>
       map_option ref_Name (st_WGSecretRef (ov_Status x)) = Some (snd (''pub'', ''wg-'' @ n)) \<and>
       gateways_of x = buildGateways (filter (\<lambda>nd. gm_has (nd_Labels nd) (oc_GatewayNodeLabel (nr_Config (mem_reconciler ex_config))))
         (tbl_list nd_Name (mc_nodes ex_start))) (oc_GatewayNodeLabel (nr_Config (mem_reconciler ex_config))) \<and>
       resolveEdges (nr_Client (mem_reconciler ex_config)) (nr_Config (mem_reconciler ex_config)) x ex_start = Inr (edges_of x))"
    using sweep_converges [OF memav.available_operator_axioms p ex_start_small o l e, where ns = "[]" and ns' = "[]"]
    by (elim exE conjE) (rule that)
  have "s1 = snd ex_swept" "fst ex_swept = Inr ()" using r by (simp_all add: ex_swept_def)
  moreover obtain x where "stored s1 ''new'' = Some x" "community x \<noteq> []" "st_PublicKey (ov_Status x) = fst (''pub'', ''wg-'' @ ''new'')"
      "map_option ref_Name (st_WGSecretRef (ov_Status x)) = Some (snd (''pub'', ''wg-'' @ ''new''))"
    using a [rule_format, OF conjI [OF o]] by (elim exE conjE) (rule that)
  ultimately show ?thesis by auto
qed

end
