(* ===== verification/Mains.thy ===== *)
theory Mains
  imports Managers Operator_Properties
begin

text \<open>
  The two programs (\<open>cmd/agent/main.go\<close>, \<open>cmd/operator/main.go\<close>) from their flags to the point
  where they hand over to the manager. The YAML, logging and controller-runtime libraries are
  arguments.
\<close>

section \<open>Loggers\<close>

definition newLogger :: "(string \<Rightarrow> go_error + 'lvl) \<Rightarrow> ('lvl option \<Rightarrow> go_error + 'log) \<Rightarrow> string \<Rightarrow> go_error + 'log" where
  "newLogger UnmarshalText Build level =
     (if level \<noteq> [] then
        (case UnmarshalText level of
           Inl err \<Rightarrow> Inl (Wrap (fmt_q ''parse log level '' level) err)
         | Inr lvl \<Rightarrow> Build (Some lvl))
      else Build None)"

section \<open>The agent\<close>

record ('p, 'lvl, 'log) agent_libs =
  al_NewYAML :: "string \<Rightarrow> go_error + 'p"
  al_PopulateGateway :: "'p \<Rightarrow> go_error + gateway_config"
  al_PopulateInternal :: "'p \<Rightarrow> go_error + internal_config"
  al_UnmarshalText :: "string \<Rightarrow> go_error + 'lvl"
  al_Build :: "'lvl option \<Rightarrow> go_error + 'log"

text \<open>Which manager is run; from then on the manager's relation describes the program.\<close>

datatype agent = GatewayAgent gateway_config | InternalAgent internal_config

definition startServer :: "'b bgp_server \<Rightarrow> u32 \<Rightarrow> string \<Rightarrow> agent \<Rightarrow> 'b \<Rightarrow> (go_error + agent) \<times> 'b" where
  "startServer srv asn routerID a b =
     (case Start srv asn routerID b of
        (Some err, b') \<Rightarrow> (Inl (Wrap ''start bgp server'' err), b')
      | (None, b') \<Rightarrow> (Inr a, b'))"

definition agent_run :: "('p, 'lvl, 'log) agent_libs \<Rightarrow> 'b bgp_server \<Rightarrow> string \<Rightarrow> string \<Rightarrow> 'b \<Rightarrow> (go_error + agent) \<times> 'b" where
  "agent_run libs srv mode configPath b =
     (if mode = ''gateway'' then
        (case LoadGateway (al_NewYAML libs) (al_PopulateGateway libs) configPath of
           Inl err \<Rightarrow> (Inl err, b)
         | Inr cfg \<Rightarrow>
             (case newLogger (al_UnmarshalText libs) (al_Build libs) (gc_LogLevel cfg) of
                Inl err \<Rightarrow> (Inl err, b)
              | Inr logger \<Rightarrow> startServer srv (gc_ASN cfg) (gc_RouterID cfg) (GatewayAgent cfg) b))
      else if mode = ''internal'' then
        (case LoadInternalNode (al_NewYAML libs) (al_PopulateInternal libs) configPath of
           Inl err \<Rightarrow> (Inl err, b)
         | Inr cfg \<Rightarrow>
             (case newLogger (al_UnmarshalText libs) (al_Build libs) (ic_LogLevel cfg) of
                Inl err \<Rightarrow> (Inl err, b)
              | Inr logger \<Rightarrow> startServer srv (ic_ASN cfg) (ic_RouterID cfg) (InternalAgent cfg) b))
      else if mode = [] then (Inl (Errs ''--mode is required (gateway | internal)''), b)
      else (Inl (Errs (fmt_q ''unknown --mode '' mode)), b))"

section \<open>The scheme of the API group\<close>

text \<open>
  \<open>api/v1alpha1\<close> registers its kinds with a builder of controller-runtime, which makes them known to a
  scheme under the group and version. The builder is an argument.
\<close>

record group_version =
  gv_Group :: string
  gv_Version :: string

record ('sb, 'sch) builder_lib =
  bl_Builder :: "group_version \<Rightarrow> 'sb"
  bl_Register :: "string list \<Rightarrow> 'sb \<Rightarrow> 'sb"
  bl_AddToScheme :: "'sb \<Rightarrow> 'sch \<Rightarrow> go_error + 'sch"

definition GroupVersion :: group_version where
  "GroupVersion = \<lparr>gv_Group = ''pontifex.io'', gv_Version = ''v1alpha1''\<rparr>"

definition SchemeBuilder :: "('sb, 'sch) builder_lib \<Rightarrow> 'sb" where
  "SchemeBuilder lib = bl_Builder lib GroupVersion"

text \<open>The builder after \<open>init\<close> of the package, which runs before \<open>main\<close>.\<close>

definition init_SchemeBuilder :: "('sb, 'sch) builder_lib \<Rightarrow> 'sb" where
  "init_SchemeBuilder lib = bl_Register lib [''NetworkOverlay'', ''NetworkOverlayList''] (SchemeBuilder lib)"

definition AddToScheme :: "('sb, 'sch) builder_lib \<Rightarrow> 'sch \<Rightarrow> go_error + 'sch" where
  "AddToScheme lib = bl_AddToScheme lib (init_SchemeBuilder lib)"

section \<open>The operator\<close>

text \<open>
  \<open>'m\<close> is a controller-runtime manager, \<open>'sch\<close> a scheme and \<open>'k\<close> the REST configuration. \<open>om_Complete\<close> is what
  \<open>SetupWithManager\<close> ends in: the reconciler is registered for overlays, and \<open>enqueueAll\<close> for pods and
  nodes. \<open>om_GetConfig\<close> is \<open>GetConfig\<close> of controller-runtime, which \<open>GetConfigOrDie\<close> calls.
\<close>

record ('p, 'lvl, 'log, 'sb, 'sch, 'k, 'm, 'c, 'l) operator_libs =
  om_NewYAML :: "string \<Rightarrow> go_error + 'p"
  om_Populate :: "'p \<Rightarrow> go_error + op_config"
  om_UnmarshalText :: "string \<Rightarrow> go_error + 'lvl"
  om_Build :: "'lvl option \<Rightarrow> go_error + 'log"
  om_NewScheme :: 'sch
  om_ClientGoScheme :: "'sch \<Rightarrow> go_error + 'sch"
  om_Builder :: "('sb, 'sch) builder_lib"
  om_GetConfig :: "go_error + 'k"
  om_NewManager :: "'k \<Rightarrow> 'sch \<Rightarrow> string \<Rightarrow> string \<Rightarrow> go_error + 'm"
  om_GetClient :: "'m \<Rightarrow> ('c, 'l) kclient"
  om_Complete :: "('c, 'l) reconciler \<Rightarrow> ('c \<Rightarrow> string list) \<Rightarrow> ('m, unit) op"
  om_AddHealthzCheck :: "('m, unit) op"
  om_AddReadyzCheck :: "('m, unit) op"
  om_Start :: "('m, unit) op"

text \<open>\<open>Inl\<close>: the value \<open>utilruntime.Must\<close> panics with.\<close>

definition newScheme :: "('p, 'lvl, 'log, 'sb, 'sch, 'k, 'm, 'c, 'l) operator_libs \<Rightarrow> go_error + 'sch" where
  "newScheme libs =
     (case om_ClientGoScheme libs (om_NewScheme libs) of
        Inl err \<Rightarrow> Inl err
      | Inr sch \<Rightarrow> AddToScheme (om_Builder libs) sch)"

text \<open>The operator has its own copy of the function of the agent.\<close>

definition op_newLogger :: "(string \<Rightarrow> go_error + 'lvl) \<Rightarrow> ('lvl option \<Rightarrow> go_error + 'log) \<Rightarrow> string \<Rightarrow> go_error + 'log" where
  "op_newLogger UnmarshalText Build level =
     (if level \<noteq> [] then
        (case UnmarshalText level of
           Inl err \<Rightarrow> Inl (Wrap (fmt_q ''parse log level '' level) err)
         | Inr lvl \<Rightarrow> Build (Some lvl))
      else Build None)"

definition SetupWithManager :: "('p, 'lvl, 'log, 'sb, 'sch, 'k, 'm, 'c, 'l) operator_libs \<Rightarrow> ('c, 'l) reconciler \<Rightarrow> ('m, unit) op" where
  "SetupWithManager libs r m = om_Complete libs r (enqueueAll (om_GetClient libs m)) m"

definition operator_serve :: "('p, 'lvl, 'log, 'sb, 'sch, 'k, 'm, 'c, 'l) operator_libs \<Rightarrow> op_config \<Rightarrow> ('m, unit) op" where
  "operator_serve libs cfg m =
     op_bind (op_wrap ''setup NetworkOverlay controller'' (SetupWithManager libs (operator_reconciler (om_GetClient libs m) cfg))) (\<lambda>_.
     op_bind (op_wrap ''add healthz'' (om_AddHealthzCheck libs)) (\<lambda>_.
     op_bind (op_wrap ''add readyz'' (om_AddReadyzCheck libs)) (\<lambda>_.
     op_wrap ''manager exited'' (om_Start libs)))) m"

text \<open>How \<open>run\<close> ends: it returns, it panics, or the process ends in a call of it (\<open>GetConfigOrDie\<close>).\<close>

datatype run_end = Returned "go_error option" | Panicked go_error | Died go_error

definition operator_run :: "('p, 'lvl, 'log, 'sb, 'sch, 'k, 'm, 'c, 'l) operator_libs \<Rightarrow> string \<Rightarrow> string \<Rightarrow> string \<Rightarrow> run_end" where
  "operator_run libs configPath metricsAddr probeAddr =
     (case oc_Load (om_NewYAML libs) (om_Populate libs) configPath of
        Inl err \<Rightarrow> Returned (Some err)
      | Inr cfg \<Rightarrow>
     (case op_newLogger (om_UnmarshalText libs) (om_Build libs) (oc_LogLevel cfg) of
        Inl err \<Rightarrow> Returned (Some err)
      | Inr logger \<Rightarrow>
     (case newScheme libs of
        Inl err \<Rightarrow> Panicked err
      | Inr sch \<Rightarrow>
     (case om_GetConfig libs of
        Inl err \<Rightarrow> Died err
      | Inr rest \<Rightarrow>
     (case om_NewManager libs rest sch metricsAddr probeAddr of
        Inl err \<Rightarrow> Returned (Some (Wrap ''create manager'' err))
      | Inr m \<Rightarrow> (case operator_serve libs cfg m of (Inl err, m') \<Rightarrow> Returned (Some err) | (Inr u, m') \<Rightarrow> Returned None))))))"

section \<open>Properties\<close>

lemma agent_run_cases:
  assumes "agent_run libs srv mode configPath b = (Inr a, b')"
  shows "(\<exists>p cfg. mode = ''gateway'' \<and> al_NewYAML libs configPath = Inr p \<and> al_PopulateGateway libs p = Inr cfg \<and>
       a = GatewayAgent (applyGatewayDefaults cfg) \<and> Start srv (gc_ASN cfg) (gc_RouterID cfg) b = (None, b')) \<or>
     (\<exists>p cfg. mode = ''internal'' \<and> al_NewYAML libs configPath = Inr p \<and> al_PopulateInternal libs p = Inr cfg \<and>
       a = InternalAgent (applyInternalNodeDefaults cfg) \<and> Start srv (ic_ASN cfg) (ic_RouterID cfg) b = (None, b'))"
proof -
  have g: "gc_ASN (applyGatewayDefaults c) = gc_ASN c" "gc_RouterID (applyGatewayDefaults c) = gc_RouterID c" for c
    by (simp_all add: applyGatewayDefaults_def)
  have i: "ic_ASN (applyInternalNodeDefaults c) = ic_ASN c" "ic_RouterID (applyInternalNodeDefaults c) = ic_RouterID c" for c
    by (simp_all add: applyInternalNodeDefaults_def)
  show ?thesis using assms unfolding agent_run_def LoadGateway_def LoadInternalNode_def startServer_def
    by (auto simp: g i split: sum.splits if_splits prod.splits option.splits)
qed

text \<open>C37: An agent runs a manager only in one of its two modes, with the configuration of that mode
  completed by the defaults, on a BGP server that has been started with the ASN and router ID of
  the configuration; with the server of this phase, which cannot be started, every run ends in an
  error.\<close>

theorem agent_run_starts:
  "(agent_run libs srv mode configPath b = (Inr a, b') \<longrightarrow>
     (\<exists>p cfg. mode = ''gateway'' \<and> al_NewYAML libs configPath = Inr p \<and> al_PopulateGateway libs p = Inr cfg \<and>
       a = GatewayAgent (applyGatewayDefaults cfg) \<and> Start srv (gc_ASN cfg) (gc_RouterID cfg) b = (None, b')) \<or>
     (\<exists>p cfg. mode = ''internal'' \<and> al_NewYAML libs configPath = Inr p \<and> al_PopulateInternal libs p = Inr cfg \<and>
       a = InternalAgent (applyInternalNodeDefaults cfg) \<and> Start srv (ic_ASN cfg) (ic_RouterID cfg) b = (None, b')))
   \<and> (\<exists>err. fst (agent_run libs gobgpServer mode configPath b) = Inl err)"
proof -
  have s: "Start gobgpServer asn i b \<noteq> (None, b')" for asn i b' by (simp add: gobgpServer_def)
  have "agent_run libs gobgpServer mode configPath b \<noteq> (Inr a, b')" for a b'
    using agent_run_cases [of libs gobgpServer mode configPath b a b'] s by auto
  then show ?thesis using agent_run_cases [of libs srv mode configPath b a b']
    by (cases "agent_run libs gobgpServer mode configPath b"; cases "fst (agent_run libs gobgpServer mode configPath b)") auto
qed

definition ex_agent_libs :: "(string, string, unit) agent_libs" where
  "ex_agent_libs = \<lparr>al_NewYAML = (\<lambda>path. Inr path), al_PopulateGateway = (\<lambda>p. Inr ex_gc), al_PopulateInternal = (\<lambda>p. Inr ex_ic),
     al_UnmarshalText = (\<lambda>l. if l = ''info'' then Inr l else Inl (Errs l)), al_Build = (\<lambda>l. Inr ())\<rparr>"

theorem agent_run_starts_witness:
  "\<exists>cfg. agent_run ex_agent_libs mem_bgp_server ''gateway'' ''agent.yaml'' mem_bgp0 = (Inr (GatewayAgent (applyGatewayDefaults cfg)), mem_bgp0)"
proof -
  have "agent_run ex_agent_libs mem_bgp_server ''gateway'' ''agent.yaml'' mem_bgp0 = (Inr (GatewayAgent ex_gc), mem_bgp0)"
    by code_simp
  with agent_run_starts [THEN conjunct1, THEN mp, OF this] show ?thesis by auto
qed

text \<open>The operator serves only with a complete configuration: when \<open>run\<close> returns no error, the
  configuration has an ASN and a gateway label, the manager knows the kinds of \<open>pontifex.io/v1alpha1\<close>, and
  the reconciler of that configuration was registered with it before it was started.\<close>

theorem operator_run_serves:
  assumes "operator_run libs configPath metricsAddr probeAddr = Returned None"
  shows "\<exists>cfg sch0 sch rest m m1 m2 m3 m4. oc_ASN cfg \<noteq> 0 \<and> oc_GatewayNodeLabel cfg \<noteq> [] \<and>
    bl_AddToScheme (om_Builder libs) (bl_Register (om_Builder libs) [''NetworkOverlay'', ''NetworkOverlayList'']
      (bl_Builder (om_Builder libs) \<lparr>gv_Group = ''pontifex.io'', gv_Version = ''v1alpha1''\<rparr>)) sch0 = Inr sch \<and>
    om_NewManager libs rest sch metricsAddr probeAddr = Inr m \<and>
    om_Complete libs (operator_reconciler (om_GetClient libs m) cfg) (enqueueAll (om_GetClient libs m)) m = (Inr (), m1) \<and>
    om_AddHealthzCheck libs m1 = (Inr (), m2) \<and> om_AddReadyzCheck libs m2 = (Inr (), m3) \<and> om_Start libs m3 = (Inr (), m4)"
proof -
  obtain cfg sch rest m m4 where l: "oc_Load (om_NewYAML libs) (om_Populate libs) configPath = Inr cfg"
    and n: "newScheme libs = Inr sch" and m: "om_NewManager libs rest sch metricsAddr probeAddr = Inr m"
    and s: "operator_serve libs cfg m = (Inr (), m4)"
    using assms unfolding operator_run_def by (auto split: sum.splits prod.splits)
  have "oc_ASN cfg \<noteq> 0 \<and> oc_GatewayNodeLabel cfg \<noteq> []"
    using l by (auto simp: oc_Load_def Let_def oc_validate_def oc_applyDefaults_def split: sum.splits if_splits)
  moreover obtain sch0 where
    "bl_AddToScheme (om_Builder libs) (bl_Register (om_Builder libs) [''NetworkOverlay'', ''NetworkOverlayList'']
      (bl_Builder (om_Builder libs) \<lparr>gv_Group = ''pontifex.io'', gv_Version = ''v1alpha1''\<rparr>)) sch0 = Inr sch"
    using n by (auto simp: newScheme_def AddToScheme_def init_SchemeBuilder_def SchemeBuilder_def GroupVersion_def split: sum.splits)
  moreover obtain m1 m2 m3 where
    "om_Complete libs (operator_reconciler (om_GetClient libs m) cfg) (enqueueAll (om_GetClient libs m)) m = (Inr (), m1)"
    "om_AddHealthzCheck libs m1 = (Inr (), m2)" "om_AddReadyzCheck libs m2 = (Inr (), m3)" "om_Start libs m3 = (Inr (), m4)"
    using s unfolding operator_serve_def by (elim op_elims) (simp add: SetupWithManager_def)
  ultimately show ?thesis using m by blast
qed

definition ex_operator_libs :: "(string, string, unit, group_version \<times> string list, (group_version \<times> string) list, unit, string list, mem_cluster, string \<times> string) operator_libs" where
  "ex_operator_libs = \<lparr>om_NewYAML = (\<lambda>path. Inr path), om_Populate = (\<lambda>p. Inr ex_config),
     om_UnmarshalText = (\<lambda>l. Inr l), om_Build = (\<lambda>l. Inr ()),
     om_NewScheme = [], om_ClientGoScheme = (\<lambda>sch. Inr sch), 
     om_Builder = \<lparr>bl_Builder = (\<lambda>gv. (gv, [])), bl_Register = (\<lambda>kinds (gv, ks). (gv, ks @ kinds)),
       bl_AddToScheme = (\<lambda>(gv, ks) sch. Inr (map (Pair gv) ks @ sch))\<rparr>,
     om_GetConfig = Inr (), om_NewManager = (\<lambda>rest sch metrics probe. Inr (map snd sch)),
     om_GetClient = (\<lambda>m. mem_client), om_Complete = (\<lambda>r enq m. (Inr (), ''controller'' # m)),
     om_AddHealthzCheck = (\<lambda>m. (Inr (), ''healthz'' # m)), om_AddReadyzCheck = (\<lambda>m. (Inr (), ''readyz'' # m)),
     om_Start = (\<lambda>m. (Inr (), m))\<rparr>"

theorem operator_run_serves_witness:
  "\<exists>rest sch m m3 m4. om_NewManager ex_operator_libs rest sch '':8080'' '':8081'' = Inr m \<and> om_Start ex_operator_libs m3 = (Inr (), m4)"
proof -
  have "operator_run ex_operator_libs ''operator.yaml'' '':8080'' '':8081'' = Returned None" by code_simp
  from operator_run_serves [OF this] show ?thesis by blast
qed

end
