(* ===== verification/Programs.thy ===== *)
theory Programs
  imports Mains "HOL-Library.Sublist"
begin

text \<open>
  The two programs as processes: \<open>main\<close> of \<open>cmd/agent/main.go\<close> and \<open>cmd/operator/main.go\<close>, from the
  arguments of the command line (Go's \<open>flag\<close> package, string flags only) to the exit status; and the
  agent as the operator deploys it, with the arguments and mounts of its container.
\<close>

section \<open>Flags\<close>

text \<open>
  \<open>flag.Parse\<close>: the values of the flags, the request for help (the program exits with status 0), or
  a message (status 2). A flag is \<open>-name=value\<close> or \<open>-name value\<close>, with one dash or two; the first
  argument that is not a flag, or \<open>--\<close>, ends the flags.
\<close>

datatype flag_result = FlagsOk "(string, string) gomap" | FlagsHelp | FlagsBad string

definition is_flag :: "string \<Rightarrow> bool" where
  "is_flag s \<longleftrightarrow> 2 \<le> length s \<and> s ! 0 = CHR ''-''"

definition flag_body :: "string \<Rightarrow> string" where
  "flag_body s = (if s ! 1 = CHR ''-'' then drop 2 s else drop 1 s)"

fun parseFlags :: "(string, string) gomap \<Rightarrow> string list \<Rightarrow> flag_result" where
  "parseFlags fl [] = FlagsOk fl"
| "parseFlags fl (s # args) =
     (if \<not> is_flag s \<or> s = ''--'' then FlagsOk fl
      else let body = flag_body s
        in if body = [] \<or> hd body = CHR ''-'' \<or> hd body = CHR ''='' then FlagsBad (fmt_s ''bad flag syntax: '' s)
           else (case SplitN2 CHR ''='' body of
               [name, val] \<Rightarrow>
                 if gm_has fl name then parseFlags (gm_put name val fl) args
                 else if name = ''help'' \<or> name = ''h'' then FlagsHelp
                 else FlagsBad (fmt_s ''flag provided but not defined: -'' name)
             | _ \<Rightarrow>
                 if gm_has fl body then
                   (case args of
                      [] \<Rightarrow> FlagsBad (fmt_s ''flag needs an argument: -'' body)
                    | val # args' \<Rightarrow> parseFlags (gm_put body val fl) args')
                 else if body = ''help'' \<or> body = ''h'' then FlagsHelp
                 else FlagsBad (fmt_s ''flag provided but not defined: -'' body)))"

definition flagValue :: "(string, string) gomap \<Rightarrow> string \<Rightarrow> string" where
  "flagValue fl name = (case gm_get fl name of None \<Rightarrow> [] | Some v \<Rightarrow> v)"

section \<open>Processes\<close>

text \<open>
  The text of an error (\<open>errors.Join\<close> puts a line per error); \<open>api\<close> is the text of the API server's
  not-found error.
\<close>

fun join_lines :: "string list \<Rightarrow> string" where
  "join_lines [] = []"
| "join_lines [x] = x"
| "join_lines (x # xs) = x @ [CHR 0x0A] @ join_lines xs"

fun error_text :: "(string \<Rightarrow> string) \<Rightarrow> go_error \<Rightarrow> string" where
  "error_text api (Errs t) = t"
| "error_text api (Wrap t e) = t @ '': '' @ error_text api e"
| "error_text api (Joined es) = join_lines (map (error_text api) es)"
| "error_text api (NotFound n) = api n"

text \<open>
  A process that ended over its flags, one that ended with the text it wrote to the standard error,
  one that ended below \<open>main\<close> (a panic has status 2; \<open>GetConfigOrDie\<close> logs its error and has 1), or one that runs.
\<close>

datatype 'a process = Usage nat | Exited nat string | Crashed nat go_error | Running 'a

definition agentFlags :: "(string, string) gomap" where
  "agentFlags = [(''mode'', []), (''config'', ''/etc/pontifex/agent.yaml'')]"

definition agent_main :: "(string \<Rightarrow> string) \<Rightarrow> ('p, 'lvl, 'log) agent_libs \<Rightarrow> 'b bgp_server \<Rightarrow> string list \<Rightarrow> 'b
    \<Rightarrow> agent process \<times> 'b" where
  "agent_main api libs srv args b =
     (case parseFlags agentFlags args of
        FlagsHelp \<Rightarrow> (Usage 0, b)
      | FlagsBad msg \<Rightarrow> (Usage 2, b)
      | FlagsOk fl \<Rightarrow>
          (case agent_run libs srv (flagValue fl ''mode'') (flagValue fl ''config'') b of
             (Inl err, b') \<Rightarrow> (Exited 1 (error_text api err @ [CHR 0x0A]), b')
           | (Inr a, b') \<Rightarrow> (Running a, b')))"

text \<open>\<open>libFlags\<close>: the flags that libraries of the operator have registered.\<close>

definition operatorFlags :: "(string, string) gomap" where
  "operatorFlags = [(''config'', ''/etc/pontifex/operator.yaml''), (''metrics-bind-address'', '':8080''),
     (''health-probe-bind-address'', '':8081'')]"

definition operator_main :: "(string \<Rightarrow> string) \<Rightarrow> (string, string) gomap \<Rightarrow> ('p, 'lvl, 'log, 'sb, 'sch, 'k, 'm, 'c, 'l) operator_libs \<Rightarrow> string list
    \<Rightarrow> unit process" where
  "operator_main api libFlags libs args =
     (case parseFlags (operatorFlags @ libFlags) args of
        FlagsHelp \<Rightarrow> Usage 0
      | FlagsBad msg \<Rightarrow> Usage 2
      | FlagsOk fl \<Rightarrow>
          (case operator_run libs (flagValue fl ''config'') (flagValue fl ''metrics-bind-address'')
                  (flagValue fl ''health-probe-bind-address'') of
             Returned (Some err) \<Rightarrow> Exited 1 (error_text api err @ [CHR 0x0A])
           | Returned None \<Rightarrow> Exited 0 []
           | Panicked err \<Rightarrow> Crashed 2 err
           | Died err \<Rightarrow> Crashed 1 err))"

section \<open>Settings survive the command line\<close>

definition show_flag :: "string \<times> string \<Rightarrow> string" where
  "show_flag = (\<lambda>(name, val). ''--'' @ name @ ''='' @ val)"

definition flag_name :: "string \<Rightarrow> bool" where
  "flag_name n \<longleftrightarrow> n \<noteq> [] \<and> hd n \<noteq> CHR ''-'' \<and> CHR ''='' \<notin> set n"

lemma parse_show_step:
  assumes "flag_name n" "gm_has fl n"
  shows "parseFlags fl (show_flag (n, v) # args) = parseFlags (gm_put n v fl) args"
proof -
  obtain c cs where n: "n = c # cs" "c \<noteq> CHR ''-''" "CHR ''='' \<notin> set n" using assms(1) by (cases n) (auto simp: flag_name_def)
  have b: "flag_body (show_flag (n, v)) = n @ CHR ''='' # v" "is_flag (show_flag (n, v))" "show_flag (n, v) \<noteq> ''--''"
    by (simp_all add: show_flag_def flag_body_def is_flag_def)
  have "SplitN2 CHR ''='' (n @ CHR ''='' # v) = [n, v]" using n(3) by simp
  moreover have "c \<noteq> CHR ''=''" using n(1,3) by auto
  ultimately show ?thesis using b n assms(2) by (simp add: Let_def)
qed

lemma parse_show_all:
  "gm_wf fl \<Longrightarrow> \<forall>(n, v) \<in> set fs. flag_name n \<and> gm_has fl n \<Longrightarrow>
     parseFlags fl (map show_flag fs @ rest) = parseFlags (fold (\<lambda>(n, v). gm_put n v) fs fl) rest"
proof (induction fs arbitrary: fl)
  case (Cons f fs)
  obtain n v where f: "f = (n, v)" by force
  have "flag_name n" "gm_has fl n" using Cons.prems(2) f by auto
  then have "parseFlags fl (map show_flag (f # fs) @ rest) = parseFlags (gm_put n v fl) (map show_flag fs @ rest)"
    by (simp add: f parse_show_step del: parseFlags.simps)
  also have "\<dots> = parseFlags (fold (\<lambda>(n, v). gm_put n v) fs (gm_put n v fl)) rest"
    by (rule Cons.IH) (use Cons.prems in \<open>auto simp: gm_has_put\<close>)
  finally show ?case by (simp add: f)
qed simp

section \<open>The deployed agents\<close>

text \<open>A mount provides a file if it is mounted there or on a directory above.\<close>

definition provides :: "volume_mount \<Rightarrow> string \<Rightarrow> bool" where
  "provides mt path \<longleftrightarrow> path = mt_MountPath mt \<or> prefix (mt_MountPath mt @ ''/'') path"


text \<open>The outcome of \<open>run\<close> as a process.\<close>

definition agent_process :: "(string \<Rightarrow> string) \<Rightarrow> (go_error + agent) \<times> 'b \<Rightarrow> agent process \<times> 'b" where
  "agent_process api res = (case res of
     (Inl err, b') \<Rightarrow> (Exited 1 (error_text api err @ [CHR 0x0A]), b')
   | (Inr a, b') \<Rightarrow> (Running a, b'))"

lemma agent_main_flags:
  assumes "distinct (map fst fs)" "fst ` set fs \<subseteq> {''mode'', ''config''}"
  defines "setting \<equiv> \<lambda>n d. case map_of fs n of None \<Rightarrow> d | Some v \<Rightarrow> v"
  shows "agent_main api libs srv (map show_flag fs) b =
    agent_process api (agent_run libs srv (setting ''mode'' []) (setting ''config'' ''/etc/pontifex/agent.yaml'') b)"
proof -
  have wf: "gm_wf agentFlags" by (simp add: gm_wf_def agentFlags_def)
  have names: "flag_name ''mode''" "flag_name ''config''" "gm_has agentFlags ''mode''" "gm_has agentFlags ''config''"
    by (simp_all add: flag_name_def agentFlags_def gm_has_def gm_get_def)
  have "\<forall>(n, v) \<in> set fs. flag_name n \<and> gm_has agentFlags n" using assms(2) names by fastforce
  from parse_show_all [OF wf this, of "[]"]
  have p: "parseFlags agentFlags (map show_flag fs) = FlagsOk (fold (\<lambda>(n, v). gm_put n v) fs agentFlags)" by simp
  have "map_of (rev fs) = map_of fs" using assms(1) map_of_inject_set [of "rev fs" fs] by (simp add: rev_map [symmetric])
  then have "flagValue (fold (\<lambda>(n, v). gm_put n v) fs agentFlags) n = (case map_of fs n of None \<Rightarrow> flagValue agentFlags n | Some v \<Rightarrow> v)" for n
    by (simp add: flagValue_def gm.get_put_all [OF wf] split: option.splits)
  moreover have "flagValue agentFlags ''mode'' = []" "flagValue agentFlags ''config'' = ''/etc/pontifex/agent.yaml''"
    by (simp_all add: flagValue_def agentFlags_def gm_get_def)
  ultimately have v: "flagValue (fold (\<lambda>(n, v). gm_put n v) fs agentFlags) ''mode'' = setting ''mode'' []"
    "flagValue (fold (\<lambda>(n, v). gm_put n v) fs agentFlags) ''config'' = setting ''config'' ''/etc/pontifex/agent.yaml''"
    by (simp_all add: setting_def split: option.split)
  show ?thesis unfolding agent_main_def p flag_result.case v agent_process_def ..
qed

lemma wg_mounts_elsewhere:
  assumes "mt \<in> set (snd (buildWGVolumes overlays))"
  shows "\<not> provides mt ''/etc/pontifex/agent.yaml''"
proof -
  obtain o1 where "mt = wgMount o1" using assms by (auto simp: buildWGVolumes_eq)
  then show ?thesis by (simp add: provides_def wgMount_def)
qed

section \<open>Properties\<close>

text \<open>C24: The settings of an agent survive the command line: started with any of its flags, each at most
  once and in any order, written \<open>--name=value\<close>, an agent runs with exactly these values and the
  defaults for the others; an error of the run is written to the standard error and ends the process
  with status 1.\<close>

theorem agent_settings_parsed:
  assumes "distinct (map fst fs)" "fst ` set fs \<subseteq> {''mode'', ''config''}"
  defines "setting \<equiv> \<lambda>n d. case map_of fs n of None \<Rightarrow> d | Some v \<Rightarrow> v"
  shows "agent_main api libs srv (map (\<lambda>(n, v). ''--'' @ n @ ''='' @ v) fs) b =
    (case agent_run libs srv (setting ''mode'' []) (setting ''config'' ''/etc/pontifex/agent.yaml'') b of
       (Inl err, b') \<Rightarrow> (Exited 1 (error_text api err @ [CHR 0x0A]), b')
     | (Inr a, b') \<Rightarrow> (Running a, b'))"
  using agent_main_flags [OF assms(1,2)] unfolding agent_process_def setting_def show_flag_def .

theorem agent_settings_parsed_witness:
  "agent_main (\<lambda>n. n) ex_agent_libs mem_bgp_server [''--config=agent.yaml'', ''--mode=gateway''] mem_bgp0 = (Running (GatewayAgent ex_gc), mem_bgp0)"
proof -
  have d: "distinct (map fst [(''config'', ''agent.yaml''), (''mode'', ''gateway'')])"
    "fst ` set [(''config'', ''agent.yaml''), (''mode'', ''gateway'')] \<subseteq> {''mode'', ''config''}" by simp_all
  have r: "agent_run ex_agent_libs mem_bgp_server ''gateway'' ''agent.yaml'' mem_bgp0 = (Inr (GatewayAgent ex_gc), mem_bgp0)" by code_simp
  show ?thesis using agent_settings_parsed [OF d, of "\<lambda>n. n" ex_agent_libs mem_bgp_server mem_bgp0] by (simp add: r)
qed

text \<open>C23: The agents that the operator deploys select the right mode and look for their configuration
  under the default path, but nothing in their deployments puts a file there: no mount of the
  container provides it. Where the image has none either, every deployed agent exits with status 1
  without starting its BGP server.\<close>

theorem deployed_agents_lack_config:
  fixes libs :: "('p, 'lvl, 'log) agent_libs"
  assumes no_file: "al_NewYAML libs ''/etc/pontifex/agent.yaml'' = Inl err"
    and c: "(mode, c) \<in> {(''gateway'', hd (dp_Containers (gatewayMutate img overlays role nodes d))), (''internal'', hd (dp_Containers (internalMutate img node d)))}"
  shows "parseFlags agentFlags (ct_Args c) = FlagsOk [(''mode'', mode), (''config'', ''/etc/pontifex/agent.yaml'')] \<and>
    (\<forall>mt \<in> set (ct_VolumeMounts c). \<not> provides mt ''/etc/pontifex/agent.yaml'') \<and>
    (\<exists>text. agent_main api libs srv (ct_Args c) b = (Exited 1 text, b))"
proof -
  have p: "parseFlags agentFlags [show_flag (''mode'', m)] = FlagsOk [(''mode'', m), (''config'', ''/etc/pontifex/agent.yaml'')]" for m
  proof -
    have "parseFlags agentFlags [show_flag (''mode'', m)] = parseFlags (gm_put ''mode'' m agentFlags) []"
      by (rule parse_show_step) (simp_all add: flag_name_def agentFlags_def gm_has_def gm_get_def)
    then show ?thesis by (simp add: agentFlags_def gm_put_def)
  qed
  have a: "ct_Args c = [show_flag (''mode'', mode)]" and m: "mode \<in> {''gateway'', ''internal''}"
    using c by (auto simp: gatewayMutate_def internalMutate_def Let_def show_flag_def split: prod.splits)
  have "\<not> provides mt ''/etc/pontifex/agent.yaml''" if "mt \<in> set (ct_VolumeMounts c)" for mt
    using that c wg_mounts_elsewhere [of mt overlays]
    by (auto simp: gatewayMutate_def internalMutate_def Let_def split: prod.splits)
  moreover have "\<exists>e. agent_run libs srv mode ''/etc/pontifex/agent.yaml'' b = (Inl e, b)"
    using m no_file by (auto simp: agent_run_def LoadGateway_def LoadInternalNode_def)
  ultimately show ?thesis using p [of mode] unfolding agent_main_def a by (auto simp: flagValue_def gm_get_def)
qed

definition ex_bare_libs :: "(string, string, unit) agent_libs" where
  "ex_bare_libs = ex_agent_libs\<lparr>al_NewYAML := (\<lambda>path. Inl (Errs ''no such file or directory''))\<rparr>"

theorem deployed_agents_lack_config_witness:
  "\<exists>text. agent_main (\<lambda>n. n) ex_bare_libs mem_bgp_server (ct_Args (hd (dp_Containers
     (gatewayMutate ''img'' [ex_blue] ''primary'' [] (new_deployment ''sys'' ''gw''))))) mem_bgp0 = (Exited 1 text, mem_bgp0)"
proof -
  have f: "al_NewYAML ex_bare_libs ''/etc/pontifex/agent.yaml'' = Inl (Errs ''no such file or directory'')" by (simp add: ex_bare_libs_def)
  let ?c = "hd (dp_Containers (gatewayMutate ''img'' [ex_blue] ''primary'' [] (new_deployment ''sys'' ''gw'')))"
  have "(''gateway'', ?c) \<in> {(''gateway'', ?c), (''internal'', hd (dp_Containers (internalMutate ''img'' ''node-1'' (new_deployment ''sys'' ''gw''))))}"
    by (rule insertI1)
  from deployed_agents_lack_config [OF f this, THEN conjunct2, THEN conjunct2] show ?thesis .
qed

end
