(* ===== verification/Spec2Isabelle.thy ===== *)
theory Spec2Isabelle
  imports Deep_Copy Routes_Filtered Agents_Live Operator_Sweep Programs
begin

text \<open>
  \<^bold>\<open>Verification of pontifex\<close>, cross-cluster overlay networking for Kubernetes over WireGuard and BGP.

  \<^bold>\<open>The program.\<close> A \<open>NetworkOverlay\<close> resource declares peers (other clusters) and edges (pods that
  are to be reachable under a virtual IP). The \<^emph>\<open>operator\<close> (\<open>apps/operator\<close>) gives each overlay a BGP
  community, keys and a resolved status, and deploys \<^emph>\<open>agents\<close> (\<open>apps/agent\<close>) on gateway nodes and on
  the nodes that host edges. An agent follows snapshots of all overlays: one reconciler drives the
  BGP daemon, one the routes (and, on internal nodes, VRFs, rules, addresses and firewall bridges),
  one the WireGuard interfaces of a gateway. Route events of the BGP daemon and the snapshots meet
  in the routes updater; a manager per mode runs these parts concurrently.

  \<^bold>\<open>Theories.\<close>
  \<^item> \<open>Prelude\<close>: errors, Go maps behind the interface \<open>go_map\<close>, the open iteration order of Go maps as an
    argument of every loop over a map (\<open>shuffle\<close>), and the loop that all reconcilers are made of
    (\<open>go_for\<close>). \<open>Sync\<close>: what removing the unwanted and then adding the missing entities achieves, in every outcome
    (\<open>sync_result\<close>), from the interface \<open>keyed_store\<close>. \<open>Go_Strings\<close>: decimal numbers, \<open>strconv.ParseUint\<close>,
    \<open>strings.SplitN\<close>, \<open>TrimSpace\<close>, \<open>net.SplitHostPort\<close>, \<open>net.ParseIP\<close>, \<open>filepath.Join\<close>.
  \<^item> \<open>Api_Types\<close>: \<open>api/v1alpha1\<close>. A slice that may be nil is an \<open>option\<close>. \<open>Example\<close>: the topology of
    the witnesses. \<open>Deep_Copy\<close>: the generated copy functions on a store of arrays and references; a copy
    shares no memory with its original, so the controller may change the overlay and patch against
    the copy, which is how \<open>Operator\<close> treats copies as values.
  \<^item> \<open>Bgp_Lib\<close>, \<open>Routes_Lib\<close>, \<open>Firewall_Lib\<close> and the first part of \<open>Wireguard\<close>: the interfaces under
    \<open>agent/internal/libs\<close>, each as a record of operations on a state of any type, a locale with the
    behaviour its documentation promises (for outcomes with and without an error), the stub that the
    repository has, and an implementation in memory; both are interpretations of the locale.
  \<^item> \<open>Bgp_Gateway\<close>, \<open>Bgp_Internal\<close>, \<open>Routes_Gateway\<close>, \<open>Routes_Internal\<close> with \<open>Routes_Internal_Correct\<close>, \<open>Wireguard\<close>:
    the reconcilers under \<open>agent/internal/reconcilers\<close>, one definition per function, and per loop
    where a function has several. Proved in the contexts of the library contracts: a cycle without an error
    leaves exactly the wanted keys, what it keeps when something fails, that tables hold exactly
    the routes of their overlays, that it is idempotent.
    \<open>Routes_Filtered\<close>: the internal node's cycle on a host that lists ip rules as the comment on
    \<open>libs/routes/interface.go\<close> says, where the rule of a removed overlay stays.
  \<^item> \<open>Routes_Updater\<close>: \<open>agent/internal/bgp\<close>, the \<open>for/select\<close> loop as the step relation \<open>select\<close> over its channels, in
    any interleaving with senders, closing and cancellation (\<open>reaches\<close>). \<open>routes_reconciler\<close> is the contract of a
    reconciler the loop drives; both routes reconcilers have it (sublocales).
  \<^item> \<open>Cluster\<close>, \<open>Agent_Config\<close>, \<open>Managers\<close>: observer and mediator, configuration, and the goroutines
    of a manager as the relation \<open>mgr_step\<close>, which projects onto \<open>select\<close>. \<open>manager_contract\<close> puts the two
    loops together, \<open>gateway_host\<close> and \<open>node_host\<close> the contracts of a whole host.
  \<^item> \<open>Op_Monad\<close>: a chain of API calls that ends at the first error, with invariants, pre- and
    postconditions. \<open>K8s\<close>: the API client as a record, its contract \<open>cluster_contract\<close> and a cluster in memory.
    \<open>Community\<close>, \<open>Operator_Agents\<close>, \<open>Operator\<close>: \<open>controller/networkoverlay_controller.go\<close>, \<open>internal/agent\<close>,
    \<open>internal/config\<close>, \<open>internal/wgkeys\<close>; \<open>nr_Reconcile\<close> is one call of \<open>Reconcile\<close>, composed of the blocks
    of the source. \<open>Operator_Correct\<close>, \<open>Operator_Properties\<close>: what every call keeps and what a successful
    one establishes, and the cluster as a state machine (\<open>cluster_reach\<close>: calls in any order,
    interleaved with the changes of users).
  \<^item> \<open>Mains\<close>, \<open>Programs\<close>: \<open>cmd/agent\<close> and \<open>cmd/operator\<close>, from the command line (Go's \<open>flag\<close> package) to the
    manager or the exit status, and the agents with the arguments and mounts that the operator's
    deployments give them.
  \<^item> \<open>Reconcilers_Live\<close>, \<open>Agents_Live\<close>, \<open>Operator_Live\<close>: total correctness. \<open>responsive_host\<close>, \<open>responsive_bgp\<close> and
    \<open>available_operator\<close> extend the contracts by what a host, a daemon and a cluster have no reason to refuse;
    there the reconcilers succeed (which rests on the order in which a cycle creates things), every run of an
    agent's goroutines ends in the state its last snapshot asks for, and two calls of the controller's
    \<open>Reconcile\<close> bring an overlay and the internal agents to rest. \<open>Operator_Sweep\<close>: a call leaves the other
    overlays alone, so that two passes over the queue (\<open>enqueueAll\<close>) settle a cluster of many overlays.
  \<^item> This theory: properties across components, from the
    operator's allocation to the tables of a node, from an edge to the gateway's main table, and from the
    operator's mounts to the files an agent reads.

  \<^bold>\<open>Reading the theorems.\<close> A hypothesis \<open>..._contract ...\<close> is the promise of a library that is not part of the
  repository or still a stub there; its abstract views (\<open>nbrs\<close>, \<open>tables\<close>, \<open>ovs\<close>, \<open>dps\<close> and so on) are arguments of the locale.
  Witnesses instantiate it with the implementation in memory. The contract of the API client
  includes that reads are current; a stale cache is outside the model, and the uniqueness of
  communities rests on it. The contract of the routes library lists every ip rule of the agent, as the
  tests of the reconciler do and its interface's comment does not. Two reconcile calls do not overlap (controller-runtime runs one worker).
  \<open>synced\<close> says that a present entity under a wanted key is kept as it is: reconcilers compare keys only.

  \<^bold>\<open>Bounds and termination.\<close> All functions are total: loops over lists are folds or structural
  recursion, \<open>firstFree\<close> ends with its 32-bit counter at 65536 (a measure), the parsers consume their
  input. There is no fuel. ASNs, table identifiers and the allocation counter are 32-bit words; wrap-around
  of a table identifier is explicit, and excluded for communities the operator allocates. The
  endless loops of the updater and the managers are step relations.

  \<^bold>\<open>Not modelled.\<close> Logging; contexts apart from cancellation; signals apart from the cancellation they cause;
  the YAML, logging and controller-runtime libraries (its schemes, builders and managers), the file
  system and the environment, which are arguments; a mediator that debounces, since the one of this
  phase sends nothing: the managers are proved for any sender.
\<close>

section \<open>Tables of allocated communities\<close>

lemma pool_table:
  assumes "c \<in> set (pool asn)"
  obtains n where "1 \<le> n" "n < 65536" "c = dec (unat asn) @ '':'' @ dec n" "vrfTableID c = Inr (of_nat n + 10000)"
    "unat (of_nat n + 10000 :: u32) = n + 10000"
proof -
  obtain n where n: "1 \<le> n" "n < 65536" "c = dec (unat asn) @ '':'' @ dec n" using assms by (auto simp: pool_def)
  have "vrfTableID c = Inr (of_nat n + 10000)" unfolding n(3) using n(2) by (intro vrfTableID_print dec_no_colon) simp
  moreover have "unat (of_nat n + 10000 :: u32) = n + 10000" using n(2) by (intro table_unat_small) simp
  ultimately show thesis using that n by blast
qed

lemma pool_table_inj:
  assumes "c \<in> set (pool asn)" "c' \<in> set (pool asn)" "vrfTableID c = Inr t" "vrfTableID c' = Inr t"
  shows "c = c'"
proof -
  obtain n where n: "c = dec (unat asn) @ '':'' @ dec n" "vrfTableID c = Inr (of_nat n + 10000)"
    "unat (of_nat n + 10000 :: u32) = n + 10000" by (rule pool_table [OF assms(1)])
  obtain n' where n': "c' = dec (unat asn) @ '':'' @ dec n'" "vrfTableID c' = Inr (of_nat n' + 10000)"
    "unat (of_nat n' + 10000 :: u32) = n' + 10000" by (rule pool_table [OF assms(2)])
  have "(of_nat n + 10000 :: u32) = of_nat n' + 10000" using n(2) n'(2) assms(3,4) by simp
  then have "n + 10000 = n' + 10000" using n(3) n'(3) by metis
  then show ?thesis using n(1) n'(1) by simp
qed

lemma pool_ri_table: "community ov \<in> set (pool asn) \<Longrightarrow> ri_table ov \<noteq> None"
  using pool_not_Nil by (auto simp: ri_table_def elim!: pool_table)

lemma find_cong_P: "(\<And>x. x \<in> set xs \<Longrightarrow> P x = Q x) \<Longrightarrow> find P xs = find Q xs"
  by (induction xs) auto

text \<open>C1: Isolation of overlays, from the operator's allocation to the tables of a node: when the
  communities of a snapshot come from the operator's pool, a sync that returns no error leaves in
  the table of an overlay exactly the learned routes whose first community that belongs to any
  overlay of the snapshot is the overlay's own. A route that carries only the community of
  another overlay is not in it.\<close>

theorem overlay_isolation:
  assumes "routes_contract rt vrfs rules addrs tables" "firewall_contract fw bridges"
    and "ri_Reconcile ord rt fw (fold ri_ApplyEvent evs (ri_new node)) overlays (s, f) = (None, s', f')"
    and pool: "\<forall>ov \<in> set overlays. community ov \<noteq> [] \<longrightarrow> (\<exists>n \<in> {1..65535}. community ov = dec (unat (asn :: u32)) @ '':'' @ dec n)"
    and ov: "ov \<in> set overlays" "community ov \<noteq> []"
  shows "\<exists>t. vrfTableID (community ov) = Inr t \<and> 10000 < unat t \<and> tables s' t =
    {vrf_route t b | p b. learned_route p evs = Some b \<and>
       find (\<lambda>c. c \<noteq> [] \<and> c \<in> community ` set overlays) (r_Communities b) = Some (community ov)}"
proof -
  have pl: "community o1 \<in> set (pool asn)" if "o1 \<in> set overlays" "community o1 \<noteq> []" for o1
    using pool that by (fastforce simp: pool_def)
  obtain n where n: "1 \<le> n" "vrfTableID (community ov) = Inr (of_nat n + 10000)" "unat (of_nat n + 10000 :: u32) = n + 10000"
    by (rule pool_table [OF pl [OF ov]])
  let ?t = "of_nat n + 10000 :: u32"
  have t: "ri_table ov = Some ?t" using ov(2) n(2) by (simp add: ri_table_def)
  have k: "(\<exists>o1 \<in> set overlays. community o1 = c \<and> ri_table o1 \<noteq> None) \<longleftrightarrow> c \<noteq> [] \<and> c \<in> community ` set overlays" for c
    using pool_ri_table pl by (force simp: ri_table_def)
  have f: "(\<exists>c. find (\<lambda>c. c \<noteq> [] \<and> c \<in> community ` set overlays) cs = Some c \<and> vrfTableID c = Inr ?t) \<longleftrightarrow>
      find (\<lambda>c. c \<noteq> [] \<and> c \<in> community ` set overlays) cs = Some (community ov)" for cs
  proof
    assume "\<exists>c. find (\<lambda>c. c \<noteq> [] \<and> c \<in> community ` set overlays) cs = Some c \<and> vrfTableID c = Inr ?t"
    then obtain c where c: "find (\<lambda>c. c \<noteq> [] \<and> c \<in> community ` set overlays) cs = Some c" "vrfTableID c = Inr ?t" by blast
    then have "c \<in> set (pool asn)" using pl by (auto simp: find_Some_iff)
    then show "find (\<lambda>c. c \<noteq> [] \<and> c \<in> community ` set overlays) cs = Some (community ov)"
      using c pool_table_inj [OF _ pl [OF ov] c(2) n(2)] by simp
  qed (use n(2) in blast)
  have "Some ?t \<in> ri_table ` set overlays" using ov(1) t by force
  from host_contract.ri_Reconcile_spec(4) [OF host_contract.intro [OF assms(1,2)] assms(3) ri_learned_history [THEN conjunct1] this]
  have "tables s' ?t = {vrf_route ?t b | p b. learned_route p evs = Some b \<and>
       find (\<lambda>c. c \<noteq> [] \<and> c \<in> community ` set overlays) (r_Communities b) = Some (community ov)}"
    unfolding ri_learned_history [THEN conjunct2] table_of_iff k f .
  then show ?thesis using n by auto
qed

theorem overlay_isolation_witness:
  "\<exists>t. vrfTableID (community ex_red) = Inr t \<and> set (mh_tables (fst (snd ex_sync)) t) = {}"
proof -
  have cs: "community ex_blue = community_string 65000 1" "community ex_red = community_string 65000 2" by code_simp+
  have c: "community ex_blue = dec (unat (65000 :: u32)) @ '':'' @ dec 1" "community ex_red = dec (unat (65000 :: u32)) @ '':'' @ dec 2"
    unfolding cs community_string_def by simp_all
  have ne: "community ex_red \<noteq> []" by code_simp
  have r: "(1 :: nat) \<in> {1..65535}" "(2 :: nat) \<in> {1..65535}" by simp_all
  have p: "\<forall>ov \<in> set [ex_blue, ex_red]. community ov \<noteq> [] \<longrightarrow> (\<exists>n \<in> {1..65535}. community ov = dec (unat (65000 :: u32)) @ '':'' @ dec n)"
    using c(1,2) r unfolding list.set ball_simps(5,7) by blast
  have m: "ex_red \<in> set [ex_blue, ex_red]" by simp
  have l: "b = ex_route" if "learned_route q ex_events = Some b" for q b
    using that by (auto simp: learned_route_def last_event_def ex_events_def ex_added_def split: if_splits)
  have k: "find (\<lambda>c. c \<noteq> [] \<and> c \<in> community ` set [ex_blue, ex_red]) (r_Communities ex_route) \<noteq> Some (community ex_red)"
    by code_simp
  have none: "\<not> (learned_route q ex_events = Some b \<and>
      find (\<lambda>c. c \<noteq> [] \<and> c \<in> community ` set [ex_blue, ex_red]) (r_Communities b) = Some (community ex_red))" for q b
    using l k by blast
  obtain t where t: "vrfTableID (community ex_red) = Inr t" "set (mh_tables (fst (snd ex_sync)) t) =
      {vrf_route t b | q b. learned_route q ex_events = Some b \<and>
         find (\<lambda>c. c \<noteq> [] \<and> c \<in> community ` set [ex_blue, ex_red]) (r_Communities b) = Some (community ex_red)}"
    using overlay_isolation [OF memr.routes_contract_axioms memf.firewall_contract_axioms ex_sync_eq p m ne] by (elim exE conjE)
  have "set (mh_tables (fst (snd ex_sync)) t) = {}" unfolding t(2) by (simp only: none simp_thms Collect_empty_eq)
  with t(1) show ?thesis by (intro exI conjI)
qed

text \<open>C17: A community that the operator allocates never collides in the routing tables of a node: its
  table identifier is between 10001 and 75535, without wrap-around and so above all reserved
  tables, whatever else is in the cluster; and it differs from the table of every other overlay of
  the cluster whose community is from the same pool.\<close>

theorem allocated_table_distinct:
  assumes alloc: "allocate asn name items = Inr c"
  shows "\<exists>t. vrfTableID c = Inr t \<and> unat t \<in> {10001..75535} \<and>
    (\<forall>o1 \<in> set items. \<forall>n \<in> {1..65535}. ov_Name o1 \<noteq> name \<and> community o1 = dec (unat asn) @ '':'' @ dec n \<longrightarrow>
       (\<exists>t1. vrfTableID (community o1) = Inr t1 \<and> t1 \<noteq> t))"
proof -
  have p: "c \<in> set (pool asn)" using allocate_fresh [OF alloc] by simp
  obtain k where k: "1 \<le> k" "k < 65536" "vrfTableID c = Inr (of_nat k + 10000)" "unat (of_nat k + 10000 :: u32) = k + 10000"
    by (rule pool_table [OF p])
  have d: "\<exists>t1. vrfTableID (community o1) = Inr t1 \<and> t1 \<noteq> of_nat k + 10000"
    if o1: "o1 \<in> set items" "n \<in> {1..65535}" "ov_Name o1 \<noteq> name \<and> community o1 = dec (unat asn) @ '':'' @ dec n" for o1 n
  proof -
    have q: "community o1 \<in> set (pool asn)" using o1(2,3) by (fastforce simp: pool_def)
    obtain j where j: "vrfTableID (community o1) = Inr (of_nat j + 10000)" by (rule pool_table [OF q])
    have "community o1 \<noteq> c" using allocate_fresh(2) [OF alloc o1(1)] o1(3) by blast
    then have "(of_nat j + 10000 :: u32) \<noteq> of_nat k + 10000" using pool_table_inj [OF q p j] k(3) by metis
    then show ?thesis using j by blast
  qed
  show ?thesis
  proof (rule exI, intro conjI ballI impI)
    show "vrfTableID c = Inr (of_nat k + 10000)" by (rule k(3))
    show "unat (of_nat k + 10000 :: u32) \<in> {10001..75535}" using k by simp
  qed (rule d)
qed

theorem allocated_table_distinct_witness:
  "\<exists>t t1. vrfTableID ''65000:1'' = Inr t \<and> unat t \<in> {10001..75535} \<and> vrfTableID (community ex_red) = Inr t1 \<and> t1 \<noteq> t"
proof -
  have a: "allocate 65000 ''new'' [ex_red, ex_new] = Inr ''65000:1''" by code_simp
  have m: "ex_red \<in> set [ex_red, ex_new]" "(2 :: nat) \<in> {1..65535}" by simp_all
  have n: "ov_Name ex_red \<noteq> ''new''" by code_simp
  have "community ex_red = community_string 65000 2" by code_simp
  then have c: "ov_Name ex_red \<noteq> ''new'' \<and> community ex_red = dec (unat (65000 :: u32)) @ '':'' @ dec 2"
    using n unfolding community_string_def by simp
  show ?thesis using allocated_table_distinct [OF a] m c by metis
qed

section \<open>From an edge to the gateway\<close>

text \<open>C10: An edge becomes reachable from the gateways: let an internal node reconcile BGP without an
  error for a snapshot with a ready edge on that node, whose virtual IP no edge of another
  overlay has, not being advertised yet; then it advertises the /32 of the virtual IP with the
  overlay's community, and a gateway that has learned this advertisement last for the prefix and
  syncs without an error for the same snapshot has a route to it in its main table.\<close>

theorem edge_reachable:
  assumes srv: "bgp_contract srv nbrs pols ads" and node: "bi_Reconcile r ord srv overlays b = (None, b')"
    and e: "ov \<in> set overlays" "e \<in> set (edges_of ov)" "community ov \<noteq> []" "es_NodeName e = bi_nodeName r" "es_Ready e" "es_VirtualIP e \<noteq> []"
    and vip: "\<forall>o1 \<in> set overlays. \<forall>e1 \<in> set (edges_of o1). es_VirtualIP e1 = es_VirtualIP e \<longrightarrow> community o1 = community ov"
    and new: "es_VirtualIP e @ ''/32'' \<notin> fst ` ads b"
    and rt: "routes_contract rt vrfs rules addrs tables"
    and learned: "learned_route (es_VirtualIP e @ ''/32'') evs = Some a" "ad_of a \<in> ads b'" "r_Prefix a = es_VirtualIP e @ ''/32''"
    and gw: "rg_Reconcile ns rt (fold rg_ApplyEvent evs rg_new) overlays s = (None, s')"
  shows "(es_VirtualIP e @ ''/32'', [community ov]) \<in> ads b' \<and>
    \<lparr>rr_TableID = 0, rr_Dst = es_VirtualIP e @ ''/32'', rr_Gw = r_NextHop a, rr_Dev = []\<rparr> \<in> tables s' 0"
proof -
  let ?x = "es_VirtualIP e @ ''/32''"
  obtain ns ps rts where "ListNeighbors srv b = Inr ns" "ListPolicies srv b = Inr ps" "ListAdvertised srv b = Inr rts"
    by (rule bgp_contract.bi_Reconcile_lists [OF srv node])
  from bgp_contract.bi_Reconcile_spec [OF srv node this]
  have sync: "ads b' = synced fst (bi_ads r overlays) (ads b)" by (simp add: sync_result_def)
  have "(ov, e) \<in> set (bi_localEdges r overlays)" using e by (auto simp: bi_localEdges_def)
  then have "gm_has (bi_buildDesiredAdvertisements r overlays) ?x"
    unfolding bi_ads_fold put_all_has by (force simp: bi_adOf_def bi_prefix_def)
  then obtain d where d: "gm_get (bi_buildDesiredAdvertisements r overlays) ?x = Some d" by (auto simp: gm_has_iff)
  from put_all_SomeD [OF this [unfolded bi_ads_fold]]
  obtain o1 e1 where o1: "(o1, e1) \<in> set (bi_localEdges r overlays)" "?x = bi_prefix e1" "d = bi_adOf (o1, e1)"
    by (auto simp: bi_adOf_def)
  then have "community o1 = community ov" using vip by (auto simp: bi_localEdges_def bi_prefix_def)
  then have "ad_of d = (?x, [community ov])" using o1(2,3) by (simp add: ad_of_def bi_adOf_def)
  then have g: "gm_get (bi_ads r overlays) ?x = Some (?x, [community ov])" using d by simp
  have adv: "(?x, [community ov]) \<in> ads b'" unfolding sync synced_def using g new by simp
  have "ad_of a = (?x, [community ov])" using learned(2,3) g new unfolding sync synced_def by (force simp: ad_of_def)
  then have "community ov \<in> set (r_Communities a)" by (simp add: ad_of_def)
  then have "\<lparr>rr_TableID = 0, rr_Dst = ?x, rr_Gw = r_NextHop a, rr_Dev = []\<rparr> \<in> tables s' 0"
    unfolding routes_contract.rg_main_table(1) [OF rt gw] using learned(1) e(1,3) by blast
  then show ?thesis using adv by simp
qed

definition ex_ad :: bgp_route where
  "ex_ad = \<lparr>r_Prefix = ''10.200.0.5/32'', r_NextHop = ''10.0.0.21'', r_Communities = [''65000:1'']\<rparr>"

theorem edge_reachable_witness:
  "\<lparr>rr_TableID = 0, rr_Dst = ''10.200.0.5/32'', rr_Gw = ''10.0.0.21'', rr_Dev = []\<rparr> \<in>
     set (mh_tables (snd (rg_Reconcile [] mem_routes (fold rg_ApplyEvent [\<lparr>ev_Type = RouteAdded, ev_Route = ex_ad\<rparr>] rg_new) [ex_blue] mem_host0)) 0)"
proof -
  define e where "e = ex_edge ''10.200.0.5'' ''10.244.1.9'' ''node-1'' ''10.0.0.21''"
  define evs where "evs = [\<lparr>ev_Type = RouteAdded, ev_Route = ex_ad\<rparr>]"
  let ?b = "snd (bi_Reconcile ex_bi ex_ord mem_bgp_server [ex_blue] mem_bgp0)"
  have n: "bi_Reconcile ex_bi ex_ord mem_bgp_server [ex_blue] mem_bgp0 = (None, ?b)" by (rule pair_fst) code_simp
  have m: "ex_blue \<in> set [ex_blue]" "e \<in> set (edges_of ex_blue)" "community ex_blue \<noteq> []" by (simp_all add: ex_defs e_def)
  have l: "es_NodeName e = bi_nodeName ex_bi" "es_Ready e" "es_VirtualIP e \<noteq> []"
    by (simp_all add: ex_defs e_def ex_bi_def)
  have v: "\<forall>o1 \<in> set [ex_blue]. \<forall>e1 \<in> set (edges_of o1). es_VirtualIP e1 = es_VirtualIP e \<longrightarrow> community o1 = community ex_blue" by simp
  have f: "es_VirtualIP e @ ''/32'' \<notin> fst ` set (mb_ads mem_bgp0)" by (simp add: mem_bgp0_def)
  have x: "es_VirtualIP e @ ''/32'' = ''10.200.0.5/32''" by (simp add: e_def ex_edge_def)
  have a: "learned_route (es_VirtualIP e @ ''/32'') evs = Some ex_ad" "r_Prefix ex_ad = es_VirtualIP e @ ''/32''"
    unfolding x by (simp_all add: learned_route_def last_event_def evs_def ex_ad_def)
  have ad: "ad_of ex_ad \<in> set (mb_ads ?b)" by code_simp
  have g: "rg_Reconcile [] mem_routes (fold rg_ApplyEvent evs rg_new) [ex_blue] mem_host0 =
      (None, snd (rg_Reconcile [] mem_routes (fold rg_ApplyEvent evs rg_new) [ex_blue] mem_host0))"
    unfolding evs_def by (rule pair_fst) code_simp
  from edge_reachable [OF mem.bgp_contract_axioms n m l v f memr.routes_contract_axioms a(1) ad a(2) g, THEN conjunct2]
  show ?thesis unfolding x evs_def by (simp add: ex_ad_def)
qed

section \<open>WireGuard keys\<close>

lemma split_on_slash: "split_on CHR ''/'' ''/etc/pontifex/wg'' = [[], ''etc'', ''pontifex'', ''wg'']"
  by simp

text \<open>C29: The agent reads the key where the operator mounts it: with the default key directory, the
  file the gateway's WireGuard reconciler reads for an overlay is the path at which the gateway
  deployment mounts the overlay's secret, for every overlay name that is a single path element.\<close>

theorem key_mounted_where_read:
  assumes name: "CHR ''/'' \<notin> set (ov_Name ov)" "ov_Name ov \<noteq> []" "ov_Name ov \<noteq> ''.''" "ov_Name ov \<noteq> ''..''"
    and cfg: "gc_WGKeyDir cfg = []"
  shows "key_path \<lparr>wr_wgKeyDir = gc_WGKeyDir (applyGatewayDefaults cfg), wr_listen = gc_WGListenPort cfg\<rparr> ov = mt_MountPath (wgMount ov)"
proof -
  let ?n = "ov_Name ov"
  have d: "gc_WGKeyDir (applyGatewayDefaults cfg) = ''/etc/pontifex/wg''" using cfg by (simp add: applyGatewayDefaults_def Let_def)
  have j: "join_with ''/'' [''/etc/pontifex/wg'', ?n, ''private''] = ''/etc/pontifex/wg'' @ CHR ''/'' # (?n @ CHR ''/'' # ''private'')"
    by simp
  have s: "split_on CHR ''/'' (''/etc/pontifex/wg'' @ CHR ''/'' # (?n @ CHR ''/'' # ''private'')) = [[], ''etc'', ''pontifex'', ''wg'', ?n, ''private'']"
    unfolding split_on_append split_on_slash split_on_plain [OF name(1)] by simp
  have c: "clean_elems True [] [[], ''etc'', ''pontifex'', ''wg'', ?n, ''private''] = [''etc'', ''pontifex'', ''wg'', ?n, ''private'']"
    using name(2-4) by simp
  have "path_Clean (''/etc/pontifex/wg'' @ CHR ''/'' # (?n @ CHR ''/'' # ''private'')) = ''/etc/pontifex/wg/'' @ ?n @ ''/private''"
    unfolding path_Clean_def s Let_def by (simp add: c [simplified])
  then show ?thesis unfolding key_path_def wgMount_def path_Join_def Let_def d using name(2) j by simp
qed

theorem key_mounted_where_read_witness:
  "key_path \<lparr>wr_wgKeyDir = gc_WGKeyDir (applyGatewayDefaults (ex_gc\<lparr>gc_WGKeyDir := []\<rparr>)), wr_listen = gc_WGListenPort (ex_gc\<lparr>gc_WGKeyDir := []\<rparr>)\<rparr> ex_blue
     = mt_MountPath (wgMount ex_blue)"
  by (rule key_mounted_where_read) (simp_all add: ex_defs)

end
